(* ===== verification/Zf_Prelude.thy ===== *)
theory Zf_Prelude
  imports Complex_Main "HOL-Library.Char_ord" "HOL-Library.List_Lexorder" "HOL-Library.Sublist"
begin

text \<open>
  Shared vocabulary of the development: Rust strings, ordered maps and sets, JSON values and
  the fallible results the crates thread through \<open>?\<close>.

  \<^item> A Rust \<open>String\<close> is its sequence of UTF-8 bytes, an Isabelle \<open>string\<close>; \<open>len()\<close> is
    \<^term>\<open>length\<close>, comparison is the bytewise lexicographic order, and the Unicode sensitive
    operations used by the sources (\<open>trim\<close>, \<open>char::is_control\<close>) work on the encodings.
  \<^item> A \<open>BTreeMap\<close> is an association list with strictly increasing keys, so that iteration
    order is part of the model; a \<open>BTreeSet\<close> is a strictly increasing list.
  \<^item> A \<open>serde_json::Value\<close> is the datatype \<open>json\<close>. Its numbers keep the three
    representations of serde (unsigned, negative, finite float); a finite \<open>f64\<close> is the
    rational it denotes.
  \<^item> \<open>Result<T, E>\<close> is the sum \<open>'e + 't\<close>, \<open>Inl\<close> for \<open>Err\<close>.
\<close>

named_theorems result_splits \<open>case splits for the fallible operations\<close>
named_theorems json_simps \<open>accessors of JSON values\<close>
named_theorems btree_simps \<open>lookups in ordered maps after an update\<close>

subsection \<open>Results\<close>

type_synonym ('e, 'a) result = "'e + 'a"

definition is_ok :: "('e, 'a) result \<Rightarrow> bool" where
  "is_ok r = (case r of Inl _ \<Rightarrow> False | Inr _ \<Rightarrow> True)"

text \<open>\<open>iter().map(f).collect::<Result<Vec<_>>>()\<close>: the first error stops the traversal.\<close>

fun collect_results :: "('a \<Rightarrow> ('e, 'b) result) \<Rightarrow> 'a list \<Rightarrow> ('e, 'b list) result" where
  "collect_results f [] = Inr []"
| "collect_results f (x # xs) =
     (case f x of
        Inl e \<Rightarrow> Inl e
      | Inr y \<Rightarrow> (case collect_results f xs of Inl e \<Rightarrow> Inl e | Inr ys \<Rightarrow> Inr (y # ys)))"

text \<open>\<open>for x in xs { f(x)?; }\<close>: a loop whose body can only fail.\<close>

fun for_each :: "('a \<Rightarrow> ('e, unit) result) \<Rightarrow> 'a list \<Rightarrow> ('e, unit) result" where
  "for_each f [] = Inr ()"
| "for_each f (x # xs) = (case f x of Inl e \<Rightarrow> Inl e | Inr _ \<Rightarrow> for_each f xs)"

text \<open>A loop over a state whose body may panic (\<open>None\<close>).\<close>

fun fold_option :: "('a \<Rightarrow> 's \<Rightarrow> 's option) \<Rightarrow> 'a list \<Rightarrow> 's \<Rightarrow> 's option" where
  "fold_option f [] s = Some s"
| "fold_option f (x # xs) s = (case f x s of None \<Rightarrow> None | Some s' \<Rightarrow> fold_option f xs s')"

lemma fold_option_append:
  "fold_option f (xs @ ys) s =
     (case fold_option f xs s of None \<Rightarrow> None | Some s' \<Rightarrow> fold_option f ys s')"
  by (induction xs arbitrary: s) (auto split: option.splits)

lemma fold_option_concat:
  "fold_option f (concat xss) s = fold_option (\<lambda>xs. fold_option f xs) xss s"
  by (induction xss arbitrary: s) (auto simp: fold_option_append split: option.splits)

lemma fold_option_map: "fold_option f (map g xs) s = fold_option (\<lambda>x. f (g x)) xs s"
  by (induction xs arbitrary: s) (auto split: option.splits)

text \<open>The loop rule: an invariant of the items done so far and the state rules out the panic.\<close>

lemma fold_option_rule:
  assumes "I ds s"
    and "\<And>ds x s. I ds s \<Longrightarrow> x \<in> set xs \<Longrightarrow> \<exists>s'. f x s = Some s' \<and> I (ds @ [x]) s'"
  shows "\<exists>s'. fold_option f xs s = Some s' \<and> I (ds @ xs) s'"
  using assms
proof (induction xs arbitrary: ds s)
  case (Cons x xs)
  from Cons.prems(2) [OF Cons.prems(1)] obtain s1 where "f x s = Some s1" and "I (ds @ [x]) s1"
    by auto
  moreover from this(2) have "\<exists>s'. fold_option f xs s1 = Some s' \<and> I ((ds @ [x]) @ xs) s'"
    by (rule Cons.IH) (simp add: Cons.prems(2))
  ultimately show ?case by simp
qed simp

lemmas [result_splits] = sum.splits option.splits if_splits prod.splits list.splits

lemma is_ok_simps [simp]: "is_ok (Inr x)" "\<not> is_ok (Inl e)"
  by (simp_all add: is_ok_def)

lemma is_ok_iff: "is_ok r \<longleftrightarrow> (\<exists>x. r = Inr x)"
  by (cases r) (simp_all add: is_ok_def)

lemma collect_results_cong [fundef_cong]:
  assumes "xs = ys" and "\<And>x. x \<in> set ys \<Longrightarrow> f x = g x"
  shows "collect_results f xs = collect_results g ys"
  using assms(2) unfolding assms(1) by (induction ys) (simp_all cong: sum.case_cong)

lemma for_each_cong [fundef_cong]:
  assumes "xs = ys" and "\<And>x. x \<in> set ys \<Longrightarrow> f x = g x"
  shows "for_each f xs = for_each g ys"
  using assms(2) unfolding assms(1) by (induction ys) (simp_all cong: sum.case_cong)

lemma for_each_ok_iff: "for_each f xs = Inr () \<longleftrightarrow> (\<forall>x \<in> set xs. f x = Inr ())"
  by (induction xs) (auto split: sum.splits)

lemma for_each_err: "for_each f xs = Inl e \<Longrightarrow> \<exists>x \<in> set xs. f x = Inl e"
  by (induction xs) (auto split: sum.splits)

lemma collect_results_ok_iff:
  "collect_results f xs = Inr ys \<longleftrightarrow> list_all2 (\<lambda>x y. f x = Inr y) xs ys"
proof (induction xs arbitrary: ys)
  case (Cons x xs)
  show ?case
    by (cases ys; cases "f x"; cases "collect_results f xs")
      (auto simp: Cons.IH [symmetric])
qed auto

lemma collect_results_err_iff:
  "is_ok (collect_results f xs) \<longleftrightarrow> (\<forall>x \<in> set xs. is_ok (f x))"
  by (induction xs) (auto split: sum.splits simp: is_ok_def)

lemma list_all2_mem:
  assumes "list_all2 P xs ys"
  shows "y \<in> set ys \<Longrightarrow> \<exists>x \<in> set xs. P x y" and "x \<in> set xs \<Longrightarrow> \<exists>y \<in> set ys. P x y"
  using assms by (induction rule: list_all2_induct) auto

lemma collect_results_err:
  "collect_results f xs = Inl e \<Longrightarrow> \<exists>x \<in> set xs. f x = Inl e"
  by (induction xs) (auto split: sum.splits)

subsection \<open>Strings\<close>

text \<open>\<open>char::is_whitespace\<close> is the Unicode property \<open>White_Space\<close>; these are its encodings.\<close>

definition whitespace_encodings :: "string list" where
  "whitespace_encodings =
     [[CHR 0x09], [CHR 0x0A], [CHR 0x0B], [CHR 0x0C], [CHR 0x0D], [CHR 0x20],
      [CHR 0xC2, CHR 0x85], [CHR 0xC2, CHR 0xA0], [CHR 0xE1, CHR 0x9A, CHR 0x80],
      [CHR 0xE2, CHR 0x80, CHR 0x80], [CHR 0xE2, CHR 0x80, CHR 0x81], [CHR 0xE2, CHR 0x80, CHR 0x82],
      [CHR 0xE2, CHR 0x80, CHR 0x83], [CHR 0xE2, CHR 0x80, CHR 0x84], [CHR 0xE2, CHR 0x80, CHR 0x85],
      [CHR 0xE2, CHR 0x80, CHR 0x86], [CHR 0xE2, CHR 0x80, CHR 0x87], [CHR 0xE2, CHR 0x80, CHR 0x88],
      [CHR 0xE2, CHR 0x80, CHR 0x89], [CHR 0xE2, CHR 0x80, CHR 0x8A], [CHR 0xE2, CHR 0x80, CHR 0xA8],
      [CHR 0xE2, CHR 0x80, CHR 0xA9], [CHR 0xE2, CHR 0x80, CHR 0xAF], [CHR 0xE2, CHR 0x81, CHR 0x9F],
      [CHR 0xE3, CHR 0x80, CHR 0x80]]"

text \<open>Strip the given nonempty sequences from the front as long as one of them matches.\<close>

function strip_front :: "string list \<Rightarrow> string \<Rightarrow> string" where
  "strip_front ws s =
     (case find (\<lambda>w. w \<noteq> [] \<and> prefix w s) ws of
        None \<Rightarrow> s
      | Some w \<Rightarrow> strip_front ws (drop (length w) s))"
  by pat_completeness auto
termination
  by (relation "measure (\<lambda>(ws, s). length s)")
    (auto simp: find_Some_iff prefix_def)

declare strip_front.simps [simp del]

definition trim_start :: "string \<Rightarrow> string" where
  "trim_start s = strip_front whitespace_encodings s"

definition trim_end :: "string \<Rightarrow> string" where
  "trim_end s = rev (strip_front (map rev whitespace_encodings) (rev s))"

definition trim :: "string \<Rightarrow> string" where
  "trim s = trim_end (trim_start s)"

text \<open>\<open>s.trim().is_empty()\<close>\<close>

definition blank :: "string \<Rightarrow> bool" where
  "blank s \<longleftrightarrow> trim s = []"

text \<open>A byte that occurs in no whitespace encoding is never trimmed.\<close>

definition visible :: "char \<Rightarrow> bool" where
  "visible c \<longleftrightarrow> c \<notin> set (concat whitespace_encodings)"

lemma strip_front_keeps:
  "c \<in> set s \<Longrightarrow> c \<notin> set (concat ws) \<Longrightarrow> c \<in> set (strip_front ws s)"
proof (induction ws s rule: strip_front.induct)
  case (1 ws s)
  show ?case
  proof (cases "find (\<lambda>w. w \<noteq> [] \<and> prefix w s) ws")
    case None
    with 1 show ?thesis by (simp add: strip_front.simps [of ws s])
  next
    case (Some w)
    then have "w \<in> set ws" and "prefix w s" by (auto simp: find_Some_iff)
    with "1.prems" have "c \<in> set (drop (length w) s)" by (auto simp: prefix_def)
    with "1.IH" [OF Some] "1.prems" Some show ?thesis by (simp add: strip_front.simps [of ws s])
  qed
qed

lemma visible_not_blank: "c \<in> set s \<Longrightarrow> visible c \<Longrightarrow> \<not> blank s"
proof -
  assume "c \<in> set s" and vis: "visible c"
  then have "c \<in> set (rev (trim_start s))"
    by (auto simp: visible_def trim_start_def intro: strip_front_keeps)
  moreover have "set (concat (map rev whitespace_encodings)) = set (concat whitespace_encodings)"
    by auto
  ultimately have "c \<in> set (strip_front (map rev whitespace_encodings) (rev (trim_start s)))"
    using vis by (intro strip_front_keeps) (simp_all add: visible_def)
  then show "\<not> blank s" by (auto simp: blank_def trim_def trim_end_def)
qed

lemma not_blank_Cons [simp]: "visible c \<Longrightarrow> \<not> blank (c # s)"
  by (rule visible_not_blank) auto

lemma blank_Nil [simp]: "blank []"
  by (simp add: blank_def trim_def trim_start_def trim_end_def strip_front.simps find_None_iff
      whitespace_encodings_def)

lemma visible_iff [simp]:
  "visible c \<longleftrightarrow> c \<notin> {CHR 0x09, CHR 0x0A, CHR 0x0B, CHR 0x0C, CHR 0x0D, CHR 0x20, CHR 0x80, CHR 0x81,
     CHR 0x82, CHR 0x83, CHR 0x84, CHR 0x85, CHR 0x86, CHR 0x87, CHR 0x88, CHR 0x89, CHR 0x8A, CHR 0x9A,
     CHR 0x9F, CHR 0xA0, CHR 0xA8, CHR 0xA9, CHR 0xAF, CHR 0xC2, CHR 0xE1, CHR 0xE2, CHR 0xE3}"
  unfolding visible_def whitespace_encodings_def by auto

text \<open>\<open>char::is_control\<close> (general category Cc): C0, DEL and, in two bytes, C1.\<close>

fun has_control :: "string \<Rightarrow> bool" where
  "has_control [] = False"
| "has_control (c # cs) =
     (c < CHR 0x20 \<or> c = CHR 0x7F
      \<or> (c = CHR 0xC2 \<and> (case cs of [] \<Rightarrow> False | d # _ \<Rightarrow> CHR 0x80 \<le> d \<and> d \<le> CHR 0x9F))
      \<or> has_control cs)"

definition strip_prefix :: "string \<Rightarrow> string \<Rightarrow> string option" where
  "strip_prefix p s = (if prefix p s then Some (drop (length p) s) else None)"

text \<open>\<open>str::split_once\<close> on a nonempty pattern: the text before and after the first match.\<close>

fun split_once :: "string \<Rightarrow> string \<Rightarrow> (string \<times> string) option" where
  "split_once p [] = (if p = [] then Some ([], []) else None)"
| "split_once p (c # cs) =
     (if prefix p (c # cs) then Some ([], drop (length p) (c # cs))
      else (case split_once p cs of None \<Rightarrow> None | Some (a, b) \<Rightarrow> Some (c # a, b)))"

text \<open>\<open>str::rsplit_once\<close> on one character.\<close>

definition rsplit_once :: "char \<Rightarrow> string \<Rightarrow> (string \<times> string) option" where
  "rsplit_once c s =
     (case split_once [c] (rev s) of None \<Rightarrow> None | Some (a, b) \<Rightarrow> Some (rev b, rev a))"

text \<open>\<open>str::split\<close> on one character: always at least one part.\<close>

fun split_char :: "char \<Rightarrow> string \<Rightarrow> string list" where
  "split_char c [] = [[]]"
| "split_char c (d # ds) =
     (if d = c then [] # split_char c ds
      else (case split_char c ds of [] \<Rightarrow> [[d]] | p # ps \<Rightarrow> (d # p) # ps))"

text \<open>\<open>str::replace\<close> with a nonempty pattern.\<close>

function replace :: "string \<Rightarrow> string \<Rightarrow> string \<Rightarrow> string" where
  "replace p r [] = []"
| "replace p r (c # cs) =
     (if p \<noteq> [] \<and> prefix p (c # cs) then r @ replace p r (drop (length p) (c # cs))
      else c # replace p r cs)"
  by pat_completeness auto
termination
proof (relation "measure (\<lambda>(p, r, s). length s)", goal_cases)
  case (2 p r c cs)
  then have "0 < length p" by simp
  then have "length (drop (length p) (c # cs)) < length (c # cs)"
    by (simp only: length_drop) simp
  then show ?case by simp
qed auto

text \<open>\<open>format!\<close> of an unsigned integer, and \<open>str::parse::<usize>\<close> on a 64-bit target.\<close>

fun string_of_nat :: "nat \<Rightarrow> string" where
  "string_of_nat n =
     (if n < 10 then [char_of (48 + n)]
      else string_of_nat (n div 10) @ [char_of (48 + n mod 10)])"

declare string_of_nat.simps [simp del]

definition digit_val :: "char \<Rightarrow> nat option" where
  "digit_val c = (if CHR ''0'' \<le> c \<and> c \<le> CHR ''9'' then Some (of_char c - 48) else None)"

fun parse_digits :: "nat \<Rightarrow> string \<Rightarrow> nat option" where
  "parse_digits acc [] = Some acc"
| "parse_digits acc (c # cs) =
     (case digit_val c of
        None \<Rightarrow> None
      | Some d \<Rightarrow> (let n = 10 * acc + d in if n < 2 ^ 64 then parse_digits n cs else None))"

definition parse_usize :: "string \<Rightarrow> nat option" where
  "parse_usize s =
     (let ds = (case s of c # cs \<Rightarrow> if c = CHR ''+'' then cs else s | [] \<Rightarrow> s)
      in if ds = [] then None else parse_digits 0 ds)"

subsection \<open>Ordered maps and sets\<close>

type_synonym ('k, 'v) btree = "('k \<times> 'v) list"

definition keys :: "('k, 'v) btree \<Rightarrow> 'k list" where
  "keys m = map fst m"

definition bt_ok :: "('k :: linorder, 'v) btree \<Rightarrow> bool" where
  "bt_ok m \<longleftrightarrow> sorted_wrt (<) (keys m)"

fun bt_insert :: "'k :: linorder \<Rightarrow> 'v \<Rightarrow> ('k, 'v) btree \<Rightarrow> ('k, 'v) btree" where
  "bt_insert k v [] = [(k, v)]"
| "bt_insert k v ((k', v') # m) =
     (if k < k' then (k, v) # (k', v') # m
      else if k = k' then (k, v) # m
      else (k', v') # bt_insert k v m)"

definition bt_remove :: "'k \<Rightarrow> ('k, 'v) btree \<Rightarrow> ('k, 'v) btree" where
  "bt_remove k m = filter (\<lambda>(k', _). k' \<noteq> k) m"

fun bs_insert :: "'a :: linorder \<Rightarrow> 'a list \<Rightarrow> 'a list" where
  "bs_insert x [] = [x]"
| "bs_insert x (y # ys) =
     (if x < y then x # y # ys else if x = y then y # ys else y # bs_insert x ys)"

definition bs_of_list :: "'a :: linorder list \<Rightarrow> 'a list" where
  "bs_of_list xs = fold bs_insert xs []"

lemma bt_insert_lookup [btree_simps, simp]:
  "map_of (bt_insert k v m) k' = (if k' = k then Some v else map_of m k')"
  by (induction k v m rule: bt_insert.induct) auto

lemma keys_simps [simp]: "keys [] = []" "keys ((k, v) # m) = k # keys m"
  by (simp_all add: keys_def)

lemma bt_insert_keys: "set (keys (bt_insert k v m)) = insert k (set (keys m))"
  unfolding keys_def by (induction k v m rule: bt_insert.induct) auto

lemma bt_ok_Nil [simp]: "bt_ok []"
  by (simp add: bt_ok_def keys_def)

lemma bt_ok_Cons: "bt_ok ((k, v) # m) \<longleftrightarrow> (\<forall>k' \<in> set (keys m). k < k') \<and> bt_ok m"
  by (simp add: bt_ok_def keys_def)

lemma bt_insert_ok: "bt_ok m \<Longrightarrow> bt_ok (bt_insert k v m)"
proof (induction k v m rule: bt_insert.induct)
  case (1 k v)
  then show ?case by (simp add: bt_ok_def keys_def)
next
  case (2 k v k' v' m)
  then show ?case by (auto simp: bt_ok_Cons bt_insert_keys)
qed

lemma bt_remove_lookup [btree_simps]:
  "map_of (bt_remove k m) k' = (if k' = k then None else map_of m k')"
  unfolding bt_remove_def by (induction m) auto

lemma bt_remove_ok: "bt_ok m \<Longrightarrow> bt_ok (bt_remove k m)"
  unfolding bt_remove_def by (induction m) (auto simp: bt_ok_Cons keys_def)

lemma bt_ok_distinct: "bt_ok m \<Longrightarrow> distinct (map fst m)"
  unfolding bt_ok_def keys_def using strict_sorted_iff by blast

lemma bt_ok_in_iff: "bt_ok m \<Longrightarrow> (k, v) \<in> set m \<longleftrightarrow> map_of m k = Some v"
  using bt_ok_distinct by (metis map_of_eq_Some_iff)

lemma keys_iff: "k \<in> set (keys m) \<longleftrightarrow> (\<exists>v. map_of m k = Some v)"
  unfolding keys_def by (induction m) (auto split: if_splits)

text \<open>Inserting a list of entries, their keys renamed by \<open>f\<close>.\<close>

lemma fold_bt_insert_other:
  "k \<notin> f ` fst ` set xs \<Longrightarrow> map_of (fold (\<lambda>(a, v). bt_insert (f a) v) xs m) k = map_of m k"
  by (induction xs arbitrary: m) auto

lemma fold_bt_insert_in:
  assumes "inj f" and "distinct (map fst xs)" and "(a, v) \<in> set xs"
  shows "map_of (fold (\<lambda>(a, v). bt_insert (f a) v) xs m) (f a) = Some v"
  using assms(2,3)
proof (induction xs arbitrary: m)
  case (Cons x xs)
  show ?case
  proof (cases "x = (a, v)")
    case True
    with Cons.prems have "f a \<notin> f ` fst ` set xs"
      using assms(1) by (simp add: inj_image_mem_iff)
    with True show ?thesis by (simp add: fold_bt_insert_other)
  next
    case False
    with Cons show ?thesis by (cases x) auto
  qed
qed simp

lemma fold_bt_insert_inv:
  "map_of (fold (\<lambda>(a, v). bt_insert (f a) v) xs m) k = Some v \<Longrightarrow>
     map_of m k = Some v \<or> (\<exists>a. (a, v) \<in> set xs \<and> k = f a)"
  by (induction xs arbitrary: m) (fastforce split: if_splits)+

text \<open>Entries that agree on equal keys, inserted in any order and multiplicity.\<close>

lemma fold_bt_insert_consistent:
  assumes "\<And>k v v'. (k, v) \<in> set xs \<Longrightarrow> (k, v') \<in> set xs \<Longrightarrow> v = v'"
  shows "map_of (fold (\<lambda>(k, v). bt_insert k v) xs m) k = Some v \<longleftrightarrow>
    (k, v) \<in> set xs \<or> (k \<notin> fst ` set xs \<and> map_of m k = Some v)"
  using assms
proof (induction xs arbitrary: m)
  case (Cons e xs)
  obtain a b where e: "e = (a, b)" by fastforce
  have "map_of (fold (\<lambda>(k, v). bt_insert k v) xs (bt_insert a b m)) k = Some v \<longleftrightarrow>
      (k, v) \<in> set xs \<or> (k \<notin> fst ` set xs \<and> map_of (bt_insert a b m) k = Some v)"
    using Cons.prems by (intro Cons.IH) auto
  moreover have "(a, v) \<in> set xs \<Longrightarrow> v = b" for v using Cons.prems e by auto
  ultimately show ?case using e by (auto simp: image_iff)
qed simp

lemma bt_ok_ext:
  assumes "bt_ok m" and "bt_ok n" and "map_of m = map_of n"
  shows "m = n"
proof (rule map_sorted_distinct_set_unique [of fst])
  note d = bt_ok_distinct [OF assms(1)] bt_ok_distinct [OF assms(2)]
  show set: "set m = set n" using map_of_inject_set [OF d] assms(3) by simp
  show "inj_on fst (set m \<union> set n)" using d unfolding set by (simp add: distinct_map)
  show "sorted (map fst m)" "sorted (map fst n)"
    using assms(1,2) by (auto simp: bt_ok_def keys_def strict_sorted_iff)
qed (simp_all add: assms bt_ok_distinct)

lemma fold_bt_insert_ok: "bt_ok m \<Longrightarrow> bt_ok (fold (\<lambda>(a, v). bt_insert (f a) v) xs m)"
  by (induction xs arbitrary: m) (auto simp: bt_insert_ok)

lemma bs_insert_set [simp]: "set (bs_insert x ys) = insert x (set ys)"
  by (induction x ys rule: bs_insert.induct) auto

lemma bs_insert_sorted: "sorted_wrt (<) ys \<Longrightarrow> sorted_wrt (<) (bs_insert x ys)"
  by (induction x ys rule: bs_insert.induct) (auto intro: less_trans)

lemma fold_bs_insert_set: "set (fold bs_insert xs ys) = set xs \<union> set ys"
  by (induction xs arbitrary: ys) auto

lemma fold_bs_insert_sorted: "sorted_wrt (<) ys \<Longrightarrow> sorted_wrt (<) (fold bs_insert xs ys)"
  by (induction xs arbitrary: ys) (auto intro: bs_insert_sorted)

lemma bs_of_list_set [simp]: "set (bs_of_list xs) = set xs"
  by (simp add: bs_of_list_def fold_bs_insert_set)

lemma bs_of_list_sorted: "sorted_wrt (<) (bs_of_list xs)"
  by (simp add: bs_of_list_def fold_bs_insert_sorted)

text \<open>A \<open>BTreeSet\<close> built from a list depends on its elements only.\<close>

lemma bs_of_list_cong: "set xs = set ys \<Longrightarrow> bs_of_list xs = bs_of_list ys"
  using bs_of_list_sorted [of xs] bs_of_list_sorted [of ys]
  by (intro sorted_distinct_set_unique) (auto simp: strict_sorted_iff)

subsection \<open>JSON values\<close>

datatype number = PosInt nat | NegInt int | Float rat

datatype json =
    JNull
  | JBool bool
  | JNumber number
  | JString string
  | JArray "json list"
  | JObject "(string \<times> json) list"

fun is_null :: "json \<Rightarrow> bool" where
  "is_null JNull = True" | "is_null _ = False"

fun is_boolean :: "json \<Rightarrow> bool" where
  "is_boolean (JBool _) = True" | "is_boolean _ = False"

fun is_number :: "json \<Rightarrow> bool" where
  "is_number (JNumber _) = True" | "is_number _ = False"

fun is_string :: "json \<Rightarrow> bool" where
  "is_string (JString _) = True" | "is_string _ = False"

fun is_array :: "json \<Rightarrow> bool" where
  "is_array (JArray _) = True" | "is_array _ = False"

fun is_object :: "json \<Rightarrow> bool" where
  "is_object (JObject _) = True" | "is_object _ = False"

fun as_str :: "json \<Rightarrow> string option" where
  "as_str (JString s) = Some s" | "as_str _ = None"

fun as_array :: "json \<Rightarrow> json list option" where
  "as_array (JArray xs) = Some xs" | "as_array _ = None"

fun as_object :: "json \<Rightarrow> (string \<times> json) list option" where
  "as_object (JObject m) = Some m" | "as_object _ = None"

text \<open>\<open>Value::get(key)\<close>, and \<open>value[key]\<close> which reads \<open>Null\<close> where the key is absent.\<close>

fun jget :: "json \<Rightarrow> string \<Rightarrow> json option" where
  "jget (JObject m) k = map_of m k" | "jget _ k = None"

definition jidx :: "json \<Rightarrow> string \<Rightarrow> json" where
  "jidx v k = (case jget v k of None \<Rightarrow> JNull | Some x \<Rightarrow> x)"

text \<open>Assignment \<open>value[key] = x\<close> on an object (or \<open>Null\<close>, which becomes one).\<close>

fun jset :: "string \<Rightarrow> json \<Rightarrow> json \<Rightarrow> json" where
  "jset k x (JObject m) = JObject (bt_insert k x m)"
| "jset k x JNull = JObject [(k, x)]"
| "jset k x v = v"

lemma jset_object [json_simps]: "is_object v \<Longrightarrow> is_object (jset k x v)"
  by (cases v) auto

lemma jidx_jset [json_simps]:
  "is_object v \<Longrightarrow> jidx (jset k x v) k' = (if k' = k then x else jidx v k')"
  by (cases v) (auto simp: jidx_def)

lemma find_SomeD: "find P xs = Some y \<Longrightarrow> y \<in> set xs \<and> P y"
  by (induction xs) (auto split: if_splits)

end
