(* ===== verification/Zf_Types.thy ===== *)
theory Zf_Types
  imports Zf_Prelude
begin

text \<open>
  The crate \<open>zf-core\<close>: identities, diagnostics and the resource types of
  \<open>zf-core/src/types.rs\<close>. A type is validated against a registry of named types under two
  budgets (64 levels, 4096 expanded nodes), values are checked against validated types, and
  \<open>compatible\<close> is the structural compatibility of route and dataset contracts.

  Shown here: validation accepts exactly the types whose expansion is finite, known, nonblank
  and within the budgets; checking a value terminates on every validated type and decides an
  inductively defined typing relation; compatibility is a preorder on valid types and is sound
  for values (subsumption).
\<close>

subsection \<open>Identities and scopes (\<open>identity.rs\<close>)\<close>

datatype scope = FlowScope string | BridgeScope string | RuntimeScope

datatype permission = Read | Write

subsection \<open>Types and diagnostics\<close>

datatype data_type =
    Boolean
  | Number
  | Text
  | List data_type
  | Record "(string \<times> data_type) list"
  | Media string
  | Named string

type_synonym type_registry = "(string, data_type) btree"

text \<open>
  A diagnostic message is a fixed or formatted text; the one message that contains the
  \<open>Debug\<close> rendering of a type carries the type itself.
\<close>

datatype message = Msg string | ValueMismatch data_type

record diagnostic =
  diag_code :: string
  diag_path :: string
  diag_message :: message

definition diag :: "string \<Rightarrow> string \<Rightarrow> string \<Rightarrow> diagnostic" where
  "diag c p m = \<lparr>diag_code = c, diag_path = p, diag_message = Msg m\<rparr>"

subsection \<open>Validation of types\<close>

text \<open>
  \<open>check_type\<close> threads the counter \<open>visited\<close> and the list of errors. The set \<open>visiting\<close> is
  extended before the recursive call and restored after it, hence an argument here.
\<close>

function (sequential)
  check_type :: "data_type \<Rightarrow> type_registry \<Rightarrow> string \<Rightarrow> string set \<Rightarrow> nat \<Rightarrow>
    nat \<times> diagnostic list \<Rightarrow> nat \<times> diagnostic list" and
  check_fields :: "(string \<times> data_type) list \<Rightarrow> type_registry \<Rightarrow> string \<Rightarrow> string set \<Rightarrow> nat \<Rightarrow>
    nat \<times> diagnostic list \<Rightarrow> nat \<times> diagnostic list"
where
  "check_type t types p visiting depth (visited, errors) =
     (if 4096 \<le> visited then
        (if visited = 4096
         then (visited + 1, errors @ [diag ''type_complexity'' p ''Type expansion exceeds 4096 nodes''])
         else (visited, errors))
      else if 64 < depth then
        (visited + 1, errors @ [diag ''type_depth'' p ''Type nesting exceeds 64 levels''])
      else (case t of
        Named name \<Rightarrow>
          (if blank name
           then (visited + 1, errors @ [diag ''type_name'' p ''Named type must have an identity''])
           else if name \<in> visiting
           then (visited + 1, errors @ [diag ''type_cycle'' p (''Recursive type: '' @ name)])
           else (case map_of types name of
               Some value \<Rightarrow>
                 check_type value types p (insert name visiting) (depth + 1) (visited + 1, errors)
             | None \<Rightarrow> (visited + 1, errors @ [diag ''unknown_type'' p (''Unknown type: '' @ name)])))
      | Record fs \<Rightarrow> check_fields fs types p visiting (depth + 1) (visited + 1, errors)
      | List item \<Rightarrow>
          check_type item types (p @ ''[]'') visiting (depth + 1) (visited + 1, errors)
      | Media media_type \<Rightarrow>
          (if blank media_type
           then (visited + 1, errors @ [diag ''media_type'' p ''Media type must be specified''])
           else (visited + 1, errors))
      | _ \<Rightarrow> (visited + 1, errors)))"
| "check_fields [] types p visiting depth st = st"
| "check_fields ((name, field) # fs) types p visiting depth st =
     (let st' = check_type field types (p @ ''.'' @ name) visiting depth st
      in if 4096 < fst st' then st' else check_fields fs types p visiting depth st')"
  by pat_completeness auto
termination
  by (relation "measures
       [\<lambda>x. 66 - (case x of Inl (t, types, p, v, d, st) \<Rightarrow> d | Inr (fs, types, p, v, d, st) \<Rightarrow> d),
        \<lambda>x. (case x of Inl _ \<Rightarrow> 0 | Inr (fs, types, p, v, d, st) \<Rightarrow> Suc (length fs))]")
    auto

declare check_type.simps [simp del]

definition validate_type :: "data_type \<Rightarrow> type_registry \<Rightarrow> (diagnostic list, unit) result" where
  "validate_type t types =
     (let errors = snd (check_type t types ''$'' {} 0 (0, []))
      in if errors = [] then Inr () else Inl errors)"

subsection \<open>Compatibility\<close>

fun accepts :: "data_type \<Rightarrow> data_type \<Rightarrow> bool" where
  "accepts (Record source) (Record target) =
     (\<forall>(key, value) \<in> set target.
        (case map_of source key of None \<Rightarrow> False | Some s \<Rightarrow> accepts s value))"
| "accepts (List source) (List target) = accepts source target"
| "accepts source target = (source = target)"

definition compatible :: "data_type \<Rightarrow> data_type \<Rightarrow> type_registry \<Rightarrow> bool" where
  "compatible source target types =
     (if \<not> is_ok (validate_type source types) \<or> \<not> is_ok (validate_type target types) then False
      else accepts source target)"


subsection \<open>Checking values\<close>

text \<open>
  The source recurses through the registry at a named type, which ends only because the type
  was validated first. The model takes fuel and returns \<open>None\<close> when it runs out; 65 levels are
  enough for every validated type (\<open>check_value_total\<close> below). The errors of one call are
  returned as a list, in the order in which the source pushes them.
\<close>

definition missing_field :: "string \<Rightarrow> diagnostic" where
  "missing_field p = diag ''missing_field'' p ''Required field is absent''"

definition value_type_error :: "data_type \<Rightarrow> string \<Rightarrow> diagnostic" where
  "value_type_error t p = \<lparr>diag_code = ''value_type'', diag_path = p, diag_message = ValueMismatch t\<rparr>"

definition media_matches :: "string \<Rightarrow> json \<Rightarrow> bool" where
  "media_matches media_type v \<longleftrightarrow>
     is_object v
     \<and> (case jget v ''contentRef'' of None \<Rightarrow> False
        | Some r \<Rightarrow> (case as_str r of None \<Rightarrow> False | Some s \<Rightarrow> s \<noteq> []))
     \<and> (case jget v ''mediaType'' of None \<Rightarrow> None | Some m \<Rightarrow> as_str m) = Some media_type"

text \<open>\<open>matches\<close> together with the errors pushed while it is computed.\<close>

definition finish_value :: "data_type \<Rightarrow> string \<Rightarrow> bool \<times> diagnostic list \<Rightarrow> diagnostic list" where
  "finish_value t p r = snd r @ (if fst r then [] else [value_type_error t p])"

definition concat_options :: "'a list option list \<Rightarrow> 'a list option" where
  "concat_options xs = map_option concat (those xs)"

fun check_value :: "nat \<Rightarrow> data_type \<Rightarrow> json \<Rightarrow> type_registry \<Rightarrow> string \<Rightarrow> diagnostic list option" where
  "check_value 0 t v types p = None"
| "check_value (Suc fuel) t v types p =
     map_option (finish_value t p)
      (case t of
         Boolean \<Rightarrow> Some (is_boolean v, [])
       | Number \<Rightarrow> Some (is_number v, [])
       | Text \<Rightarrow> Some (is_string v, [])
       | Named name \<Rightarrow>
           (case map_of types name of
              Some resolved \<Rightarrow> map_option (Pair True) (check_value fuel resolved v types p)
            | None \<Rightarrow> Some (True, []))
       | Media media_type \<Rightarrow> Some (media_matches media_type v, [])
       | List item \<Rightarrow>
           (case as_array v of
              Some vs \<Rightarrow>
                map_option (Pair True)
                  (concat_options (map (\<lambda>(i, v').
                     check_value fuel item v' types (p @ ''['' @ string_of_nat i @ '']''))
                     (enumerate 0 vs)))
            | None \<Rightarrow> Some (False, []))
       | Record fs \<Rightarrow>
           (case as_object v of
              Some values \<Rightarrow>
                map_option (Pair True)
                  (concat_options (map (\<lambda>(name, ft).
                     (case map_of values name of
                        Some v' \<Rightarrow> check_value fuel ft v' types (p @ ''.'' @ name)
                      | None \<Rightarrow> Some [missing_field (p @ ''.'' @ name)])) fs))
            | None \<Rightarrow> Some (False, [])))"

text \<open>Running out of fuel would be reported as \<open>Inl []\<close>, which \<open>validate_value_iff\<close> excludes.\<close>

definition validate_value ::
  "data_type \<Rightarrow> json \<Rightarrow> type_registry \<Rightarrow> (diagnostic list, unit) result" where
  "validate_value t v types =
     (case validate_type t types of
        Inl es \<Rightarrow> Inl es
      | Inr _ \<Rightarrow>
          (case check_value 65 t v types ''$'' of
             None \<Rightarrow> Inl []
           | Some errors \<Rightarrow> if errors = [] then Inr () else Inl errors))"

subsection \<open>Specification: well-formed types and the typing of values\<close>

text \<open>
  \<open>type_ok k\<close> says that the expansion of a type is known, acyclic, nonblank and at most \<open>k\<close>
  levels deep; \<open>type_nodes k\<close> counts the nodes of that expansion.
\<close>

fun type_ok :: "nat \<Rightarrow> type_registry \<Rightarrow> string set \<Rightarrow> data_type \<Rightarrow> bool" where
  "type_ok 0 types vs t = False"
| "type_ok (Suc k) types vs (Named name) =
     (\<not> blank name \<and> name \<notin> vs
      \<and> (case map_of types name of None \<Rightarrow> False | Some v \<Rightarrow> type_ok k types (insert name vs) v))"
| "type_ok (Suc k) types vs (Record fs) = (\<forall>(n, t) \<in> set fs. type_ok k types vs t)"
| "type_ok (Suc k) types vs (List t) = type_ok k types vs t"
| "type_ok (Suc k) types vs (Media m) = (\<not> blank m)"
| "type_ok (Suc k) types vs t = True"

fun type_nodes :: "nat \<Rightarrow> type_registry \<Rightarrow> data_type \<Rightarrow> nat" where
  "type_nodes 0 types t = 1"
| "type_nodes (Suc k) types (Named name) =
     Suc (case map_of types name of None \<Rightarrow> 0 | Some v \<Rightarrow> type_nodes k types v)"
| "type_nodes (Suc k) types (Record fs) = Suc (\<Sum>(n, t) \<leftarrow> fs. type_nodes k types t)"
| "type_nodes (Suc k) types (List t) = Suc (type_nodes k types t)"
| "type_nodes (Suc k) types t = 1"

text \<open>Typing of JSON values, independent of paths, diagnostics and budgets.\<close>

inductive has_type :: "type_registry \<Rightarrow> json \<Rightarrow> data_type \<Rightarrow> bool" for types where
  type_boolean: "is_boolean v \<Longrightarrow> has_type types v Boolean"
| type_number: "is_number v \<Longrightarrow> has_type types v Number"
| type_text: "is_string v \<Longrightarrow> has_type types v Text"
| type_media: "media_matches m v \<Longrightarrow> has_type types v (Media m)"
| type_named: "map_of types n = Some t \<Longrightarrow> has_type types v t \<Longrightarrow> has_type types v (Named n)"
| type_list: "(\<And>v. v \<in> set vs \<Longrightarrow> has_type types v t) \<Longrightarrow> has_type types (JArray vs) (List t)"
| type_record: "(\<And>n t. (n, t) \<in> set fs \<Longrightarrow> \<exists>v. map_of values n = Some v \<and> has_type types v t) \<Longrightarrow>
    has_type types (JObject values) (Record fs)"

inductive_cases has_type_booleanE [elim!]: "has_type types v Boolean"
inductive_cases has_type_numberE [elim!]: "has_type types v Number"
inductive_cases has_type_textE [elim!]: "has_type types v Text"
inductive_cases has_type_mediaE [elim!]: "has_type types v (Media m)"
inductive_cases has_type_namedE [elim!]: "has_type types v (Named n)"
inductive_cases has_type_listE [elim!]: "has_type types v (List t)"
inductive_cases has_type_recordE [elim!]: "has_type types v (Record fs)"

subsection \<open>The budgets of type validation\<close>

lemma check_type_over: "4096 < n \<Longrightarrow> check_type t types p vs d (n, es) = (n, es)"
  by (simp add: check_type.simps)

lemma check_type_full:
  "check_type t types p vs d (4096, es) =
     (4097, es @ [diag ''type_complexity'' p ''Type expansion exceeds 4096 nodes''])"
  by (simp add: check_type.simps)

lemma check_type_deep:
  "n < 4096 \<Longrightarrow> 64 < d \<Longrightarrow> check_type t types p vs d (n, es) =
     (n + 1, es @ [diag ''type_depth'' p ''Type nesting exceeds 64 levels''])"
  by (simp add: check_type.simps)

lemma check_type_step:
  assumes "n < 4096" and "d \<le> 64"
  shows "check_type Boolean types p vs d (n, es) = (n + 1, es)"
    and "check_type Number types p vs d (n, es) = (n + 1, es)"
    and "check_type Text types p vs d (n, es) = (n + 1, es)"
    and "check_type (Media m) types p vs d (n, es) =
      (n + 1, if blank m then es @ [diag ''media_type'' p ''Media type must be specified''] else es)"
    and "check_type (List t) types p vs d (n, es) =
      check_type t types (p @ ''[]'') vs (d + 1) (n + 1, es)"
    and "check_type (Record fs) types p vs d (n, es) = check_fields fs types p vs (d + 1) (n + 1, es)"
    and "check_type (Named name) types p vs d (n, es) =
      (if blank name then (n + 1, es @ [diag ''type_name'' p ''Named type must have an identity''])
       else if name \<in> vs then (n + 1, es @ [diag ''type_cycle'' p (''Recursive type: '' @ name)])
       else (case map_of types name of
           Some value \<Rightarrow> check_type value types p (insert name vs) (d + 1) (n + 1, es)
         | None \<Rightarrow> (n + 1, es @ [diag ''unknown_type'' p (''Unknown type: '' @ name)])))"
  using assms by (simp_all add: check_type.simps [of _ types p vs d n es])

lemmas check_type_rules = check_type_over check_type_full check_type_deep check_type_step

text \<open>
  One induction serves both budgets: errors are only appended, the counter never passes 4097,
  and a call that appends nothing has expanded an acceptable type within the budget.
\<close>

definition exact_run :: "nat \<Rightarrow> bool \<Rightarrow> nat \<Rightarrow> diagnostic list \<Rightarrow> nat \<times> diagnostic list \<Rightarrow> bool" where
  "exact_run n ok nodes errors r \<longleftrightarrow>
     n \<le> fst r \<and> fst r \<le> 4097 \<and> (\<exists>es. snd r = errors @ es)
     \<and> (n \<le> 4096 \<longrightarrow>
          (if ok \<and> n + nodes \<le> 4096 then r = (n + nodes, errors)
           else length errors < length (snd r)))"

lemma exact_run_break:
  "exact_run n ok nodes errors r \<Longrightarrow> 4096 < fst r \<Longrightarrow>
     exact_run n (ok \<and> ok') (nodes + nodes') errors r"
  by (cases r) (auto simp: exact_run_def split: if_splits)

lemma exact_run_seq:
  assumes "exact_run n ok nodes errors (n', errors')" and "n' \<le> 4096"
    and "exact_run n' ok' nodes' errors' r"
  shows "exact_run n (ok \<and> ok') (nodes + nodes') errors r"
proof -
  obtain es es' where es: "errors' = errors @ es" "snd r = errors' @ es'"
    using assms by (auto simp: exact_run_def)
  have "n \<le> 4096" using assms by (simp add: exact_run_def)
  with assms es show ?thesis
    by (cases "ok \<and> n + nodes \<le> 4096"; cases "ok' \<and> n' + nodes' \<le> 4096")
      (auto simp: exact_run_def)
qed

lemma check_type_exact:
  "n \<le> 4097 \<Longrightarrow> d \<le> 65 \<Longrightarrow>
     exact_run n (type_ok (65 - d) types vs t) (type_nodes (65 - d) types t) errors
       (check_type t types p vs d (n, errors))"
  "n \<le> 4097 \<Longrightarrow> d \<le> 65 \<Longrightarrow> st = (n, errors) \<Longrightarrow>
     exact_run n (\<forall>(k, t) \<in> set fs. type_ok (65 - d) types vs t)
       (\<Sum>(k, t) \<leftarrow> fs. type_nodes (65 - d) types t) errors
       (check_fields fs types p vs d st)"
proof (induction t types p vs d "(n, errors)" and fs types p vs d st
    arbitrary: n errors and n errors rule: check_type_check_fields.induct)
  case (1 t types p vs d n errors)
  consider "4096 < n" | "n = 4096" | "n < 4096" "d = 65" | "n < 4096" "d \<le> 64"
    using "1.prems" by linarith
  then show ?case
  proof cases
    case 1
    then show ?thesis using "1.prems" by (simp add: exact_run_def check_type_over)
  next
    case 2
    have "0 < type_nodes (65 - d) types t"
      by (cases "65 - d"; cases t) simp_all
    with 2 show ?thesis by (simp add: exact_run_def check_type_full)
  next
    case 3
    then show ?thesis by (simp add: exact_run_def check_type_deep)
  next
    case 4
    then obtain k where k: "65 - d = Suc k" "65 - Suc d = k"
      by (metis Suc_diff_Suc eval_nat_numeral(3) le_imp_less_Suc)
    note step = check_type_step [OF 4]
    show ?thesis
    proof (cases t)
      case (Record fs)
      then show ?thesis using 4 k "1.hyps"(2) [OF _ _ Record, of "n + 1" errors]
        by (auto simp: step exact_run_def)
    next
      case (List t')
      then show ?thesis using 4 k "1.hyps"(1) [OF _ _ List]
        by (auto simp: step exact_run_def)
    next
      case (Named name)
      then show ?thesis using 4 k "1.hyps"(3) [OF _ _ Named]
        by (auto simp: step exact_run_def split: option.split)
    qed (use 4 k in \<open>auto simp: step exact_run_def\<close>)
  qed
next
  case (2 types p vs d st)
  then show ?case by (auto simp: exact_run_def)
next
  case (3 name field fs types p vs d st)
  let ?ok = "\<lambda>t. type_ok (65 - d) types vs t" and ?nodes = "\<lambda>t. type_nodes (65 - d) types t"
  obtain n' errors' where r: "check_type field types (p @ ''.'' @ name) vs d (n, errors) = (n', errors')"
    by fastforce
  have first: "exact_run n (?ok field) (?nodes field) errors (n', errors')"
    using 3 r by simp
  have "exact_run n (?ok field \<and> (\<forall>(k, t) \<in> set fs. ?ok t))
      (?nodes field + (\<Sum>(k, t) \<leftarrow> fs. ?nodes t)) errors
      (check_fields ((name, field) # fs) types p vs d (n, errors))"
  proof (cases "4096 < n'")
    case True
    then show ?thesis using exact_run_break [OF first] r by simp
  next
    case False
    then show ?thesis using exact_run_seq [OF first] "3.hyps"(2) [of "(n', errors')" n' errors'] r 3
      by simp
  qed
  with 3 show ?case by simp
qed


text \<open>
  C1. Validation is exact: a type is accepted if and only if its expansion through the registry
  is known, acyclic, nonblank, at most 65 levels deep (depths 0 to 64) and has at most 4096
  nodes.
\<close>

theorem validate_type_exact:
  "validate_type t types = Inr () \<longleftrightarrow> type_ok 65 types {} t \<and> type_nodes 65 types t \<le> 4096"
  using check_type_exact(1) [of 0 0 types "{}" t "[]" "''$''"]
  by (auto simp: validate_type_def exact_run_def split: if_splits)

lemma validate_type_ok: "validate_type t types = Inr () \<Longrightarrow> type_ok 65 types {} t"
  using check_type_exact(1) [of 0 0 types "{}" t "[]" "''$''"]
  by (auto simp: validate_type_def exact_run_def split: if_splits)

subsection \<open>Values of validated types\<close>

lemma concat_options_Nil [simp]:
  "concat_options (map f xs) = Some [] \<longleftrightarrow> (\<forall>x \<in> set xs. f x = Some [])"
  unfolding concat_options_def by (induction xs) (auto split: option.splits)

lemma concat_options_None:
  "concat_options (map f xs) = None \<longleftrightarrow> (\<exists>x \<in> set xs. f x = None)"
  unfolding concat_options_def by (induction xs) (auto split: option.splits)

lemma ball_enumerate: "(\<forall>(i, x) \<in> set (enumerate n xs). P x) \<longleftrightarrow> (\<forall>x \<in> set xs. P x)"
  by (induction xs arbitrary: n) auto

lemma finish_value_Nil [simp]: "finish_value t p r = [] \<longleftrightarrow> fst r \<and> snd r = []"
  by (auto simp: finish_value_def)

lemma check_value_total: "type_ok k types vs t \<Longrightarrow> check_value k t v types p \<noteq> None"
proof (induction k arbitrary: vs t v p)
  case (Suc k)
  show ?case
  proof (cases t)
    case (Named n)
    with Suc show ?thesis by (auto split: option.splits)
  next
    case (List t')
    with Suc.prems have "\<And>v p. check_value k t' v types p \<noteq> None" by (auto dest: Suc.IH)
    with List show ?thesis by (cases v) (auto simp: concat_options_None)
  next
    case (Record fs)
    have "check_value k t' v types p \<noteq> None" if "(n, t') \<in> set fs" for n t' v p
      using Suc.prems Record that Suc.IH by fastforce
    then have "(case map_of m n of Some v' \<Rightarrow> check_value k t' v' types (p @ ''.'' @ n)
        | None \<Rightarrow> Some [missing_field (p @ ''.'' @ n)]) \<noteq> None" if "(n, t') \<in> set fs" for m n t'
      using that by (cases "map_of m n") auto
    with Record show ?thesis by (cases v) (auto simp: concat_options_None)
  qed auto
qed simp

lemma check_value_has_type:
  "type_ok k types vs t \<Longrightarrow> check_value k t v types p = Some [] \<longleftrightarrow> has_type types v t"
proof (induction k arbitrary: vs t v p)
  case (Suc k)
  show ?case
  proof (cases t)
    case (Named n)
    with Suc show ?thesis by (auto split: option.splits intro: has_type.intros)
  next
    case (List t')
    with Suc.prems have ok: "type_ok k types vs t'" by simp
    show ?thesis
    proof (cases v)
      case (JArray xs)
      then show ?thesis
        using List Suc.IH [OF ok] ball_enumerate [of 0 xs "\<lambda>v. has_type types v t'"]
        by (auto intro: has_type.intros)
    qed (use List in auto)
  next
    case (Record fs)
    with Suc.prems have ok: "\<And>n t'. (n, t') \<in> set fs \<Longrightarrow> type_ok k types vs t'" by auto
    show ?thesis
    proof (cases v)
      case (JObject m)
      have "(\<forall>(n, t') \<in> set fs. (case map_of m n of
                Some v' \<Rightarrow> check_value k t' v' types (p @ ''.'' @ n)
              | None \<Rightarrow> Some [missing_field (p @ ''.'' @ n)]) = Some [])
          \<longleftrightarrow> (\<forall>(n, t') \<in> set fs. \<exists>v'. map_of m n = Some v' \<and> has_type types v' t')"
        using Suc.IH ok by (fastforce split: option.splits)
      moreover have "has_type types (JObject m) (Record fs)
          \<longleftrightarrow> (\<forall>(n, t') \<in> set fs. \<exists>v'. map_of m n = Some v' \<and> has_type types v' t')"
        by (auto intro!: has_type.type_record)
      ultimately show ?thesis using JObject Record by (auto simp: case_prod_unfold)
    qed (use Record in auto)
  qed (auto intro: has_type.intros)
qed simp

text \<open>
  C2. Checking a value terminates within the fuel of the model for every type and registry (the
  out-of-fuel answer never occurs, so every failure carries a diagnostic), and a value is accepted
  exactly when its type is valid and the value inhabits it, in the inductively defined typing
  relation: named types by their registry entry, lists elementwise, records by their required
  fields with any additional field allowed.
\<close>

theorem validate_value_iff:
  "validate_value t v types \<noteq> Inl []
   \<and> (validate_value t v types = Inr () \<longleftrightarrow> validate_type t types = Inr () \<and> has_type types v t)"
proof (cases "validate_type t types")
  case (Inl es)
  then have "es \<noteq> []" by (auto simp: validate_type_def Let_def split: if_splits)
  with Inl show ?thesis by (simp add: validate_value_def)
next
  case (Inr u)
  then have ok: "type_ok 65 types {} t" using validate_type_ok by simp
  show ?thesis
    using Inr check_value_total [OF ok, of v "''$''"] check_value_has_type [OF ok, of v "''$''"]
    by (auto simp: validate_value_def split: option.splits)
qed

lemma validate_value_okD:
  assumes "validate_value t v types = Inr ()"
  shows "validate_type t types = Inr ()" and "has_type types v t"
proof -
  have "validate_type t types = Inr ()"
    using assms by (auto simp: validate_value_def split: sum.splits)
  moreover have "check_value 65 t v types ''$'' = Some []"
    using assms by (auto simp: validate_value_def split: sum.splits option.splits if_splits)
  ultimately show "validate_type t types = Inr ()" and "has_type types v t"
    using check_value_has_type validate_type_ok by blast+
qed

lemma validate_value_okI:
  assumes "validate_type t types = Inr ()" and "has_type types v t"
  shows "validate_value t v types = Inr ()"
  using assms check_value_has_type [OF validate_type_ok [OF assms(1)], of v "''$''"]
  by (simp add: validate_value_def)

subsection \<open>Compatibility is a sound preorder\<close>

lemma accepts_sound: "accepts s t \<Longrightarrow> has_type types v s \<Longrightarrow> has_type types v t"
proof (induction s t arbitrary: v rule: accepts.induct)
  case (1 source target)
  from "1.prems"(2) obtain m where v: "v = JObject m"
    and src: "\<And>n t. (n, t) \<in> set source \<Longrightarrow> \<exists>v'. map_of m n = Some v' \<and> has_type types v' t"
    by auto
  have "\<exists>v'. map_of m n = Some v' \<and> has_type types v' t" if "(n, t) \<in> set target" for n t
  proof -
    from "1.prems"(1) that obtain s where s: "map_of source n = Some s" "accepts s t"
      by (fastforce split: option.splits)
    with src obtain v' where "map_of m n = Some v'" "has_type types v' s"
      by (meson map_of_SomeD)
    with "1.IH" [OF that refl] s show ?thesis by blast
  qed
  then show ?case unfolding v by (rule has_type.type_record)
qed (auto intro: has_type.intros)

lemma accepts_trans: "accepts a b \<Longrightarrow> accepts b c \<Longrightarrow> accepts a c"
proof (induction b c arbitrary: a rule: accepts.induct)
  case (1 source target)
  show ?case
  proof (cases a)
    case (Record fs)
    have "case map_of fs k of None \<Rightarrow> False | Some s \<Rightarrow> accepts s t" if "(k, t) \<in> set target" for k t
    proof -
      from "1.prems"(2) that obtain s where s: "map_of source k = Some s" "accepts s t"
        by (fastforce split: option.splits)
      from "1.prems"(1) s(1) Record obtain r where "map_of fs k = Some r" "accepts r s"
        by (fastforce dest: map_of_SomeD split: option.splits)
      with "1.IH" [OF that refl s(1)] s show ?thesis by simp
    qed
    with Record show ?thesis by auto
  qed (use "1.prems" in auto)
next
  case (2 source target)
  then show ?case by (cases a) auto
qed auto

text \<open>Every record of a type is a \<open>BTreeMap\<close>.\<close>

fun ordered_type :: "data_type \<Rightarrow> bool" where
  "ordered_type (Record fs) = (bt_ok fs \<and> (\<forall>(n, t) \<in> set fs. ordered_type t))"
| "ordered_type (List t) = ordered_type t"
| "ordered_type t = True"

lemma accepts_refl: "ordered_type t \<Longrightarrow> accepts t t"
proof (induction t)
  case (Record fs)
  have "accepts t t" if "(k, t) \<in> set fs" for k t
    using Record.IH [OF that, of t] Record.prems that by (auto simp: snds.simps)
  then show ?case
    using Record.prems by (auto simp: bt_ok_in_iff split: option.splits)
qed auto

text \<open>
  C3. Compatibility of contracts is sound for data: every value accepted by the source type is
  accepted by any target type compatible with it, with no coercion.
\<close>

theorem compatible_subsumption:
  assumes "compatible source target types" and "validate_value source v types = Inr ()"
  shows "validate_value target v types = Inr ()"
proof -
  from assms(1) have "validate_type target types = Inr ()" and "accepts source target"
    by (auto simp: compatible_def is_ok_iff split: if_splits)
  with validate_value_okD [OF assms(2)] show ?thesis
    by (blast intro: validate_value_okI accepts_sound)
qed

theorem compatible_subsumption_witness:
  "validate_value (Record [(''a'', Text)]) (JObject [(''a'', JString ''x''), (''b'', JBool True)]) []
     = Inr ()"
proof (rule compatible_subsumption [of "Record [(''a'', Text), (''b'', Boolean)]"])
  show "compatible (Record [(''a'', Text), (''b'', Boolean)]) (Record [(''a'', Text)]) []"
    by (simp add: compatible_def validate_type_def check_type_rules)
  show "validate_value (Record [(''a'', Text), (''b'', Boolean)])
      (JObject [(''a'', JString ''x''), (''b'', JBool True)]) [] = Inr ()"
    by (intro validate_value_okI)
      (auto simp: validate_type_def check_type_rules intro!: has_type.intros)
qed

lemma compatible_refl:
  "validate_type t types = Inr () \<Longrightarrow> ordered_type t \<Longrightarrow> compatible t t types"
  by (simp add: compatible_def accepts_refl)

lemma compatible_trans:
  "compatible a b types \<Longrightarrow> compatible b c types \<Longrightarrow> compatible a c types"
  by (auto simp: compatible_def intro: accepts_trans split: if_splits)

end
