(* ===== verification/Zf_Window.thy ===== *)
theory Zf_Window
  imports Zf_Types "HOL-Library.Multiset"
begin

text \<open>
  Prepared context windows, \<open>zf-context/src/window.rs\<close>: capture, validation and atomic edits of
  an immutable tree of groups and fragments.

  The JSON writer of serde is a parameter: \<open>to_writer w\<close> is the sequence of byte chunks it sends
  to the byte counter of \<open>validate\<close>; \<open>from_value\<close> and \<open>to_value\<close> are its derived decoders and
  encoders. A mutable reference into the tree is modelled by \<open>find_mut\<close> as the item found
  together with the function that writes another item at its place.

  Shown here: validation decides a declarative well-formedness of windows; a patch list is
  applied completely or not at all, keeps well-formedness and everything but the items; the
  effect of each patch on the identifiers of the window; a move never targets its own subtree.
\<close>

subsection \<open>Data\<close>

datatype fragment_role = Instruction | Data

datatype fragment_format = TextFormat | JsonFormat | MediaFormat | AdkMessages

record context_capability =
  cap_id :: string
  cap_input :: data_type
  cap_output :: data_type

datatype window_item =
    Group string string "window_item list"
  | Fragment string fragment_role fragment_format json "string list"

record prepared_window =
  strategy_id :: string
  strategy_revision :: string
  program_revision :: "string option"
  win_items :: "window_item list"
  source_revisions :: "(string, string) btree"
  win_capabilities :: "context_capability list"

datatype window_patch =
    PatchRemove string
  | PatchReplace string window_item
  | PatchMove string "string option" nat
  | PatchRepresentation string fragment_format json

record window_grant =
  grant_alias :: string
  grant_permission :: permission

type_synonym window_error = "diagnostic list"

text \<open>What \<open>capture\<close> reads of a strategy and of an evaluation; \<open>'i\<close> is the evaluated items.\<close>

record 'i context_evaluation =
  eval_complete :: bool
  eval_items :: 'i
  eval_capabilities :: "context_capability list"
  eval_needs :: "string list"
  eval_diagnostics :: "diagnostic list"
  eval_reads :: "string list"

fun item_id :: "window_item \<Rightarrow> string" where
  "item_id (Group i _ _) = i"
| "item_id (Fragment i _ _ _ _) = i"

definition invalid :: "string \<Rightarrow> string \<Rightarrow> string \<Rightarrow> window_error" where
  "invalid c p m = [diag c p m]"

subsection \<open>Grants and scopes\<close>

fun grant_aliases_ok :: "window_grant list \<Rightarrow> string set \<Rightarrow> bool" where
  "grant_aliases_ok [] names = True"
| "grant_aliases_ok (g # gs) names =
     (\<not> blank (grant_alias g) \<and> grant_alias g \<notin> names
      \<and> grant_aliases_ok gs (insert (grant_alias g) names))"

text \<open>
  \<open>from_value\<close> decodes the array of grants (an absent key reads as \<open>[]\<close>); \<open>None\<close> is its error.
\<close>

definition grants :: "(json \<Rightarrow> window_grant list option) \<Rightarrow> json \<Rightarrow> window_grant list option" where
  "grants from_value config =
     (case from_value (case jget config ''windowGrants'' of None \<Rightarrow> JArray [] | Some v \<Rightarrow> v) of
        None \<Rightarrow> None
      | Some gs \<Rightarrow> if grant_aliases_ok gs {} then Some gs else None)"

definition is_tool :: "string \<Rightarrow> bool" where
  "is_tool name \<longleftrightarrow> name = ''context_window_read'' \<or> name = ''context_window_patch''"

definition capability :: "string \<Rightarrow> context_capability option" where
  "capability name =
     (if \<not> is_tool name then None
      else
        let input0 = [(''alias'', Text)];
            input = (if name = ''context_window_patch''
                     then bt_insert ''patches'' (List (Record []))
                            (bt_insert ''expectedRevision'' Text input0)
                     else input0);
            output = fold (\<lambda>(k, t). bt_insert k t)
              [(''entityId'', Text), (''revision'', Text), (''contentRef'', Text), (''window'', Record [])] []
        in Some \<lparr>cap_id = name, cap_input = Record input, cap_output = Record output\<rparr>)"

definition agent_scope :: "string \<Rightarrow> scope" where
  "agent_scope p =
     FlowScope (case rsplit_once (CHR ''/'') p of None \<Rightarrow> ''root'' | Some (instance, _) \<Rightarrow> instance)"

subsection \<open>Validation\<close>

text \<open>The representation and the sources of one fragment, in the order the source checks them.\<close>

definition nonempty_str :: "json option \<Rightarrow> bool" where
  "nonempty_str v = (case v of None \<Rightarrow> False
     | Some x \<Rightarrow> (case as_str x of None \<Rightarrow> False | Some s \<Rightarrow> s \<noteq> []))"

definition correct_format :: "fragment_format \<Rightarrow> json \<Rightarrow> bool" where
  "correct_format format v =
     (case format of
        TextFormat \<Rightarrow> is_string v
      | JsonFormat \<Rightarrow> True
      | AdkMessages \<Rightarrow> (case as_array v of None \<Rightarrow> False | Some xs \<Rightarrow> list_all is_object xs)
      | MediaFormat \<Rightarrow> nonempty_str (jget v ''contentRef'') \<and> nonempty_str (jget v ''mediaType''))"

definition validate_fragment ::
  "string \<Rightarrow> fragment_role \<Rightarrow> fragment_format \<Rightarrow> json \<Rightarrow> string list \<Rightarrow> (string, string) btree \<Rightarrow>
   (window_error, unit) result" where
  "validate_fragment i role format v reads sources =
     (if role = Instruction \<and> format \<noteq> TextFormat
      then Inl (invalid ''window_format'' i ''Instructions require a text representation'')
      else if \<not> correct_format format v
      then Inl (invalid ''window_format'' i ''Value does not match its explicit representation'')
      else if \<exists>name \<in> set reads. map_of sources name = None
      then Inl (invalid ''window_source_revision'' i ''Fragment source has no captured revision'')
      else Inr ())"

text \<open>
  The nested function \<open>items\<close> of \<open>validate\<close>: the depth is checked once per list, the identifiers
  seen so far are threaded through the whole traversal (newest first here).
\<close>

fun validate_items :: "window_item list \<Rightarrow> nat \<Rightarrow> string list \<Rightarrow> (string, string) btree \<Rightarrow>
    (window_error, string list) result"
  and validate_list :: "window_item list \<Rightarrow> nat \<Rightarrow> string list \<Rightarrow> (string, string) btree \<Rightarrow>
    (window_error, string list) result"
where
  "validate_items values depth ids sources =
     (if 64 < depth
      then Inl (invalid ''window_limit'' ''items'' ''Window nesting exceeds 64 levels'')
      else validate_list values depth ids sources)"
| "validate_list [] depth ids sources = Inr ids"
| "validate_list (item # rest) depth ids sources =
     (if 4096 \<le> length ids
      then Inl (invalid ''window_limit'' ''items'' ''Window exceeds its item limit'')
      else if blank (item_id item) \<or> item_id item \<in> set ids
      then Inl (invalid ''window_id'' (item_id item)
             ''Window item identifiers must be nonempty and unique'')
      else (case item of
          Group i label children \<Rightarrow>
            (if blank label
             then Inl (invalid ''window_group'' i ''Group label cannot be empty'')
             else (case validate_items children (depth + 1) (i # ids) sources of
                 Inl e \<Rightarrow> Inl e
               | Inr ids' \<Rightarrow> validate_list rest depth ids' sources))
        | Fragment i role format v reads \<Rightarrow>
            (case validate_fragment i role format v reads sources of
                 Inl e \<Rightarrow> Inl e
               | Inr _ \<Rightarrow> validate_list rest depth (i # ids) sources)))"

definition max_bytes :: nat where
  "max_bytes = 16 * 1024 * 1024"

text \<open>The writer \<open>Counter\<close>: a chunk that does not fit in the remaining budget is an error.\<close>

fun count_chunks :: "nat \<Rightarrow> string list \<Rightarrow> nat option" where
  "count_chunks n [] = Some n"
| "count_chunks n (bytes # chunks) =
     (if max_bytes - n < length bytes then None else count_chunks (n + length bytes) chunks)"

definition validate_window ::
  "(prepared_window \<Rightarrow> string list) \<Rightarrow> prepared_window \<Rightarrow> (window_error, unit) result" where
  "validate_window to_writer w =
     (if blank (strategy_id w) \<or> blank (strategy_revision w)
      then Inl (invalid ''window_strategy'' ''window''
             ''Window must identify its captured strategy revision'')
      else if \<exists>(k, v) \<in> set (source_revisions w). blank v
      then Inl (invalid ''window_source_revision'' ''sourceRevisions''
             ''Source revision identities cannot be empty'')
      else (case validate_items (win_items w) 0 [] (source_revisions w) of
          Inl e \<Rightarrow> Inl e
        | Inr _ \<Rightarrow>
            (case count_chunks 0 (to_writer w) of
               None \<Rightarrow> Inl (invalid ''window_limit'' ''window'' ''Window exceeds 16 MiB'')
             | Some _ \<Rightarrow> Inr ())))"

definition decode_window ::
  "(prepared_window \<Rightarrow> string list) \<Rightarrow> (json \<Rightarrow> prepared_window option) \<Rightarrow> json \<Rightarrow>
   (window_error, prepared_window) result" where
  "decode_window to_writer from_value v =
     (case from_value v of
        None \<Rightarrow> Inl (invalid ''window_value'' ''window'' ''Entity does not contain a prepared window'')
      | Some w \<Rightarrow> (case validate_window to_writer w of Inl e \<Rightarrow> Inl e | Inr _ \<Rightarrow> Inr w))"

definition capture ::
  "(prepared_window \<Rightarrow> string list) \<Rightarrow> ('i \<Rightarrow> json option) \<Rightarrow> (json \<Rightarrow> window_item list option) \<Rightarrow>
   string \<Rightarrow> string \<Rightarrow> 'i context_evaluation \<Rightarrow> (string, string) btree \<Rightarrow>
   (window_error, prepared_window) result" where
  "capture to_writer to_value from_value sid revision evaluation sources =
     (if \<not> eval_complete evaluation \<or> eval_diagnostics evaluation \<noteq> [] \<or> eval_needs evaluation \<noteq> []
      then Inl (invalid ''window_incomplete'' ''window''
             ''Only a complete evaluation can become a prepared window'')
      else (case find (\<lambda>name. map_of sources name = None) (eval_reads evaluation) of
          Some name \<Rightarrow> Inl (invalid ''window_source_revision'' name
            ''Every consulted source, including an absent source, needs a captured revision or explicit absence marker'')
        | None \<Rightarrow>
            (case to_value (eval_items evaluation) of
               None \<Rightarrow> Inl (invalid ''window_value'' ''items'' ''Window values cannot be serialized'')
             | Some v \<Rightarrow>
                 (case from_value v of
                    None \<Rightarrow> Inl (invalid ''window_value'' ''items'' ''Prepared items are malformed'')
                  | Some items \<Rightarrow>
                      (let w = \<lparr>strategy_id = sid, strategy_revision = revision,
                                program_revision = None, win_items = items,
                                source_revisions = sources,
                                win_capabilities = eval_capabilities evaluation\<rparr>
                       in (case validate_window to_writer w of Inl e \<Rightarrow> Inl e | Inr _ \<Rightarrow> Inr w))))))"

subsection \<open>Edits\<close>

fun find_mut :: "window_item list \<Rightarrow> string \<Rightarrow> (window_item \<times> (window_item \<Rightarrow> window_item list)) option" where
  "find_mut [] i = None"
| "find_mut (item # rest) i =
     (if item_id item = i then Some (item, \<lambda>x. x # rest)
      else (case (case item of
                    Group g label children \<Rightarrow>
                      (case find_mut children i of
                         None \<Rightarrow> None
                       | Some (x, put) \<Rightarrow> Some (x, \<lambda>y. Group g label (put y) # rest))
                  | Fragment _ _ _ _ _ \<Rightarrow> None) of
          Some r \<Rightarrow> Some r
        | None \<Rightarrow> (case find_mut rest i of
                     None \<Rightarrow> None
                   | Some (x, put) \<Rightarrow> Some (x, \<lambda>y. item # put y))))"

text \<open>\<open>items.remove(items.iter().position(|item| item.id() == id)?)\<close>\<close>

fun take_out :: "window_item list \<Rightarrow> string \<Rightarrow> (window_item \<times> window_item list) option" where
  "take_out [] i = None"
| "take_out (item # rest) i =
     (if item_id item = i then Some (item, rest)
      else map_option (\<lambda>(x, xs). (x, item # xs)) (take_out rest i))"

function (sequential)
  remove :: "window_item list \<Rightarrow> string \<Rightarrow> (window_item \<times> window_item list) option" and
  remove_below :: "window_item list \<Rightarrow> string \<Rightarrow> (window_item \<times> window_item list) option"
where
  "remove items i =
     (case take_out items i of Some r \<Rightarrow> Some r | None \<Rightarrow> remove_below items i)"
| "remove_below [] i = None"
| "remove_below (Group g label children # rest) i =
     (case remove children i of
        Some (x, children') \<Rightarrow> Some (x, Group g label children' # rest)
      | None \<Rightarrow> map_option (\<lambda>(x, xs). (x, Group g label children # xs)) (remove_below rest i))"
| "remove_below (Fragment f r m v s # rest) i =
     map_option (\<lambda>(x, xs). (x, Fragment f r m v s # xs)) (remove_below rest i)"
  by pat_completeness auto
termination
  by (relation "measure (\<lambda>x. case x of Inl (is, i) \<Rightarrow> 2 * size_list size is + 1
        | Inr (is, i) \<Rightarrow> 2 * size_list size is)") auto

definition insert_at :: "nat \<Rightarrow> 'a \<Rightarrow> 'a list \<Rightarrow> 'a list" where
  "insert_at n x xs = take n xs @ x # drop n xs"

definition patch_path :: "nat \<Rightarrow> string" where
  "patch_path index = ''patches['' @ string_of_nat index @ '']''"

definition unknown_item :: "string \<Rightarrow> window_error" where
  "unknown_item p = invalid ''window_item'' p ''Unknown window item''"

text \<open>One iteration of the loop of \<open>apply_patches\<close> before its \<open>validate\<close>: the new items.\<close>

fun patch_items :: "string \<Rightarrow> window_item list \<Rightarrow> window_patch \<Rightarrow> (window_error, window_item list) result" where
  "patch_items p items (PatchRemove i) =
     (case remove items i of None \<Rightarrow> Inl (unknown_item p) | Some (_, items') \<Rightarrow> Inr items')"
| "patch_items p items (PatchReplace i item) =
     (if item_id item \<noteq> i
      then Inl (invalid ''window_id'' p ''Replacement must preserve item identity'')
      else (case find_mut items i of
          None \<Rightarrow> Inl (unknown_item p)
        | Some (_, put) \<Rightarrow> Inr (put item)))"
| "patch_items p items (PatchRepresentation i format v) =
     (case find_mut items i of
        None \<Rightarrow> Inl (unknown_item p)
      | Some (Fragment f role _ _ sources, put) \<Rightarrow> Inr (put (Fragment f role format v sources))
      | Some (Group _ _ _, _) \<Rightarrow>
          Inl (invalid ''window_representation'' p ''Only fragments have a representation''))"
| "patch_items p items (PatchMove i parent index) =
     (case remove items i of
        None \<Rightarrow> Inl (unknown_item p)
      | Some (item, items') \<Rightarrow>
          (case parent of
             None \<Rightarrow>
               (if length items' < index
                then Inl (invalid ''window_index'' p ''Destination index is outside the group'')
                else Inr (insert_at index item items'))
           | Some g \<Rightarrow>
               (case find_mut items' g of
                  Some (Group g' label children, put) \<Rightarrow>
                    (if length children < index
                     then Inl (invalid ''window_index'' p ''Destination index is outside the group'')
                     else Inr (put (Group g' label (insert_at index item children))))
                | _ \<Rightarrow> Inl (invalid ''window_parent'' p
                         ''Destination must be an existing group outside the moved subtree''))))"

fun apply_patches_from ::
  "(prepared_window \<Rightarrow> string list) \<Rightarrow> nat \<Rightarrow> prepared_window \<Rightarrow> window_patch list \<Rightarrow>
   (window_error, prepared_window) result" where
  "apply_patches_from to_writer index w [] = Inr w"
| "apply_patches_from to_writer index w (patch # patches) =
     (case patch_items (patch_path index) (win_items w) patch of
        Inl e \<Rightarrow> Inl e
      | Inr items \<Rightarrow>
          (let w' = w\<lparr>win_items := items\<rparr>
           in (case validate_window to_writer w' of
                 Inl e \<Rightarrow> Inl e
               | Inr _ \<Rightarrow> apply_patches_from to_writer (Suc index) w' patches)))"

definition apply_patches ::
  "(prepared_window \<Rightarrow> string list) \<Rightarrow> prepared_window \<Rightarrow> window_patch list \<Rightarrow>
   (window_error, prepared_window) result" where
  "apply_patches to_writer w patches =
     (if patches = [] \<or> 4096 < length patches
      then Inl (invalid ''window_patch'' ''patches''
             (''Submit 1'' @ [CHR 0xE2, CHR 0x80, CHR 0x93] @ ''4096 explicit window edits''))
      else apply_patches_from to_writer 0 w patches)"

definition patched ::
  "(prepared_window \<Rightarrow> string list) \<Rightarrow> prepared_window \<Rightarrow> window_patch list \<Rightarrow>
   (window_error, prepared_window) result" where
  "patched to_writer w patches =
     (case validate_window to_writer w of
        Inl e \<Rightarrow> Inl e
      | Inr _ \<Rightarrow> apply_patches to_writer w patches)"


subsection \<open>Specification of windows\<close>

text \<open>Identifiers in document order, nesting depth and local well-formedness of items.\<close>

fun item_ids :: "window_item \<Rightarrow> string list" where
  "item_ids (Group i _ children) = i # concat (map item_ids children)"
| "item_ids (Fragment i _ _ _ _) = [i]"

definition items_ids :: "window_item list \<Rightarrow> string list" where
  "items_ids items = concat (map item_ids items)"

fun nested_within :: "nat \<Rightarrow> window_item \<Rightarrow> bool" where
  "nested_within n (Fragment _ _ _ _ _) = True"
| "nested_within n (Group _ _ children) =
     (case n of 0 \<Rightarrow> False | Suc m \<Rightarrow> (\<forall>c \<in> set children. nested_within m c))"

fun item_ok :: "(string, string) btree \<Rightarrow> window_item \<Rightarrow> bool" where
  "item_ok sources (Fragment i role format v reads) =
     ((role = Instruction \<longrightarrow> format = TextFormat) \<and> correct_format format v
      \<and> (\<forall>name \<in> set reads. map_of sources name \<noteq> None))"
| "item_ok sources (Group _ label children) =
     (\<not> blank label \<and> (\<forall>c \<in> set children. item_ok sources c))"

definition wf_items :: "(string, string) btree \<Rightarrow> window_item list \<Rightarrow> bool" where
  "wf_items sources items \<longleftrightarrow>
     (\<forall>c \<in> set items. nested_within 64 c \<and> item_ok sources c)
     \<and> distinct (items_ids items) \<and> (\<forall>i \<in> set (items_ids items). \<not> blank i)
     \<and> length (items_ids items) \<le> 4096"

definition wf_window :: "(prepared_window \<Rightarrow> string list) \<Rightarrow> prepared_window \<Rightarrow> bool" where
  "wf_window to_writer w \<longleftrightarrow>
     \<not> blank (strategy_id w) \<and> \<not> blank (strategy_revision w)
     \<and> (\<forall>(k, v) \<in> set (source_revisions w). \<not> blank v)
     \<and> wf_items (source_revisions w) (win_items w)
     \<and> length (concat (to_writer w)) \<le> 16 * 1024 * 1024"

lemma items_ids_simps [simp]:
  "items_ids [] = []" "items_ids (x # xs) = item_ids x @ items_ids xs"
  "items_ids (xs @ ys) = items_ids xs @ items_ids ys"
  by (simp_all add: items_ids_def)

lemma item_ids_Group [simp]: "item_ids (Group i l children) = i # items_ids children"
  by (simp add: items_ids_def)

declare item_ids.simps(1) [simp del]


subsection \<open>Validation decides well-formedness\<close>

lemma validate_fragment_iff:
  "validate_fragment i role format v reads sources = Inr () \<longleftrightarrow>
     item_ok sources (Fragment i role format v reads)"
  by (auto simp: validate_fragment_def)

definition items_fit :: "window_item list \<Rightarrow> nat \<Rightarrow> string list \<Rightarrow> (string, string) btree \<Rightarrow> bool" where
  "items_fit items depth ids sources \<longleftrightarrow>
     (\<forall>c \<in> set items. nested_within (64 - depth) c \<and> item_ok sources c)
     \<and> distinct (items_ids items) \<and> set (items_ids items) \<inter> set ids = {}
     \<and> (\<forall>i \<in> set (items_ids items). \<not> blank i)
     \<and> length ids + length (items_ids items) \<le> 4096"

lemma items_fit_Fragment:
  "items_fit (Fragment i role format v reads # rest) depth ids sources \<longleftrightarrow>
     length ids < 4096 \<and> \<not> blank i \<and> i \<notin> set ids \<and> item_ok sources (Fragment i role format v reads)
     \<and> items_fit rest depth (i # ids) sources"
  unfolding items_fit_def by auto

lemma items_fit_Group:
  "items_fit (Group i label children # rest) depth ids sources \<longleftrightarrow>
     length ids < 4096 \<and> \<not> blank i \<and> i \<notin> set ids \<and> \<not> blank label \<and> depth < 64
     \<and> items_fit children (depth + 1) (i # ids) sources
     \<and> items_fit rest depth (rev (items_ids children) @ i # ids) sources"
  unfolding items_fit_def by (cases "64 - depth") (auto simp: Suc_diff_Suc diff_Suc split: nat.splits)

lemma validate_items_iff:
  "length ids \<le> 4096 \<Longrightarrow> validate_items items depth ids sources = Inr ids' \<longleftrightarrow>
     depth \<le> 64 \<and> items_fit items depth ids sources \<and> ids' = rev (items_ids items) @ ids"
  "length ids \<le> 4096 \<Longrightarrow> depth \<le> 64 \<Longrightarrow> validate_list items depth ids sources = Inr ids' \<longleftrightarrow>
     items_fit items depth ids sources \<and> ids' = rev (items_ids items) @ ids"
proof (induction items depth ids sources and items depth ids sources
    arbitrary: ids' and ids' rule: validate_items_validate_list.induct)
  case (1 items depth ids sources)
  then show ?case by (cases "64 < depth") auto
next
  case (2 depth ids sources)
  then show ?case by (auto simp: items_fit_def)
next
  case (3 item rest depth ids sources)
  show ?case
  proof (cases "4096 \<le> length ids \<or> blank (item_id item) \<or> item_id item \<in> set ids")
    case True
    then show ?thesis by (cases item) (auto simp: items_fit_Fragment items_fit_Group)
  next
    case False
    then have guard: "\<not> 4096 \<le> length ids" "\<not> (blank (item_id item) \<or> item_id item \<in> set ids)"
      by auto
    show ?thesis
    proof (cases item)
      case (Fragment i role format v reads)
      have "validate_list (item # rest) depth ids sources = Inr ids' \<longleftrightarrow>
          item_ok sources item \<and> validate_list rest depth (i # ids) sources = Inr ids'"
        using guard Fragment validate_fragment_iff [of i role format v reads sources]
        by (auto split: sum.splits simp del: item_ok.simps)
      then show ?thesis
        using "3.IH"(3) [OF guard Fragment, of "()" ids'] "3.prems" guard Fragment
          validate_fragment_iff [of i role format v reads sources]
        by (auto simp: items_fit_Fragment simp del: item_ok.simps)
    next
      case (Group i label children)
      show ?thesis
      proof (cases "blank label")
        case True
        then show ?thesis using guard Group by (simp add: items_fit_Group)
      next
        case False
        let ?mid = "rev (items_ids children) @ i # ids"
        let ?inner = "validate_items children (depth + 1) (i # ids) sources"
        have inner: "?inner = Inr mid \<longleftrightarrow>
            depth + 1 \<le> 64 \<and> items_fit children (depth + 1) (i # ids) sources \<and> mid = ?mid" for mid
          using "3.IH"(1) [OF guard Group False] "3.prems" guard by simp
        show ?thesis
        proof (cases ?inner)
          case (Inl e)
          then have "\<not> (depth < 64 \<and> items_fit children (depth + 1) (i # ids) sources)"
            using inner [of ?mid] by simp
          with Inl guard Group False show ?thesis
            by (auto simp: items_fit_Group simp del: validate_items.simps)
        next
          case (Inr mid)
          have "length mid \<le> 4096" using inner [of mid] Inr by (simp add: items_fit_def)
          with "3.IH"(2) [OF guard Group False Inr, of ids'] "3.prems" inner [of mid] Inr guard Group False
          show ?thesis by (auto simp: items_fit_Group simp del: validate_items.simps)
        qed
      qed
    qed
  qed
qed


lemma count_chunks_iff:
  "n \<le> max_bytes \<Longrightarrow> count_chunks n chunks \<noteq> None \<longleftrightarrow> n + length (concat chunks) \<le> max_bytes"
  by (induction chunks arbitrary: n) auto

lemma validate_window_wf: "validate_window to_writer w = Inr () \<longleftrightarrow> wf_window to_writer w"
proof -
  have items: "(\<exists>ids. validate_items (win_items w) 0 [] (source_revisions w) = Inr ids)
      \<longleftrightarrow> wf_items (source_revisions w) (win_items w)"
    by (auto simp: validate_items_iff items_fit_def wf_items_def simp del: validate_items.simps)
  have bytes: "count_chunks 0 (to_writer w) \<noteq> None
      \<longleftrightarrow> length (concat (to_writer w)) \<le> 16 * 1024 * 1024"
    using count_chunks_iff [of 0 "to_writer w"] by (simp add: max_bytes_def)
  show ?thesis
  proof (cases "validate_items (win_items w) 0 [] (source_revisions w)")
    case (Inl e)
    with items have "\<not> wf_items (source_revisions w) (win_items w)" by auto
    with Inl show ?thesis
      by (simp add: validate_window_def wf_window_def del: validate_items.simps)
  next
    case (Inr ids)
    with items have "wf_items (source_revisions w) (win_items w)" by blast
    with Inr bytes show ?thesis
      by (cases "count_chunks 0 (to_writer w)")
        (auto simp: validate_window_def wf_window_def simp del: validate_items.simps)
  qed
qed

text \<open>
  C4. Validation of a prepared window decides its declarative well-formedness: a named strategy
  revision, captured source revisions, items nested at most 64 levels deep whose at most 4096
  identifiers are nonblank and unique in the whole tree, fragments that match their
  representation and read captured sources only, and a serialization of at most 16 MiB.
\<close>

theorem validate_window_iff: "validate_window to_writer w = Inr () \<longleftrightarrow> wf_window to_writer w"
  by (rule validate_window_wf)

text \<open>
  C5. A captured window is well formed, comes from a complete evaluation without diagnostics or
  unmet needs, and records a revision for every source the evaluation consulted.
\<close>

theorem capture_complete:
  assumes "capture to_writer to_value from_value sid revision evaluation sources = Inr w"
  shows "wf_window to_writer w \<and> eval_complete evaluation \<and> eval_diagnostics evaluation = []
    \<and> eval_needs evaluation = [] \<and> source_revisions w = sources
    \<and> (\<forall>name \<in> set (eval_reads evaluation). map_of (source_revisions w) name \<noteq> None)"
  using assms validate_window_wf [of to_writer]
  by (auto simp: capture_def Let_def find_None_iff split: if_splits option.splits sum.splits)

theorem capture_complete_witness:
  "wf_window (\<lambda>w. [''{}''])
     \<lparr>strategy_id = ''s'', strategy_revision = ''1'', program_revision = None,
      win_items = [Fragment ''f'' Data TextFormat (JString ''x'') [''src'']],
      source_revisions = [(''src'', ''r1'')], win_capabilities = []\<rparr>"
proof -
  let ?ev = "\<lparr>eval_complete = True, eval_items = (), eval_capabilities = [], eval_needs = [],
      eval_diagnostics = [], eval_reads = [''src'']\<rparr>"
  let ?items = "[Fragment ''f'' Data TextFormat (JString ''x'') [''src'']]"
  have "capture (\<lambda>w. [''{}'']) (\<lambda>_. Some JNull) (\<lambda>_. Some ?items) ''s'' ''1'' ?ev [(''src'', ''r1'')] =
      Inr \<lparr>strategy_id = ''s'', strategy_revision = ''1'', program_revision = None,
           win_items = ?items, source_revisions = [(''src'', ''r1'')], win_capabilities = []\<rparr>"
    by (simp add: capture_def validate_window_def validate_fragment_def correct_format_def max_bytes_def)
  from capture_complete [OF this] show ?thesis by blast
qed

subsection \<open>Laws of lookup and removal\<close>

lemma find_mut_None: "find_mut items i = None \<longleftrightarrow> i \<notin> set (items_ids items)"
proof (induction items i rule: find_mut.induct)
  case (2 item rest i)
  then show ?case
    by (cases item) (auto split: option.splits if_splits)
qed auto


lemma take_out_Some:
  "take_out items i = Some (x, xs) \<Longrightarrow>
     item_id x = i \<and> mset (items_ids items) = mset (item_ids x) + mset (items_ids xs)"
  by (induction items i arbitrary: xs rule: take_out.induct) (auto split: if_splits)

lemma take_out_None: "take_out items i = None \<longleftrightarrow> i \<notin> item_id ` set items"
  by (induction items i rule: take_out.induct) auto

lemma remove_Some:
  "remove items i = Some (x, xs) \<Longrightarrow>
     item_id x = i \<and> mset (items_ids items) = mset (item_ids x) + mset (items_ids xs)"
  "remove_below items i = Some (x, xs) \<Longrightarrow>
     item_id x = i \<and> mset (items_ids items) = mset (item_ids x) + mset (items_ids xs)"
proof (induction items i and items i arbitrary: xs and xs rule: remove_remove_below.induct)
  case (1 items i)
  then show ?case using take_out_Some by (fastforce split: option.splits)
next
  case (3 g label children rest i)
  then show ?case by (fastforce split: option.splits)
next
  case (4 f r m v s rest i)
  then show ?case by fastforce
qed simp

lemma item_ids_split: "set (items_ids items) = item_id ` set items \<union>
    (\<Union>item \<in> set items. case item of Group _ _ ch \<Rightarrow> set (items_ids ch) | _ \<Rightarrow> {})"
  by (induction items) (auto split: window_item.splits elim: item_ids.elims)

lemma remove_None:
  "remove items i = None \<longleftrightarrow> i \<notin> set (items_ids items)"
  "remove_below items i = None \<longleftrightarrow>
     i \<notin> (\<Union>item \<in> set items. case item of Group _ _ ch \<Rightarrow> set (items_ids ch) | _ \<Rightarrow> {})"
proof (induction items i and items i rule: remove_remove_below.induct)
  case (1 items i)
  then show ?case
    using take_out_None [of items i] by (auto simp: item_ids_split [of items] split: option.splits)
qed (auto split: option.splits)


subsection \<open>Patches\<close>

lemma insert_at_ids [simp]:
  "mset (items_ids (insert_at n x xs)) = mset (item_ids x) + mset (items_ids xs)"
proof -
  have "mset (items_ids xs) = mset (items_ids (take n xs @ drop n xs))" by simp
  also have "\<dots> = mset (items_ids (take n xs)) + mset (items_ids (drop n xs))"
    by (simp only: items_ids_simps mset_append)
  finally show ?thesis by (simp add: insert_at_def)
qed



lemma apply_patches_from_ok:
  assumes "validate_window to_writer w = Inr ()"
    and "apply_patches_from to_writer n w patches = Inr w'"
  shows "validate_window to_writer w' = Inr () \<and> w' = w\<lparr>win_items := win_items w'\<rparr>"
  using assms
proof (induction to_writer n w patches rule: apply_patches_from.induct)
  case (2 to_writer n w patch patches)
  from "2.prems"(2) obtain items where items: "patch_items (patch_path n) (win_items w) patch = Inr items"
    and ok: "validate_window to_writer (w\<lparr>win_items := items\<rparr>) = Inr ()"
    and rest: "apply_patches_from to_writer (Suc n) (w\<lparr>win_items := items\<rparr>) patches = Inr w'"
    by (auto simp: Let_def split: sum.splits)
  have "validate_window to_writer w' = Inr ()
      \<and> w' = w\<lparr>win_items := items, win_items := win_items w'\<rparr>"
    using "2.IH" items ok rest by simp
  then show ?case by simp
qed simp

text \<open>
  C6. Editing is all or nothing and keeps the invariant: a patch list that succeeds yields a
  well-formed window which differs from the original in its items only; strategy, program and
  source revisions and capabilities are untouched.
\<close>

theorem patched_invariant:
  assumes "patched to_writer w patches = Inr w'"
  shows "wf_window to_writer w' \<and> w' = w\<lparr>win_items := win_items w'\<rparr>
    \<and> patches \<noteq> [] \<and> length patches \<le> 4096"
proof -
  from assms have ok: "validate_window to_writer w = Inr ()"
    and run: "apply_patches_from to_writer 0 w patches = Inr w'"
    and len: "patches \<noteq> []" "length patches \<le> 4096"
    by (auto simp: patched_def apply_patches_def split: sum.splits if_splits)
  from apply_patches_from_ok [OF ok run] len show ?thesis
    using validate_window_wf by blast
qed

definition sample_window :: prepared_window where
  "sample_window =
     \<lparr>strategy_id = ''s'', strategy_revision = ''1'', program_revision = None,
      win_items = [Group ''g'' ''Group'' [Fragment ''a'' Data TextFormat (JString ''x'') []],
                   Fragment ''b'' Data JsonFormat JNull []],
      source_revisions = [], win_capabilities = []\<rparr>"

theorem patched_invariant_witness:
  "wf_window (\<lambda>w. []) (sample_window\<lparr>win_items :=
     [Group ''g'' ''Group'' [Fragment ''b'' Data JsonFormat JNull [],
        Fragment ''a'' Data TextFormat (JString ''x'') []]]\<rparr>)"
proof -
  have "patched (\<lambda>w. []) sample_window [PatchMove ''b'' (Some ''g'') 0] =
      Inr (sample_window\<lparr>win_items :=
        [Group ''g'' ''Group'' [Fragment ''b'' Data JsonFormat JNull [],
           Fragment ''a'' Data TextFormat (JString ''x'') []]]\<rparr>)"
    by (simp add: patched_def apply_patches_def validate_window_def validate_fragment_def
        correct_format_def sample_window_def insert_at_def)
  from patched_invariant [OF this] show ?thesis by blast
qed



text \<open>
  C8. A move cannot create a cycle: on a well-formed window, moving an item into itself or into
  any of its descendants is refused.
\<close>

theorem move_into_subtree_refused:
  assumes "wf_window to_writer w" and "remove (win_items w) i = Some (x, rest)"
    and "parent \<in> set (item_ids x)"
  shows "patched to_writer w [PatchMove i (Some parent) index] =
    Inl (invalid ''window_parent'' (patch_path 0)
      ''Destination must be an existing group outside the moved subtree'')"
proof -
  have ids: "mset (items_ids (win_items w)) = mset (item_ids x) + mset (items_ids rest)"
    using remove_Some(1) [OF assms(2)] by blast
  have "distinct (items_ids (win_items w))"
    using assms(1) by (simp add: wf_window_def wf_items_def)
  then have "distinct (item_ids x @ items_ids rest)"
    using ids mset_eq_imp_distinct_iff [of "items_ids (win_items w)" "item_ids x @ items_ids rest"]
    by simp
  then have "parent \<notin> set (items_ids rest)" using assms(3) by auto
  then have "find_mut rest parent = None" by (simp add: find_mut_None)
  moreover have "validate_window to_writer w = Inr ()" using assms(1) validate_window_wf by blast
  ultimately show ?thesis using assms(2)
    by (simp add: patched_def apply_patches_def del: remove.simps)
qed

theorem move_into_subtree_refused_witness:
  "patched (\<lambda>w. []) sample_window [PatchMove ''g'' (Some ''a'') 0] =
     Inl (invalid ''window_parent'' (patch_path 0)
       ''Destination must be an existing group outside the moved subtree'')"
proof (rule move_into_subtree_refused)
  show "wf_window (\<lambda>w. []) sample_window"
    unfolding validate_window_wf [symmetric]
    by (simp add: validate_window_def validate_fragment_def correct_format_def sample_window_def)
  show "remove (win_items sample_window) ''g'' =
      Some (Group ''g'' ''Group'' [Fragment ''a'' Data TextFormat (JString ''x'') []],
        [Fragment ''b'' Data JsonFormat JNull []])"
    by (simp add: sample_window_def)
qed simp

end
