(* ===== verification/Zf_Predicates.thy ===== *)
theory Zf_Predicates
  imports Zf_Prelude
begin

text \<open>
  Conditions of flow contracts: their validation (\<open>zf-flows/src/node_contracts.rs\<close>) and their
  evaluation against the channel state (\<open>zf-runtime/src/predicates.rs\<close>).

  The messages of \<open>anyhow\<close> are the constructors of \<open>predicate_error\<close>; the derived decoder of
  serde is the parameter \<open>from_value\<close>. The state is a map from channels to JSON values, and a
  finite \<open>f64\<close> is the rational it denotes.

  Shown here: the mixed integer and float comparison is the exact order of the rationals; a
  validated condition either has its declarative truth value or fails on a type mismatch of
  the state, never for a missing operand; an escaped JSON pointer reads the path it encodes.
\<close>

subsection \<open>Data\<close>

datatype predicate_operator = Eq | Ne | Gt | Gte | Lt | Lte | Exists | Contains | In

datatype predicate =
    All "predicate list"
  | Any "predicate list"
  | Compare string predicate_operator "json option"

datatype predicate_error =
    DepthLimit
  | GroupSize
  | InvalidField
  | InvalidPointer string
  | ExistsTakesNoValue
  | ValueRequired
  | NumberRequired
  | InOperand
  | NumericExpected
  | NonFinite
  | InclusionExpected
  | IncompatibleTypes string
  | DecodeError string

text \<open>The text of each error; \<open>e_acute\<close>, \<open>a_grave\<close>, \<open>i_circumflex\<close> are UTF-8 encodings.\<close>

definition e_acute :: string where "e_acute = [CHR 0xC3, CHR 0xA9]"

definition a_grave :: string where "a_grave = [CHR 0xC3, CHR 0xA0]"

definition i_circumflex :: string where "i_circumflex = [CHR 0xC3, CHR 0xAE]"

fun predicate_message :: "predicate_error \<Rightarrow> string" where
  "predicate_message DepthLimit = ''Conditions limit'' @ e_acute @ ''es '' @ a_grave @ '' 16 niveaux''"
| "predicate_message GroupSize = ''Un groupe ET/OU doit contenir 1 '' @ a_grave @ '' 64 conditions''"
| "predicate_message InvalidField = ''Champ de condition invalide''"
| "predicate_message (InvalidPointer key) = ''JSON Pointer invalide : '' @ key"
| "predicate_message ExistsTakesNoValue = ''exists ne prend pas de valeur''"
| "predicate_message ValueRequired = ''Valeur de comparaison requise''"
| "predicate_message NumberRequired =
     ''Une comparaison num'' @ e_acute @ ''rique requiert un nombre''"
| "predicate_message InOperand = ''in attend un tableau ou une cha'' @ i_circumflex @ ''ne''"
| "predicate_message NumericExpected =
     ''Types incompatibles : comparaison num'' @ e_acute @ ''rique attendue''"
| "predicate_message NonFinite = ''Nombre non fini''"
| "predicate_message InclusionExpected =
     ''Types incompatibles : inclusion dans un tableau ou une cha'' @ i_circumflex @ ''ne attendue''"
| "predicate_message (IncompatibleTypes key) =
     ''Types incompatibles pour '' @ key @ '' : aucune conversion implicite''"
| "predicate_message (DecodeError e) = e"

datatype ordering = Less | Equal | Greater

subsection \<open>Validation\<close>

text \<open>Every \<open>~\<close> of a JSON pointer is followed by \<open>0\<close> or \<open>1\<close>.\<close>

fun tildes_ok :: "string \<Rightarrow> bool" where
  "tildes_ok [] = True"
| "tildes_ok (c # cs) =
     ((c \<noteq> CHR ''~'' \<or> (case cs of [] \<Rightarrow> False | d # _ \<Rightarrow> d = CHR ''0'' \<or> d = CHR ''1'')) \<and> tildes_ok cs)"

definition validate_compare ::
  "string \<Rightarrow> predicate_operator \<Rightarrow> json option \<Rightarrow> (predicate_error, unit) result" where
  "validate_compare key operator v =
     (if key = [] \<or> 1024 < length key then Inl InvalidField
      else if prefix ''/'' key \<and> \<not> tildes_ok key then Inl (InvalidPointer key)
      else if operator = Exists then (if v = None then Inr () else Inl ExistsTakesNoValue)
      else (case v of
          None \<Rightarrow> Inl ValueRequired
        | Some x \<Rightarrow>
            (if operator \<in> {Gt, Gte, Lt, Lte} \<and> \<not> is_number x then Inl NumberRequired
             else if operator = In \<and> \<not> (is_array x \<or> is_string x) then Inl InOperand
             else Inr ())))"

fun validate_predicate :: "predicate \<Rightarrow> nat \<Rightarrow> (predicate_error, unit) result" where
  "validate_predicate (All items) depth =
     (if 16 < depth then Inl DepthLimit
      else if items = [] \<or> 64 < length items then Inl GroupSize
      else for_each (\<lambda>item. validate_predicate item (depth + 1)) items)"
| "validate_predicate (Any items) depth =
     (if 16 < depth then Inl DepthLimit
      else if items = [] \<or> 64 < length items then Inl GroupSize
      else for_each (\<lambda>item. validate_predicate item (depth + 1)) items)"
| "validate_predicate (Compare key operator v) depth =
     (if 16 < depth then Inl DepthLimit else validate_compare key operator v)"

definition parse_predicate ::
  "(json \<Rightarrow> (string, predicate) result) \<Rightarrow> json \<Rightarrow> (predicate_error, predicate) result" where
  "parse_predicate from_value v =
     (case from_value v of
        Inl e \<Rightarrow> Inl (DecodeError e)
      | Inr p \<Rightarrow> (case validate_predicate p 0 of Inl e \<Rightarrow> Inl e | Inr _ \<Rightarrow> Inr p))"

subsection \<open>Reading the state\<close>

definition unescape :: "string \<Rightarrow> string" where
  "unescape part = replace ''~0'' ''~'' (replace ''~1'' ''/'' part)"

text \<open>How the sources write a key into a pointer (\<open>flow_format.rs\<close>, \<open>context.rs\<close>).\<close>

definition escape :: "string \<Rightarrow> string" where
  "escape name = replace ''/'' ''~1'' (replace ''~'' ''~0'' name)"

text \<open>One step of the loop of \<open>field\<close>, with the part already unescaped.\<close>

fun field_step :: "json \<Rightarrow> string \<Rightarrow> json option" where
  "field_step (JObject m) part = map_of m part"
| "field_step (JArray xs) part =
     (if 1 < length part \<and> prefix ''0'' part then None
      else (case parse_usize part of
          None \<Rightarrow> None
        | Some i \<Rightarrow> if i < length xs then Some (xs ! i) else None))"
| "field_step _ part = None"

fun field_walk :: "json \<Rightarrow> string list \<Rightarrow> json option" where
  "field_walk v [] = Some v"
| "field_walk v (part # parts) =
     (case field_step v (unescape part) of None \<Rightarrow> None | Some w \<Rightarrow> field_walk w parts)"

definition field :: "(string \<Rightarrow> json option) \<Rightarrow> string \<Rightarrow> json option" where
  "field state key =
     (case strip_prefix ''/'' key of
        None \<Rightarrow> state key
      | Some pointer \<Rightarrow>
          (case split_char (CHR ''/'') pointer of
             [] \<Rightarrow> None
           | p # parts \<Rightarrow>
               (case state (unescape p) of None \<Rightarrow> None | Some v \<Rightarrow> field_walk v parts)))"

subsection \<open>Evaluation\<close>

fun reverse_ordering :: "ordering \<Rightarrow> ordering" where
  "reverse_ordering Less = Greater"
| "reverse_ordering Equal = Equal"
| "reverse_ordering Greater = Less"

definition cmp :: "'a :: linorder \<Rightarrow> 'a \<Rightarrow> ordering" where
  "cmp a b = (if a < b then Less else if a = b then Equal else Greater)"

definition then_with :: "ordering \<Rightarrow> ordering \<Rightarrow> ordering" where
  "then_with a b = (if a = Equal then b else a)"

text \<open>\<open>integer\<close>: \<open>as_i64\<close> or \<open>as_u64\<close> widened to \<open>i128\<close>; \<open>as_f64\<close> of a float.\<close>

fun integer_value :: "json \<Rightarrow> int option" where
  "integer_value (JNumber (PosInt n)) = Some (int n)"
| "integer_value (JNumber (NegInt i)) = Some i"
| "integer_value _ = None"

fun float_value :: "json \<Rightarrow> rat option" where
  "float_value (JNumber (Float x)) = Some x"
| "float_value _ = None"

text \<open>\<open>float as i128\<close> rounds towards zero (and saturates, which the guards exclude).\<close>

definition truncate :: "rat \<Rightarrow> int" where
  "truncate x = (if x < 0 then - \<lfloor>- x\<rfloor> else \<lfloor>x\<rfloor>)"

text \<open>\<open>i128::MAX as f64\<close> rounds to \<open>2^127\<close>; \<open>i128::MIN as f64\<close> is exact.\<close>

definition int_float :: "int \<Rightarrow> rat \<Rightarrow> ordering" where
  "int_float i x =
     (if 2 ^ 127 \<le> x then Less
      else if x \<le> - (2 ^ 127) then Greater
      else then_with (cmp i (truncate x))
        (let fract = x - of_int (truncate x)
         in if 0 < fract then Less else if fract < 0 then Greater else Equal))"

definition number_order :: "json \<Rightarrow> json \<Rightarrow> (predicate_error, ordering) result" where
  "number_order left right =
     (if \<not> (is_number left \<and> is_number right) then Inl NumericExpected
      else (case (integer_value left, integer_value right) of
          (Some l, Some r) \<Rightarrow> Inr (cmp l r)
        | (Some l, None) \<Rightarrow>
            (case float_value right of None \<Rightarrow> Inl NonFinite | Some x \<Rightarrow> Inr (int_float l x))
        | (None, Some r) \<Rightarrow>
            (case float_value left of None \<Rightarrow> Inl NonFinite
               | Some x \<Rightarrow> Inr (reverse_ordering (int_float r x)))
        | (None, None) \<Rightarrow>
            (case (float_value left, float_value right) of
               (Some x, Some y) \<Rightarrow> Inr (cmp x y)
             | _ \<Rightarrow> Inl NonFinite)))"

fun same_type :: "json \<Rightarrow> json \<Rightarrow> bool" where
  "same_type JNull JNull = True"
| "same_type (JBool _) (JBool _) = True"
| "same_type (JNumber _) (JNumber _) = True"
| "same_type (JString _) (JString _) = True"
| "same_type (JArray _) (JArray _) = True"
| "same_type (JObject _) (JObject _) = True"
| "same_type _ _ = False"

fun str_contains :: "string \<Rightarrow> string \<Rightarrow> bool" where
  "str_contains [] needle = (needle = [])"
| "str_contains (c # cs) needle = (prefix needle (c # cs) \<or> str_contains cs needle)"

fun contains :: "json \<Rightarrow> json \<Rightarrow> (predicate_error, bool) result" where
  "contains (JString s) (JString needle) = Inr (str_contains s needle)"
| "contains (JArray xs) needle = Inr (list_ex (\<lambda>x. x = needle) xs)"
| "contains _ _ = Inl InclusionExpected"

definition test_order :: "(ordering \<Rightarrow> bool) \<Rightarrow> json \<Rightarrow> json \<Rightarrow> (predicate_error, bool) result" where
  "test_order ok actual expected =
     (case number_order actual expected of Inl e \<Rightarrow> Inl e | Inr c \<Rightarrow> Inr (ok c))"

definition compare_values ::
  "string \<Rightarrow> predicate_operator \<Rightarrow> json \<Rightarrow> json \<Rightarrow> (predicate_error, bool) result" where
  "compare_values key operator actual expected =
     (case operator of
        Eq \<Rightarrow> (if same_type actual expected then Inr (actual = expected) else Inl (IncompatibleTypes key))
      | Ne \<Rightarrow> (if same_type actual expected then Inr (actual \<noteq> expected) else Inl (IncompatibleTypes key))
      | Gt \<Rightarrow> test_order (\<lambda>c. c = Greater) actual expected
      | Gte \<Rightarrow> test_order (\<lambda>c. c \<noteq> Less) actual expected
      | Lt \<Rightarrow> test_order (\<lambda>c. c = Less) actual expected
      | Lte \<Rightarrow> test_order (\<lambda>c. c \<noteq> Greater) actual expected
      | Contains \<Rightarrow> contains actual expected
      | In \<Rightarrow> contains expected actual
      | Exists \<Rightarrow> Inr True)"

fun evaluate :: "predicate \<Rightarrow> (string \<Rightarrow> json option) \<Rightarrow> (predicate_error, bool) result" where
  "evaluate (All items) state =
     (case collect_results (\<lambda>item. evaluate item state) items of
        Inl e \<Rightarrow> Inl e
      | Inr vs \<Rightarrow> Inr (list_all (\<lambda>b. b) vs))"
| "evaluate (Any items) state =
     (case collect_results (\<lambda>item. evaluate item state) items of
        Inl e \<Rightarrow> Inl e
      | Inr vs \<Rightarrow> Inr (list_ex (\<lambda>b. b) vs))"
| "evaluate (Compare key operator v) state =
     (let actual = field state key
      in if operator = Exists then Inr (actual \<noteq> None)
         else (case actual of
             None \<Rightarrow> Inr False
           | Some a \<Rightarrow>
               (case v of
                  None \<Rightarrow> Inl ValueRequired
                | Some expected \<Rightarrow> compare_values key operator a expected)))"

subsection \<open>The order of numbers is exact\<close>

text \<open>The ranges of serde's integers, and the rational a number denotes.\<close>

fun number_ok :: "json \<Rightarrow> bool" where
  "number_ok (JNumber (PosInt n)) = (n < 2 ^ 64)"
| "number_ok (JNumber (NegInt i)) = (- (2 ^ 63) \<le> i \<and> i < 0)"
| "number_ok (JNumber (Float x)) = True"
| "number_ok _ = False"

fun number_val :: "json \<Rightarrow> rat" where
  "number_val (JNumber (PosInt n)) = of_nat n"
| "number_val (JNumber (NegInt i)) = of_int i"
| "number_val (JNumber (Float x)) = x"
| "number_val _ = 0"

lemma reverse_cmp [simp]: "reverse_ordering (cmp a b) = cmp b a"
  by (auto simp: cmp_def)

lemma cmp_of_int [simp]: "cmp (of_int i :: rat) (of_int j) = cmp i j"
  by (simp add: cmp_def)

lemma truncate_order:
  fixes x :: rat
  shows "i < truncate x \<Longrightarrow> of_int i < x" "truncate x < i \<Longrightarrow> x < of_int i"
  unfolding truncate_def by (auto split: if_splits) linarith+

lemma int_float_exact:
  assumes "- (2 ^ 127) < i" and "i < 2 ^ 127"
  shows "int_float i x = cmp (of_int i) x"
proof -
  have lo: "- (2 ^ 127) < (of_int i :: rat)" and hi: "(of_int i :: rat) < 2 ^ 127"
    using assms of_int_less_iff [of "- (2 ^ 127)" i, where 'a = rat]
      of_int_less_iff [of i "2 ^ 127", where 'a = rat] by simp_all
  consider "2 ^ 127 \<le> x" | "x \<le> - (2 ^ 127)"
    | "\<not> 2 ^ 127 \<le> x" "\<not> x \<le> - (2 ^ 127)" "i = truncate x"
    | "\<not> 2 ^ 127 \<le> x" "\<not> x \<le> - (2 ^ 127)" "i \<noteq> truncate x" by blast
  then show ?thesis
  proof cases
    case 4
    then consider "i < truncate x" | "truncate x < i" by linarith
    then show ?thesis
      using 4 truncate_order(1) [of i x] truncate_order(2) [of x i]
      by cases (auto simp: int_float_def cmp_def then_with_def)
  qed (use lo hi in \<open>auto simp: int_float_def cmp_def then_with_def Let_def\<close>)
qed

lemma integer_value_ok:
  "number_ok v \<Longrightarrow> integer_value v = Some i \<Longrightarrow>
     - (2 ^ 127) < i \<and> i < 2 ^ 127 \<and> number_val v = of_int i"
  by (cases v rule: number_ok.cases) auto

lemma number_cases:
  "is_number v \<Longrightarrow> (\<exists>i. integer_value v = Some i) \<or> (\<exists>x. v = JNumber (Float x))"
  by (cases v rule: integer_value.cases) auto

lemma number_order_eq:
  assumes "is_number l \<Longrightarrow> number_ok l" and "is_number r \<Longrightarrow> number_ok r"
  shows "number_order l r =
    (if is_number l \<and> is_number r then Inr (cmp (number_val l) (number_val r)) else Inl NumericExpected)"
proof (cases "is_number l \<and> is_number r")
  case True
  then have ok: "number_ok l" "number_ok r" using assms by auto
  from True number_cases [of l] number_cases [of r]
  consider i j where "integer_value l = Some i" "integer_value r = Some j"
    | i y where "integer_value l = Some i" "r = JNumber (Float y)"
    | x j where "l = JNumber (Float x)" "integer_value r = Some j"
    | x y where "l = JNumber (Float x)" "r = JNumber (Float y)" by blast
  then show ?thesis
  proof cases
    case 1
    with True ok show ?thesis by (simp add: number_order_def integer_value_ok)
  next
    case 2
    with True ok integer_value_ok [of l i] show ?thesis
      by (simp add: number_order_def int_float_exact)
  next
    case 3
    with True ok integer_value_ok [of r j] show ?thesis
      by (simp add: number_order_def int_float_exact)
  qed (simp add: number_order_def)
qed (simp add: number_order_def)

text \<open>
  C9. Comparing two JSON numbers is comparing the rationals they denote, for all integers of
  serde's ranges and all finite floats: no integer is rounded to a neighbouring float. On any
  other values the comparison is refused.
\<close>

theorem number_order_exact:
  assumes "is_number l \<Longrightarrow> number_ok l" and "is_number r \<Longrightarrow> number_ok r"
  shows "number_order l r =
    (if is_number l \<and> is_number r then Inr (cmp (number_val l) (number_val r)) else Inl NumericExpected)"
  using assms by (rule number_order_eq)

theorem number_order_exact_witness:
  "number_order (JNumber (PosInt (2 ^ 53 + 1))) (JNumber (Float (2 ^ 53))) = Inr Greater"
  using number_order_exact [of "JNumber (PosInt (2 ^ 53 + 1))" "JNumber (Float (2 ^ 53))"]
  by (simp add: cmp_def)

subsection \<open>Meaning of validated conditions\<close>

text \<open>Every number inside a value is in the range of its representation.\<close>

fun json_ok :: "json \<Rightarrow> bool" where
  "json_ok (JNumber n) = number_ok (JNumber n)"
| "json_ok (JArray xs) = (\<forall>x \<in> set xs. json_ok x)"
| "json_ok (JObject m) = (\<forall>(k, x) \<in> set m. json_ok x)"
| "json_ok _ = True"

fun operands_ok :: "predicate \<Rightarrow> bool" where
  "operands_ok (All items) = (\<forall>p \<in> set items. operands_ok p)"
| "operands_ok (Any items) = (\<forall>p \<in> set items. operands_ok p)"
| "operands_ok (Compare _ _ v) = (case v of None \<Rightarrow> True | Some x \<Rightarrow> json_ok x)"

text \<open>Which operand types an operator accepts, and what it then means.\<close>

definition typed :: "predicate_operator \<Rightarrow> json \<Rightarrow> json \<Rightarrow> bool" where
  "typed operator a e =
     (case operator of
        Eq \<Rightarrow> same_type a e | Ne \<Rightarrow> same_type a e
      | Contains \<Rightarrow> is_array a \<or> (is_string a \<and> is_string e)
      | In \<Rightarrow> is_array e \<or> (is_string a \<and> is_string e)
      | Exists \<Rightarrow> True
      | _ \<Rightarrow> is_number a \<and> is_number e)"

fun member_of :: "json \<Rightarrow> json \<Rightarrow> bool" where
  "member_of (JString s) (JString t) = sublist t s"
| "member_of (JArray xs) v = (v \<in> set xs)"
| "member_of _ _ = False"

definition meaning :: "predicate_operator \<Rightarrow> json \<Rightarrow> json \<Rightarrow> bool" where
  "meaning operator a e =
     (case operator of
        Eq \<Rightarrow> a = e | Ne \<Rightarrow> a \<noteq> e
      | Gt \<Rightarrow> number_val e < number_val a | Gte \<Rightarrow> number_val e \<le> number_val a
      | Lt \<Rightarrow> number_val a < number_val e | Lte \<Rightarrow> number_val a \<le> number_val e
      | Contains \<Rightarrow> member_of a e | In \<Rightarrow> member_of e a | Exists \<Rightarrow> True)"

fun well_typed :: "predicate \<Rightarrow> (string \<Rightarrow> json option) \<Rightarrow> bool" where
  "well_typed (All items) state = (\<forall>p \<in> set items. well_typed p state)"
| "well_typed (Any items) state = (\<forall>p \<in> set items. well_typed p state)"
| "well_typed (Compare key operator v) state =
     (case (field state key, v) of (Some a, Some e) \<Rightarrow> typed operator a e | _ \<Rightarrow> True)"

fun holds :: "predicate \<Rightarrow> (string \<Rightarrow> json option) \<Rightarrow> bool" where
  "holds (All items) state = (\<forall>p \<in> set items. holds p state)"
| "holds (Any items) state = (\<exists>p \<in> set items. holds p state)"
| "holds (Compare key operator v) state =
     (case field state key of
        None \<Rightarrow> False
      | Some a \<Rightarrow> (case v of None \<Rightarrow> operator = Exists | Some e \<Rightarrow> meaning operator a e))"

definition type_error :: "predicate_error \<Rightarrow> bool" where
  "type_error e \<longleftrightarrow> e = NumericExpected \<or> e = InclusionExpected \<or> (\<exists>key. e = IncompatibleTypes key)"

text \<open>What evaluation promises: the truth value of well-typed conditions, else a type error.\<close>

definition evaluates_to :: "(predicate_error, bool) result \<Rightarrow> bool \<Rightarrow> bool \<Rightarrow> bool" where
  "evaluates_to r ok b \<longleftrightarrow> (if ok then r = Inr b else \<exists>e. r = Inl e \<and> type_error e)"

lemma str_contains_sublist: "str_contains s t \<longleftrightarrow> sublist t s"
  by (induction s) (auto simp: sublist_Cons_right)

lemma contains_eq:
  "evaluates_to (contains a e) (is_array a \<or> (is_string a \<and> is_string e)) (member_of a e)"
  by (cases "(a, e)" rule: contains.cases)
    (auto simp: evaluates_to_def type_error_def str_contains_sublist list_ex_iff)

lemma json_ok_number: "json_ok v \<Longrightarrow> is_number v \<Longrightarrow> number_ok v"
  by (cases v) auto

lemma test_order_eq:
  assumes "json_ok a" and "json_ok e"
  shows "evaluates_to (test_order ok a e) (is_number a \<and> is_number e)
    (ok (cmp (number_val a) (number_val e)))"
  using assms
  by (simp add: evaluates_to_def test_order_def type_error_def number_order_eq json_ok_number)

lemma compare_values_eq:
  assumes "json_ok a" and "json_ok e"
  shows "evaluates_to (compare_values key operator a e) (typed operator a e) (meaning operator a e)"
proof (cases operator)
  case Gt
  have "(cmp x y = Greater) = (y < x)" for x y :: rat by (auto simp: cmp_def)
  with Gt test_order_eq [OF assms, of "\<lambda>c. c = Greater"] show ?thesis
    by (simp add: compare_values_def typed_def meaning_def)
next
  case Gte
  have "(cmp x y \<noteq> Less) = (y \<le> x)" for x y :: rat by (auto simp: cmp_def)
  with Gte test_order_eq [OF assms, of "\<lambda>c. c \<noteq> Less"] show ?thesis
    by (simp add: compare_values_def typed_def meaning_def)
next
  case Lt
  have "(cmp x y = Less) = (x < y)" for x y :: rat by (auto simp: cmp_def)
  with Lt test_order_eq [OF assms, of "\<lambda>c. c = Less"] show ?thesis
    by (simp add: compare_values_def typed_def meaning_def)
next
  case Lte
  have "(cmp x y \<noteq> Greater) = (x \<le> y)" for x y :: rat by (auto simp: cmp_def)
  with Lte test_order_eq [OF assms, of "\<lambda>c. c \<noteq> Greater"] show ?thesis
    by (simp add: compare_values_def typed_def meaning_def)
next
  case Contains
  with contains_eq [of a e] show ?thesis by (simp add: compare_values_def typed_def meaning_def)
next
  case In
  with contains_eq [of e a] show ?thesis
    by (simp add: compare_values_def typed_def meaning_def conj_commute)
qed (simp_all add: compare_values_def typed_def meaning_def evaluates_to_def type_error_def)

lemma field_step_ok: "json_ok v \<Longrightarrow> field_step v part = Some w \<Longrightarrow> json_ok w"
  by (cases "(v, part)" rule: field_step.cases)
    (auto split: if_splits option.splits dest!: map_of_SomeD)

lemma field_walk_ok: "json_ok v \<Longrightarrow> field_walk v parts = Some w \<Longrightarrow> json_ok w"
  by (induction v parts rule: field_walk.induct)
    (auto split: option.splits dest: field_step_ok)

lemma field_ok:
  "(\<And>k v. state k = Some v \<Longrightarrow> json_ok v) \<Longrightarrow> field state key = Some v \<Longrightarrow> json_ok v"
  unfolding field_def
  by (auto split: option.splits list.splits intro: field_walk_ok)

lemma group_eq:
  assumes "\<And>p. p \<in> set items \<Longrightarrow> evaluates_to (f p) (ok p) (b p)"
  shows "if \<forall>p \<in> set items. ok p then collect_results f items = Inr (map b items)
     else \<exists>e. collect_results f items = Inl e \<and> type_error e"
proof (cases "\<forall>p \<in> set items. ok p")
  case True
  then have "f p = Inr (b p)" if "p \<in> set items" for p
    using assms [OF that] that by (simp add: evaluates_to_def)
  with True show ?thesis by (simp add: collect_results_ok_iff list_all2_map2 list_all2_same)
next
  case False
  then obtain p where "p \<in> set items" "\<not> ok p" by blast
  with assms [OF \<open>p \<in> set items\<close>] have "\<not> is_ok (f p)" by (auto simp: evaluates_to_def)
  with \<open>p \<in> set items\<close> obtain e where e: "collect_results f items = Inl e"
    using collect_results_err_iff [of f items] by (cases "collect_results f items") auto
  from collect_results_err [OF this] obtain q where "q \<in> set items" "f q = Inl e" by auto
  with assms [OF \<open>q \<in> set items\<close>] have "type_error e"
    by (cases "ok q") (simp_all add: evaluates_to_def)
  with e have "\<exists>e. collect_results f items = Inl e \<and> type_error e" by blast
  then show ?thesis by (simp only: False if_False)
qed

lemma evaluate_validated:
  assumes state: "\<And>k v. state k = Some v \<Longrightarrow> json_ok v"
  shows "validate_predicate p depth = Inr () \<Longrightarrow> operands_ok p \<Longrightarrow>
    evaluates_to (evaluate p state) (well_typed p state) (holds p state)"
proof (induction p depth rule: validate_predicate.induct)
  case (1 items depth)
  then have "\<And>p. p \<in> set items \<Longrightarrow> evaluates_to (evaluate p state) (well_typed p state) (holds p state)"
    by (auto simp: for_each_ok_iff split: if_splits)
  from group_eq [of items "\<lambda>p. evaluate p state", OF this] show ?case
    by (auto simp: evaluates_to_def list_all_iff split: if_splits)
next
  case (2 items depth)
  then have "\<And>p. p \<in> set items \<Longrightarrow> evaluates_to (evaluate p state) (well_typed p state) (holds p state)"
    by (auto simp: for_each_ok_iff split: if_splits)
  from group_eq [of items "\<lambda>p. evaluate p state", OF this] show ?case
    by (auto simp: evaluates_to_def list_ex_iff split: if_splits)
next
  case (3 key operator v depth)
  then show ?case
    using compare_values_eq [of _ _ key operator] field_ok [of state key, OF state]
    by (auto simp: evaluates_to_def validate_compare_def typed_def meaning_def
        split: if_splits option.splits)
qed

text \<open>
  C10. A condition accepted by \<open>parse_predicate\<close> has, on every state of well-formed JSON values,
  exactly its declarative meaning when all its comparisons are well typed; otherwise
  evaluation fails with one of the three type errors. It never fails for a missing operand
  and a type error below an undecided group is not hidden by the order of its items.
\<close>

theorem evaluate_parsed:
  assumes "parse_predicate from_value v = Inr p" and "operands_ok p"
    and "\<And>k x. state k = Some x \<Longrightarrow> json_ok x"
  shows "if well_typed p state then evaluate p state = Inr (holds p state)
    else \<exists>e. evaluate p state = Inl e \<and> type_error e"
proof -
  from assms(1) have "validate_predicate p 0 = Inr ()"
    by (auto simp: parse_predicate_def split: sum.splits)
  from evaluate_validated [OF assms(3) this assms(2)] show ?thesis by (simp add: evaluates_to_def)
qed

definition sample_condition :: predicate where
  "sample_condition = Any [Compare ''n'' Gt (Some (JNumber (PosInt 3))), Compare ''/n/x'' Exists None]"

theorem evaluate_parsed_witness:
  "evaluate sample_condition [''n'' \<mapsto> JNumber (PosInt 4)] = Inr True
   \<and> (\<exists>e. evaluate sample_condition [''n'' \<mapsto> JObject [(''x'', JNull)]] = Inl e \<and> type_error e)"
proof -
  have p: "parse_predicate (\<lambda>v. Inr sample_condition) JNull = Inr sample_condition"
    by (simp add: parse_predicate_def sample_condition_def validate_compare_def)
  have o: "operands_ok sample_condition" by (simp add: sample_condition_def)
  have *: "\<And>x. json_ok x \<Longrightarrow> (if well_typed sample_condition [''n'' \<mapsto> x]
      then evaluate sample_condition [''n'' \<mapsto> x] = Inr (holds sample_condition [''n'' \<mapsto> x])
      else \<exists>e. evaluate sample_condition [''n'' \<mapsto> x] = Inl e \<and> type_error e)"
    by (rule evaluate_parsed [OF p o]) (auto split: if_splits)
  show ?thesis
    using * [of "JNumber (PosInt 4)"] * [of "JObject [(''x'', JNull)]"]
    by (simp add: sample_condition_def field_def strip_prefix_def unescape_def typed_def meaning_def)
qed

subsection \<open>JSON pointers\<close>

definition pointer :: "string list \<Rightarrow> string" where
  "pointer path = concat (map (\<lambda>name. CHR ''/'' # escape name) path)"

definition escape_char :: "char \<Rightarrow> string" where
  "escape_char c = (if c = CHR ''~'' then ''~0'' else if c = CHR ''/'' then ''~1'' else [c])"

lemma replace_tilde:
  "replace ''~'' ''~0'' s = concat (map (\<lambda>c. if c = CHR ''~'' then ''~0'' else [c]) s)"
  by (induction s) auto

lemma escape_eq: "escape s = concat (map escape_char s)"
  unfolding escape_def replace_tilde by (induction s) (auto simp: escape_char_def)

lemma unescape_escape [simp]: "unescape (escape s) = s"
proof -
  have "replace ''~1'' ''/'' (concat (map escape_char s)) =
      concat (map (\<lambda>c. if c = CHR ''~'' then ''~0'' else [c]) s)"
    by (induction s) (auto simp: escape_char_def)
  moreover have "replace ''~0'' ''~'' (concat (map (\<lambda>c. if c = CHR ''~'' then ''~0'' else [c]) s)) = s"
    by (induction s) auto
  ultimately show ?thesis by (simp add: unescape_def escape_eq)
qed





text \<open>Following a path of keys through nested values.\<close>

definition follow :: "json option \<Rightarrow> string list \<Rightarrow> json option" where
  "follow = foldl (\<lambda>v name. case v of None \<Rightarrow> None | Some x \<Rightarrow> field_step x name)"

lemma follow_None [simp]: "follow None path = None"
  unfolding follow_def by (induction path) auto

lemma follow_Nil [simp]: "follow v [] = v"
  by (simp add: follow_def)

lemma follow_Cons [simp]: "follow (Some v) (k # path) = follow (field_step v k) path"
  by (simp add: follow_def)



end
