(* ===== verification/Zf_Composition.thy ===== *)
theory Zf_Composition
  imports Zf_Types Zf_Predicates
begin

text \<open>
  Declared flow interfaces and bridges, \<open>zf-flows/src/composition.rs\<close>: the data the resolver of
  \<open>Zf_Resolve\<close> works on, and the builder operations of a bridge definition. Nothing here
  executes; a \<open>BTreeSet\<close> is a strictly increasing list and a \<open>BTreeMap\<close> an ordered
  association list.
\<close>

record port_contract =
  port_input :: data_type
  port_output :: "data_type option"

datatype invocation_kind = Tool | Node | Condition | Context

record branch_point =
  branch_contract :: port_contract
  branch_invocations :: "invocation_kind list"
  branch_requesters :: "string list"

record data_permissions =
  perm_read :: bool
  perm_write :: bool

definition perm_contains :: "data_permissions \<Rightarrow> data_permissions \<Rightarrow> bool" where
  "perm_contains this other \<longleftrightarrow>
     (\<not> perm_read other \<or> perm_read this) \<and> (\<not> perm_write other \<or> perm_write this)"

record data_exposure =
  exposed_type :: data_type
  exposed_permissions :: data_permissions

record data_requirement =
  required_type :: data_type
  required_permissions :: data_permissions
  required_optional :: bool

datatype model_binding = Fixed string string | RuntimeModel

record inference_definition =
  inf_model :: model_binding
  inf_strategy :: "string option"
  inf_resources :: "string list"
  inf_capabilities :: "string list"

record flow_definition =
  flow_entries :: "(string, port_contract) btree"
  flow_branches :: "(string, branch_point) btree"
  flow_data :: "(string, data_exposure) btree"
  flow_requires :: "(string, data_requirement) btree"
  flow_inferences :: "(string, inference_definition) btree"

record flow_import =
  import_flow :: string
  import_reuse :: "string option"

record endpoint =
  end_instance :: string
  end_port :: string

datatype route_mode = CallAwait | Launch | Handoff

record connection =
  conn_from :: endpoint
  conn_to :: endpoint
  conn_mode :: route_mode
  conn_invocation :: invocation_kind
  conn_tool :: "string option"
  conn_condition :: "json option"

record data_binding =
  bind_from :: endpoint
  bind_to :: endpoint
  bind_permissions :: data_permissions

record bridge_definition =
  bridge_requires :: "string list"
  bridge_imports :: "(string, flow_import) btree"
  bridge_connections :: "(string, connection) btree"
  bridge_bindings :: "(string, data_binding) btree"

record composition_catalog =
  cat_types :: type_registry
  cat_flows :: "(string, flow_definition) btree"
  cat_bridges :: "(string, bridge_definition) btree"

record resolve_request =
  req_flow :: string
  req_entry :: string
  req_bridges :: "string list"

subsection \<open>Builders\<close>

definition read_only :: data_permissions where
  "read_only = \<lparr>perm_read = True, perm_write = False\<rparr>"

definition read_write :: data_permissions where
  "read_write = \<lparr>perm_read = True, perm_write = True\<rparr>"

definition new_connection :: "endpoint \<Rightarrow> endpoint \<Rightarrow> route_mode \<Rightarrow> invocation_kind \<Rightarrow> connection" where
  "new_connection from to mode invocation =
     \<lparr>conn_from = from, conn_to = to, conn_mode = mode, conn_invocation = invocation,
      conn_tool = None, conn_condition = None\<rparr>"

definition tool_connection :: "string \<Rightarrow> connection \<Rightarrow> connection" where
  "tool_connection name c = c\<lparr>conn_tool := Some name\<rparr>"

definition when_connection :: "json \<Rightarrow> connection \<Rightarrow> connection" where
  "when_connection p c = c\<lparr>conn_condition := Some p\<rparr>"

definition new_bridge :: bridge_definition where
  "new_bridge = \<lparr>bridge_requires = [], bridge_imports = [], bridge_connections = [], bridge_bindings = []\<rparr>"

definition require_bridge :: "string \<Rightarrow> bridge_definition \<Rightarrow> bridge_definition" where
  "require_bridge b d = d\<lparr>bridge_requires := bs_insert b (bridge_requires d)\<rparr>"

definition import_bridge :: "string \<Rightarrow> string \<Rightarrow> bridge_definition \<Rightarrow> bridge_definition" where
  "import_bridge alias flow d =
     d\<lparr>bridge_imports :=
       bt_insert alias \<lparr>import_flow = flow, import_reuse = None\<rparr> (bridge_imports d)\<rparr>"

definition reuse_bridge :: "string \<Rightarrow> string \<Rightarrow> string \<Rightarrow> bridge_definition \<Rightarrow> bridge_definition" where
  "reuse_bridge alias flow target d =
     d\<lparr>bridge_imports :=
       bt_insert alias \<lparr>import_flow = flow, import_reuse = Some target\<rparr> (bridge_imports d)\<rparr>"

definition connect_bridge :: "string \<Rightarrow> connection \<Rightarrow> bridge_definition \<Rightarrow> bridge_definition" where
  "connect_bridge name c d = d\<lparr>bridge_connections := bt_insert name c (bridge_connections d)\<rparr>"

definition bind_bridge ::
  "string \<Rightarrow> endpoint \<Rightarrow> endpoint \<Rightarrow> data_permissions \<Rightarrow> bridge_definition \<Rightarrow> bridge_definition" where
  "bind_bridge name from to permissions d =
     d\<lparr>bridge_bindings := bt_insert name
         \<lparr>bind_from = from, bind_to = to, bind_permissions = permissions\<rparr> (bridge_bindings d)\<rparr>"

subsection \<open>Well-formedness of the containers\<close>

text \<open>
  The invariants of the Rust types: the keys of every map and the elements of every set are
  strictly increasing.
\<close>

definition ordered_flow :: "flow_definition \<Rightarrow> bool" where
  "ordered_flow f \<longleftrightarrow>
     bt_ok (flow_entries f) \<and> bt_ok (flow_branches f) \<and> bt_ok (flow_data f)
     \<and> bt_ok (flow_requires f) \<and> bt_ok (flow_inferences f)"

definition ordered_bridge :: "bridge_definition \<Rightarrow> bool" where
  "ordered_bridge d \<longleftrightarrow>
     sorted_wrt (<) (bridge_requires d) \<and> bt_ok (bridge_imports d)
     \<and> bt_ok (bridge_connections d) \<and> bt_ok (bridge_bindings d)"

definition ordered_catalog :: "composition_catalog \<Rightarrow> bool" where
  "ordered_catalog c \<longleftrightarrow>
     bt_ok (cat_types c) \<and> bt_ok (cat_flows c) \<and> bt_ok (cat_bridges c)
     \<and> (\<forall>(k, f) \<in> set (cat_flows c). ordered_flow f)
     \<and> (\<forall>(k, d) \<in> set (cat_bridges c). ordered_bridge d)"

text \<open>The builders produce ordered bridges, whatever the order of the calls.\<close>

lemma builders_ordered [intro]:
  "ordered_bridge new_bridge"
  "ordered_bridge d \<Longrightarrow> ordered_bridge (require_bridge b d)"
  "ordered_bridge d \<Longrightarrow> ordered_bridge (import_bridge alias flow d)"
  "ordered_bridge d \<Longrightarrow> ordered_bridge (reuse_bridge alias flow target d)"
  "ordered_bridge d \<Longrightarrow> ordered_bridge (connect_bridge name c d)"
  "ordered_bridge d \<Longrightarrow> ordered_bridge (bind_bridge name from to permissions d)"
  by (simp_all add: ordered_bridge_def new_bridge_def require_bridge_def import_bridge_def
      reuse_bridge_def connect_bridge_def bind_bridge_def bs_insert_sorted bt_insert_ok)

lemma perm_contains_preorder:
  "perm_contains p p" "perm_contains p q \<Longrightarrow> perm_contains q r \<Longrightarrow> perm_contains p r"
  by (auto simp: perm_contains_def)

end
