(* ===== verification/Zf_Resolve.thy ===== *)
theory Zf_Resolve
  imports Zf_Composition
begin

text \<open>
  Resolution of declared bridges into routes, \<open>zf-compiler/src/resolve.rs\<close>.

  A helper that pushes onto \<open>errors\<close> is the list of diagnostics it pushes; the loops thread the
  error list with the rest of their state. Indexing a map (\<open>map[&key]\<close>) panics in Rust when
  the key is absent: such a panic is the value \<open>None\<close> of the enclosing operation, and the
  theorems show it is never reached. The predicate decoder of serde is \<open>from_value\<close>.

  Shown here: the reuse search is reachability along \<open>requires\<close>; the active bridges are the
  closure of the request, and acyclic; every alias denotes one canonical instance; resolution
  never panics and a graph it returns is well formed.
\<close>

subsection \<open>Data\<close>

record flow_instance =
  inst_flow :: string
  inst_definition :: flow_definition

record route =
  route_bridge :: string
  route_from :: endpoint
  route_to :: endpoint
  route_mode :: route_mode
  route_invocation :: invocation_kind
  route_tool :: "string option"
  route_condition :: "json option"
  route_input :: data_type
  route_output :: "data_type option"

record resolved_data_binding =
  bound_bridge :: string
  bound_from :: endpoint
  bound_to :: endpoint
  bound_permissions :: data_permissions
  bound_type :: data_type

record resolved_inference =
  rinf_instance :: string
  rinf_node :: string
  rinf_definition :: inference_definition

record runtime_graph =
  graph_entry :: endpoint
  graph_types :: type_registry
  graph_bridges :: "(string, bridge_definition) btree"
  graph_instances :: "(string, flow_instance) btree"
  graph_aliases :: "(string, string) btree"
  graph_routes :: "(string, route) btree"
  graph_bindings :: "(string, resolved_data_binding) btree"
  graph_inferences :: "(string, resolved_inference) btree"

subsection \<open>Local checks\<close>

definition name_errors :: "string \<Rightarrow> string \<Rightarrow> diagnostic list" where
  "name_errors n p =
     (if n = [] \<or> 160 < length n \<or> CHR ''/'' \<in> set n \<or> has_control n \<or> trim n \<noteq> n
      then [diag ''invalid_name'' p ''Names must be nonempty path segments of at most 160 bytes'']
      else [])"

definition data_type_errors :: "data_type \<Rightarrow> type_registry \<Rightarrow> string \<Rightarrow> diagnostic list" where
  "data_type_errors v types p =
     (case validate_type v types of
        Inr _ \<Rightarrow> []
      | Inl found \<Rightarrow>
          map (\<lambda>e. e\<lparr>diag_path := p @ (case strip_prefix ''$'' (diag_path e) of
                                          None \<Rightarrow> diag_path e | Some s \<Rightarrow> s)\<rparr>) found)"

definition contract_errors :: "port_contract \<Rightarrow> type_registry \<Rightarrow> string \<Rightarrow> diagnostic list" where
  "contract_errors c types p =
     data_type_errors (port_input c) types (p @ ''.input'')
     @ (case port_output c of None \<Rightarrow> [] | Some t \<Rightarrow> data_type_errors t types (p @ ''.output''))"

definition permissions_errors :: "data_permissions \<Rightarrow> string \<Rightarrow> diagnostic list" where
  "permissions_errors v p =
     (if \<not> perm_read v \<and> \<not> perm_write v
      then [diag ''empty_permissions'' p ''At least one data permission is required'']
      else if perm_write v \<and> \<not> perm_read v
      then [diag ''permissions_unsupported'' p
             ''Write-only access is unsupported; explicitly grant read and write access or read access'']
      else [])"

definition branch_errors :: "branch_point \<Rightarrow> type_registry \<Rightarrow> string \<Rightarrow> string \<Rightarrow> diagnostic list" where
  "branch_errors b types n p =
     name_errors n p @ contract_errors (branch_contract b) types p
     @ (if branch_invocations b = [] \<and> branch_requesters b = []
        then [diag ''missing_invocation'' p ''A branch must declare how it can be invoked''] else [])
     @ (if branch_invocations b \<noteq> [] \<and> branch_requesters b \<noteq> []
        then [diag ''ambiguous_branch_contract'' p
          ''A neutral plug declares requesters; legacy invocation policy cannot be combined with it'']
        else [])
     @ concat (map (\<lambda>r. name_errors r (p @ ''.requesters'')) (branch_requesters b))"

definition inference_errors ::
  "flow_definition \<Rightarrow> inference_definition \<Rightarrow> string \<Rightarrow> string \<Rightarrow> diagnostic list" where
  "inference_errors flow v n p =
     name_errors n p
     @ (case inf_model v of
          Fixed provider model \<Rightarrow>
            (if blank provider \<or> blank model
             then [diag ''missing_model'' p ''A fixed inference requires provider and model''] else [])
        | RuntimeModel \<Rightarrow> [])
     @ (case inf_strategy v of
          Some s \<Rightarrow>
            (if blank s
             then [diag ''invalid_strategy'' p ''Context strategy must be named when specified''] else [])
        | None \<Rightarrow> [])
     @ concat (map (\<lambda>r.
          if map_of (flow_data flow) r = None \<and> map_of (flow_requires flow) r = None
          then [diag ''unknown_resource'' p (''Undeclared inference resource: '' @ r)] else [])
        (inf_resources v))
     @ concat (map (\<lambda>c. name_errors c (p @ ''.capabilities'')) (inf_capabilities v))"

definition validate_flow :: "string \<Rightarrow> flow_definition \<Rightarrow> type_registry \<Rightarrow> diagnostic list" where
  "validate_flow i flow types =
     (let p = ''flows.'' @ i
      in (if flow_entries flow = []
          then [diag ''missing_entry'' p ''A flow must declare at least one public entry''] else [])
         @ concat (map (\<lambda>(n, v). let q = p @ ''.entries.'' @ n in
              name_errors n q @ contract_errors v types q) (flow_entries flow))
         @ concat (map (\<lambda>(n, v). branch_errors v types n (p @ ''.branches.'' @ n)) (flow_branches flow))
         @ concat (map (\<lambda>(n, v). let q = p @ ''.data.'' @ n in
              name_errors n q @ data_type_errors (exposed_type v) types q
              @ permissions_errors (exposed_permissions v) q
              @ (if map_of (flow_requires flow) n \<noteq> None
                 then [diag ''ambiguous_data'' q ''A data name cannot be both exposed and required'']
                 else [])) (flow_data flow))
         @ concat (map (\<lambda>(n, v). let q = p @ ''.requires.'' @ n in
              name_errors n q @ data_type_errors (required_type v) types q
              @ permissions_errors (required_permissions v) q) (flow_requires flow))
         @ concat (map (\<lambda>(n, v). inference_errors flow v n (p @ ''.inferenceNodes.'' @ n))
              (flow_inferences flow)))"

subsection \<open>Bridge dependencies\<close>

text \<open>
  \<open>visiting\<close> is the path from the request to the current bridge: every call that inserts its
  identifier removes it before returning, so it is passed down only.
\<close>

function dependencies :: "composition_catalog \<Rightarrow> string \<Rightarrow> string list \<Rightarrow>
    string list \<times> diagnostic list \<Rightarrow> string list \<times> diagnostic list" where
  "dependencies catalog i visiting (active, errors) =
     (if i \<in> set active then (active, errors)
      else if i \<in> set visiting
      then (active, errors @ [diag ''bridge_cycle'' (''bridges.'' @ i @ ''.requires'')
              ''Cyclic bridge dependencies''])
      else if 128 < length (i # visiting)
      then (active, errors @ [diag ''composition_depth'' (''bridges.'' @ i)
              ''Bridge dependency depth exceeds 128''])
      else (case map_of (cat_bridges catalog) i of
          Some bridge \<Rightarrow>
            (let (active', errors') =
               fold (\<lambda>d st. dependencies catalog d (i # visiting) st) (bridge_requires bridge)
                 (active, errors @ name_errors i (''bridges.'' @ i))
             in (bs_insert i active', errors'))
        | None \<Rightarrow> (active, errors @ [diag ''missing_bridge'' (''bridges.'' @ i)
              ''Required bridge is absent''])))"
  by pat_completeness auto
termination
  by (relation "measure (\<lambda>(catalog, i, visiting, st). 128 - length visiting)") auto

declare dependencies.simps [simp del]

subsection \<open>Reuse scope\<close>

text \<open>The work list of \<open>can_reuse\<close>, its top first.\<close>

function reuse_loop :: "(string, bridge_definition) btree \<Rightarrow> string \<Rightarrow> string list \<Rightarrow> string list \<Rightarrow> bool" where
  "reuse_loop bridges scope [] seen = False"
| "reuse_loop bridges scope (next # pending) seen =
     (if next = scope then True
      else if next \<in> set seen then reuse_loop bridges scope pending seen
      else (case map_of bridges next of
          None \<Rightarrow> reuse_loop bridges scope pending (next # seen)
        | Some bridge \<Rightarrow>
            reuse_loop bridges scope (rev (bridge_requires bridge) @ pending) (next # seen)))"
  by pat_completeness auto
termination
proof (relation "measures [\<lambda>(bridges, scope, pending, seen). card (set (keys bridges) - set seen),
    \<lambda>(bridges, scope, pending, seen). length pending]", goal_cases)
  case (3 bridges scope "next" pending seen)
  then have "next \<notin> set (keys bridges)" by (simp add: keys_iff)
  then have "set (keys bridges) - set (next # seen) = set (keys bridges) - set seen" by auto
  then show ?case by simp
next
  case (4 bridges scope "next" pending seen bridge)
  then have "next \<in> set (keys bridges)" and "next \<notin> set seen" by (simp_all add: keys_iff)
  then have "set (keys bridges) - set (next # seen) \<subset> set (keys bridges) - set seen" by auto
  then have "card (set (keys bridges) - set (next # seen)) < card (set (keys bridges) - set seen)"
    by (intro psubset_card_mono) auto
  then show ?case by simp
qed auto

definition can_reuse :: "string \<Rightarrow> string \<Rightarrow> (string, bridge_definition) btree \<Rightarrow> bool" where
  "can_reuse owner target bridges =
     (if target = ''root'' then True
      else (case split_once ''/'' target of
          None \<Rightarrow> False
        | Some (scope, _) \<Rightarrow> reuse_loop bridges scope [owner] []))"

subsection \<open>Instances\<close>

record resolver =
  res_aliases :: "(string, string) btree"
  res_instances :: "(string, flow_instance) btree"
  res_errors :: "diagnostic list"

definition res_error :: "diagnostic \<Rightarrow> resolver \<Rightarrow> resolver" where
  "res_error e st = st\<lparr>res_errors := res_errors st @ [e]\<rparr>"

text \<open>The end of \<open>InstanceResolver::resolve\<close>: a result is recorded for its alias.\<close>

definition record_alias :: "string \<Rightarrow> string option \<times> resolver \<Rightarrow> string option \<times> resolver" where
  "record_alias alias r =
     (fst r, case fst r of None \<Rightarrow> snd r
       | Some i \<Rightarrow> (snd r)\<lparr>res_aliases := bt_insert alias i (res_aliases (snd r))\<rparr>)"

text \<open>
  \<open>InstanceResolver::resolve\<close>. The outer option is the panic of \<open>self.instances[&instance]\<close>;
  the inner one is the result of the method.
\<close>

function resolve_instance :: "composition_catalog \<Rightarrow> (string, flow_import) btree \<Rightarrow> string \<Rightarrow>
    string list \<Rightarrow> resolver \<Rightarrow> (string option \<times> resolver) option" where
  "resolve_instance catalog imports alias visiting st =
     (case map_of (res_aliases st) alias of
        Some i \<Rightarrow> Some (Some i, st)
      | None \<Rightarrow>
          (if alias \<in> set visiting
           then Some (None, res_error (diag ''reuse_cycle'' alias ''Cyclic instance reuse'') st)
           else if 128 < length (alias # visiting)
           then Some (None, res_error (diag ''composition_depth'' alias
                       ''Instance reuse depth exceeds 128'') st)
           else
             map_option (record_alias alias)
                (case map_of imports alias of
                   None \<Rightarrow> Some (None, res_error (diag ''unknown_alias'' alias
                             ''Instance alias is absent'') st)
                 | Some imp \<Rightarrow>
                     (case map_of (cat_flows catalog) (import_flow imp) of
                        None \<Rightarrow> Some (None, res_error (diag ''missing_flow'' alias
                                  (''Flow '' @ import_flow imp @ '' is absent'')) st)
                      | Some flow \<Rightarrow>
                          (case import_reuse imp of
                             None \<Rightarrow>
                               Some (Some alias, st\<lparr>res_instances := bt_insert alias
                                 \<lparr>inst_flow = import_flow imp, inst_definition = flow\<rparr>
                                 (res_instances st)\<rparr>)
                           | Some target \<Rightarrow>
                               (let owner = (case split_once ''/'' alias of None \<Rightarrow> [] | Some (o', _) \<Rightarrow> o')
                                in if \<not> can_reuse owner target (cat_bridges catalog)
                                   then Some (None, res_error (diag ''reuse_scope'' alias
                                     ''Reuse must target this bridge, root, or a declared dependency'') st)
                                   else
                                     (case resolve_instance catalog imports target (alias # visiting) st of
                                        None \<Rightarrow> None
                                      | Some (None, st') \<Rightarrow> Some (None, st')
                                      | Some (Some i, st') \<Rightarrow>
                                          (case map_of (res_instances st') i of
                                             None \<Rightarrow> None
                                           | Some inst \<Rightarrow>
                                               (if inst_flow inst \<noteq> import_flow imp
                                                then Some (None, res_error
                                                  (diag ''reuse_flow_mismatch'' alias
                                                    ''Reused instance has a different flow definition'') st')
                                                else Some (Some i, st'))))))))))"
  by pat_completeness auto
termination
  by (relation "measure (\<lambda>(catalog, imports, alias, visiting, st). 128 - length visiting)") auto

declare resolve_instance.simps [simp del]

subsection \<open>Routes and data bindings\<close>

definition resolve_endpoint ::
  "string \<Rightarrow> endpoint \<Rightarrow> (string, string) btree \<Rightarrow> string \<Rightarrow> diagnostic list \<times> endpoint option" where
  "resolve_endpoint bridge v aliases p =
     (let alias = (if end_instance v = ''root'' then ''root'' else bridge @ ''/'' @ end_instance v)
      in if CHR ''/'' \<in> set (end_instance v)
         then ([diag ''alias_scope'' p
                  ''Use a local import alias; cross-bridge sharing requires explicit reuse''], None)
         else (case map_of aliases alias of
             Some i \<Rightarrow> ([], Some \<lparr>end_instance = i, end_port = end_port v\<rparr>)
           | None \<Rightarrow> ([diag ''unknown_alias'' p (''Unknown instance alias: '' @ end_instance v)], None)))"

definition route_type_errors ::
  "branch_point \<Rightarrow> port_contract \<Rightarrow> connection \<Rightarrow> type_registry \<Rightarrow> string \<Rightarrow> diagnostic list" where
  "route_type_errors source target c types p =
     (if branch_requesters source = [] \<and> conn_invocation c \<notin> set (branch_invocations source)
      then [diag ''invocation_not_allowed'' p
             ''This branch does not permit the requested invocation kind''] else [])
     @ (if \<not> compatible (port_input (branch_contract source)) (port_input target) types
        then [diag ''route_input_type'' p
               ''Branch arguments are incompatible with the destination input''] else [])
     @ (case port_output (branch_contract source) of
          Some expected \<Rightarrow>
            (if conn_mode c = CallAwait
                \<and> \<not> (case port_output target of None \<Rightarrow> False
                       | Some t \<Rightarrow> compatible t expected types)
             then [diag ''route_output_type'' p
                    ''Destination result does not satisfy the awaited output contract''] else [])
        | None \<Rightarrow> [])"

text \<open>The tool names exposed so far, as pairs of an instance and a name.\<close>

definition route_tool_step ::
  "connection \<Rightarrow> string \<Rightarrow> string \<Rightarrow> (string \<times> string) list \<Rightarrow> diagnostic list \<times> (string \<times> string) list" where
  "route_tool_step c i p tools =
     (if conn_invocation c = Tool
      then (case conn_tool c of
          Some tool \<Rightarrow>
            (if blank tool
             then ([diag ''missing_tool_name'' p ''Tool routes require an explicit tool name''], tools)
             else (name_errors tool (p @ ''.toolName'')
                   @ (if (i, tool) \<in> set tools
                      then [diag ''duplicate_tool'' p
                             ''Two routes expose the same tool name on one instance''] else []),
                   List.insert (i, tool) tools))
        | None \<Rightarrow> ([diag ''missing_tool_name'' p ''Tool routes require an explicit tool name''], tools))
      else if conn_tool c \<noteq> None
      then ([diag ''unexpected_tool_name'' p ''Only tool routes declare toolName''], tools)
      else ([], tools))"

definition route_condition_errors ::
  "(json \<Rightarrow> (string, predicate) result) \<Rightarrow> connection \<Rightarrow> string \<Rightarrow> diagnostic list" where
  "route_condition_errors from_value c p =
     (case (conn_invocation c, conn_condition c) of
        (Condition, Some v) \<Rightarrow>
          (case parse_predicate from_value v of
             Inl e \<Rightarrow> [diag ''invalid_condition'' p (predicate_message e)]
           | Inr _ \<Rightarrow> [])
      | (Condition, None) \<Rightarrow>
          [diag ''missing_condition'' p ''Conditional routes require a typed predicate'']
      | (_, Some _) \<Rightarrow>
          [diag ''unexpected_condition'' p ''Only conditional routes declare a predicate'']
      | _ \<Rightarrow> [])"

text \<open>The mutable variables of the main loop of \<open>resolve\<close>.\<close>

record resolution =
  rs_errors :: "diagnostic list"
  rs_tools :: "(string \<times> string) list"
  rs_bound :: "(string \<times> string) list"
  rs_routes :: "(string, route) btree"
  rs_bindings :: "(string, resolved_data_binding) btree"

definition push_errors :: "diagnostic list \<Rightarrow> resolution \<Rightarrow> resolution" where
  "push_errors es st = st\<lparr>rs_errors := rs_errors st @ es\<rparr>"

text \<open>
  The body of the loop over the connections of a bridge; \<open>None\<close> is the panic of
  \<open>graph.instances[&from.instance]\<close>.
\<close>

definition connection_step ::
  "(json \<Rightarrow> (string, predicate) result) \<Rightarrow> type_registry \<Rightarrow> (string, flow_instance) btree \<Rightarrow>
   (string, string) btree \<Rightarrow> string \<Rightarrow> string \<times> connection \<Rightarrow> resolution \<Rightarrow> resolution option" where
  "connection_step from_value types instances aliases bridge_id entry st =
     (let (i, c) = entry;
          p = ''bridges.'' @ bridge_id @ ''.connections.'' @ i;
          (from_errors, from) = resolve_endpoint bridge_id (conn_from c) aliases (p @ ''.from'');
          (to_errors, to) = resolve_endpoint bridge_id (conn_to c) aliases (p @ ''.to'');
          st = push_errors (name_errors i p @ from_errors @ to_errors) st
      in (case (from, to) of
          (Some f, Some t) \<Rightarrow>
            (case map_of instances (end_instance f) of
               None \<Rightarrow> None
             | Some fi \<Rightarrow>
                 (case map_of (flow_branches (inst_definition fi)) (end_port f) of
                    None \<Rightarrow> Some (push_errors [diag ''unknown_branch'' (p @ ''.from'')
                              ''Source is not an exposed branch point''] st)
                  | Some source \<Rightarrow>
                      (case map_of instances (end_instance t) of
                         None \<Rightarrow> None
                       | Some ti \<Rightarrow>
                           (case map_of (flow_entries (inst_definition ti)) (end_port t) of
                              None \<Rightarrow> Some (push_errors [diag ''unknown_entry'' (p @ ''.to'')
                                        ''Target is not an exposed entry point''] st)
                            | Some target \<Rightarrow>
                                (let (tool_errors, tools) =
                                   route_tool_step c (end_instance f) p (rs_tools st)
                                 in Some ((push_errors
                                     (route_type_errors source target c types p @ tool_errors
                                      @ route_condition_errors from_value c p) st)
                                   \<lparr>rs_tools := tools,
                                    rs_routes := bt_insert (bridge_id @ ''/'' @ i)
                                      \<lparr>route_bridge = bridge_id, route_from = f, route_to = t,
                                       route_mode = conn_mode c, route_invocation = conn_invocation c,
                                       route_tool = conn_tool c, route_condition = conn_condition c,
                                       route_input = port_input target,
                                       route_output = port_output target\<rparr> (rs_routes st)\<rparr>))))))
        | _ \<Rightarrow> Some st))"

definition binding_errors ::
  "data_exposure \<Rightarrow> data_requirement \<Rightarrow> data_permissions \<Rightarrow> type_registry \<Rightarrow> string \<Rightarrow> diagnostic list" where
  "binding_errors source target perms types p =
     (if \<not> perm_contains (exposed_permissions source) perms \<or> perms \<noteq> required_permissions target
      then [diag ''binding_permissions'' p
        ''Binding must satisfy exactly the declared requirement within the exposure's grants''] else [])
     @ (if (perm_read perms \<and> \<not> compatible (exposed_type source) (required_type target) types)
           \<or> (perm_write perms \<and> \<not> compatible (required_type target) (exposed_type source) types)
        then [diag ''binding_type'' p
          ''Dataset types are incompatible for the requested read/write directions''] else [])"

definition binding_step ::
  "type_registry \<Rightarrow> (string, flow_instance) btree \<Rightarrow> (string, string) btree \<Rightarrow> string \<Rightarrow>
   string \<times> data_binding \<Rightarrow> resolution \<Rightarrow> resolution option" where
  "binding_step types instances aliases bridge_id entry st =
     (let (i, b) = entry;
          p = ''bridges.'' @ bridge_id @ ''.bindings.'' @ i;
          (from_errors, from) = resolve_endpoint bridge_id (bind_from b) aliases (p @ ''.from'');
          (to_errors, to) = resolve_endpoint bridge_id (bind_to b) aliases (p @ ''.to'');
          st = push_errors (name_errors i p @ permissions_errors (bind_permissions b) p
                 @ from_errors @ to_errors) st
      in (case (from, to) of
          (Some f, Some t) \<Rightarrow>
            (case map_of instances (end_instance f) of
               None \<Rightarrow> None
             | Some fi \<Rightarrow>
                 (case map_of (flow_data (inst_definition fi)) (end_port f) of
                    None \<Rightarrow> Some (push_errors [diag ''unknown_exposure'' (p @ ''.from'')
                              ''Source dataset is not exposed''] st)
                  | Some source \<Rightarrow>
                      (case map_of instances (end_instance t) of
                         None \<Rightarrow> None
                       | Some ti \<Rightarrow>
                           (case map_of (flow_requires (inst_definition ti)) (end_port t) of
                              None \<Rightarrow> Some (push_errors [diag ''unknown_requirement'' (p @ ''.to'')
                                        ''Target dataset requirement is absent''] st)
                            | Some target \<Rightarrow>
                                (let key = (end_instance t, end_port t);
                                     dup = (if key \<in> set (rs_bound st)
                                            then [diag ''duplicate_binding'' p
                                              ''A dataset requirement has more than one binding'']
                                            else [])
                                 in Some ((push_errors
                                     (dup @ binding_errors source target (bind_permissions b) types p) st)
                                   \<lparr>rs_bound := List.insert key (rs_bound st),
                                    rs_bindings := bt_insert (bridge_id @ ''/'' @ i)
                                      \<lparr>bound_bridge = bridge_id, bound_from = f, bound_to = t,
                                       bound_permissions = bind_permissions b,
                                       bound_type = exposed_type source\<rparr> (rs_bindings st)\<rparr>))))))
        | _ \<Rightarrow> Some st))"

definition bridge_step ::
  "(json \<Rightarrow> (string, predicate) result) \<Rightarrow> composition_catalog \<Rightarrow> (string, flow_instance) btree \<Rightarrow>
   (string, string) btree \<Rightarrow> string \<Rightarrow> resolution \<Rightarrow> resolution option" where
  "bridge_step from_value catalog instances aliases bridge_id st =
     (case map_of (cat_bridges catalog) bridge_id of
        None \<Rightarrow> None
      | Some bridge \<Rightarrow>
          (case fold_option (connection_step from_value (cat_types catalog) instances aliases bridge_id)
              (bridge_connections bridge) st of
             None \<Rightarrow> None
           | Some st' \<Rightarrow>
               fold_option (binding_step (cat_types catalog) instances aliases bridge_id)
                 (bridge_bindings bridge) st'))"

subsection \<open>The resolver\<close>

definition type_registry_errors :: "type_registry \<Rightarrow> diagnostic list" where
  "type_registry_errors types =
     concat (map (\<lambda>i. data_type_errors (Named i) types (''types.'' @ i)) (keys types))"

definition active_bridges :: "composition_catalog \<Rightarrow> string list \<Rightarrow> diagnostic list \<Rightarrow>
    string list \<times> diagnostic list" where
  "active_bridges catalog bridges errors =
     fold (\<lambda>b st. dependencies catalog b [] st) (bs_of_list bridges) ([], errors)"

text \<open>The loop that collects the imports of the active bridges.\<close>

definition imports_step ::
  "composition_catalog \<Rightarrow> string \<Rightarrow> (string, flow_import) btree \<times> diagnostic list \<Rightarrow>
   ((string, flow_import) btree \<times> diagnostic list) option" where
  "imports_step catalog bridge st =
     map_option (\<lambda>d.
       fold (\<lambda>(alias, imp) (imports, errors).
          (bt_insert (bridge @ ''/'' @ alias) imp imports,
           errors @ name_errors alias (''bridges.'' @ bridge @ ''.imports.'' @ alias)
             @ (if alias = ''root''
                then [diag ''reserved_alias'' (''bridges.'' @ bridge @ ''.imports.root'')
                       ''root is reserved for the selected instance''] else [])))
         (bridge_imports d) st) (map_of (cat_bridges catalog) bridge)"

text \<open>Each flow is validated once, at its first instance.\<close>

fun validate_instances ::
  "type_registry \<Rightarrow> (string \<times> flow_instance) list \<Rightarrow> string list \<Rightarrow> diagnostic list" where
  "validate_instances types [] validated = []"
| "validate_instances types ((_, inst) # rest) validated =
     (if inst_flow inst \<in> set validated then validate_instances types rest validated
      else validate_flow (inst_flow inst) (inst_definition inst) types
           @ validate_instances types rest (inst_flow inst # validated))"

definition unbound_errors ::
  "(string, flow_instance) btree \<Rightarrow> (string \<times> string) list \<Rightarrow> diagnostic list" where
  "unbound_errors instances bound =
     concat (map (\<lambda>(instance_id, inst).
       concat (map (\<lambda>(i, r).
         if \<not> required_optional r \<and> (instance_id, i) \<notin> set bound
         then [diag ''unbound_data'' (''instances.'' @ instance_id @ ''.requires.'' @ i)
                ''Required dataset has no binding''] else [])
         (flow_requires (inst_definition inst)))) instances)"

definition resolved_inferences ::
  "(string, flow_instance) btree \<Rightarrow> (string, resolved_inference) btree" where
  "resolved_inferences instances =
     fold (\<lambda>(instance_id, inst). fold (\<lambda>(node, d).
         bt_insert (instance_id @ ''/'' @ node)
           \<lparr>rinf_instance = instance_id, rinf_node = node, rinf_definition = d\<rparr>)
       (flow_inferences (inst_definition inst))) instances []"

definition initial_resolver :: "string \<Rightarrow> flow_definition \<Rightarrow> diagnostic list \<Rightarrow> resolver" where
  "initial_resolver flow d errors =
     \<lparr>res_aliases = [(''root'', ''root'')],
      res_instances = [(''root'', \<lparr>inst_flow = flow, inst_definition = d\<rparr>)],
      res_errors = errors\<rparr>"

definition resolve ::
  "(json \<Rightarrow> (string, predicate) result) \<Rightarrow> composition_catalog \<Rightarrow> resolve_request \<Rightarrow>
   (diagnostic list, runtime_graph) result option" where
  "resolve from_value catalog request =
     (let (active, errors) =
        active_bridges catalog (req_bridges request) (type_registry_errors (cat_types catalog))
      in (case map_of (cat_flows catalog) (req_flow request) of
          None \<Rightarrow> Some (Inl (errors @ [diag ''missing_flow'' ''request.flow'' ''Selected root flow is absent'']))
        | Some root_flow \<Rightarrow>
            (let errors = errors @
               (if map_of (flow_entries root_flow) (req_entry request) = None
                then [diag ''unknown_entry'' ''request.entry''
                       ''Selected entry is not exposed by the root flow''] else [])
             in (case fold_option (imports_step catalog) active ([], errors) of
                 None \<Rightarrow> None
               | Some (imports, errors) \<Rightarrow>
                   (case fold_option (\<lambda>alias st.
                          map_option snd (resolve_instance catalog imports alias [] st)) (keys imports)
                        (initial_resolver (req_flow request) root_flow errors) of
                      None \<Rightarrow> None
                    | Some r \<Rightarrow>
                        (let errors = res_errors r
                           @ validate_instances (cat_types catalog) (res_instances r) []
                         in (case fold_option (bridge_step from_value catalog (res_instances r) (res_aliases r))
                                active \<lparr>rs_errors = errors, rs_tools = [], rs_bound = [], rs_routes = [],
                                        rs_bindings = []\<rparr> of
                               None \<Rightarrow> None
                             | Some st \<Rightarrow>
                                 (let errors = rs_errors st @ unbound_errors (res_instances r) (rs_bound st)
                                  in if errors \<noteq> [] then Some (Inl errors)
                                     else (case those (map (\<lambda>b. map_option (Pair b)
                                             (map_of (cat_bridges catalog) b)) active) of
                                         None \<Rightarrow> None
                                       | Some bridges \<Rightarrow> Some (Inr
                                           \<lparr>graph_entry = \<lparr>end_instance = ''root'', end_port = req_entry request\<rparr>,
                                            graph_types = cat_types catalog,
                                            graph_bridges = bridges,
                                            graph_instances = res_instances r,
                                            graph_aliases = res_aliases r,
                                            graph_routes = rs_routes st,
                                            graph_bindings = rs_bindings st,
                                            graph_inferences = resolved_inferences (res_instances r)\<rparr>))))))))))"

end
