(* ===== verification/Zf_Resolve_Facts.thy ===== *)
theory Zf_Resolve_Facts
  imports Zf_Resolve
begin

text \<open>
  Correctness of the resolver of \<open>Zf_Resolve\<close>: reuse scope, bridge dependencies, instances and
  the resolved graph.
\<close>

subsection \<open>Reuse scope is reachability\<close>

definition requires_rel :: "(string, bridge_definition) btree \<Rightarrow> (string \<times> string) set" where
  "requires_rel bridges = {(a, b). \<exists>d. map_of bridges a = Some d \<and> b \<in> set (bridge_requires d)}"

lemma requires_relI: "map_of bridges a = Some d \<Longrightarrow> b \<in> set (bridge_requires d) \<Longrightarrow>
    (a, b) \<in> requires_rel bridges"
  by (auto simp: requires_rel_def)

lemma reuse_loop_sound:
  "reuse_loop bridges scope pending seen \<Longrightarrow> \<exists>p \<in> set pending. (p, scope) \<in> (requires_rel bridges)\<^sup>*"
proof (induction bridges scope pending seen rule: reuse_loop.induct)
  case (2 bridges scope "next" pending seen)
  show ?case
  proof (cases "map_of bridges next")
    case None
    with 2 show ?thesis by (auto split: if_splits)
  next
    case (Some d)
    with 2 show ?thesis
      by (auto split: if_splits intro: converse_rtrancl_into_rtrancl [OF requires_relI])
  qed
qed simp

text \<open>A failed search leaves behind a set closed under \<open>requires\<close> that misses the scope.\<close>

lemma reuse_loop_complete:
  assumes "\<not> reuse_loop bridges scope pending seen" and "scope \<notin> set seen"
    and "requires_rel bridges `` set seen \<subseteq> set seen \<union> set pending"
  shows "\<exists>C. set seen \<union> set pending \<subseteq> C \<and> scope \<notin> C \<and> requires_rel bridges `` C \<subseteq> C"
  using assms
proof (induction bridges scope pending seen rule: reuse_loop.induct)
  case (2 bridges scope "next" pending seen)
  then have "next \<noteq> scope" by auto
  consider "next \<in> set seen" | "next \<notin> set seen" "map_of bridges next = None"
    | d where "next \<notin> set seen" "map_of bridges next = Some d" by blast
  then show ?case
  proof cases
    case 1
    with "2.prems" \<open>next \<noteq> scope\<close> have "\<not> reuse_loop bridges scope pending seen"
      and "requires_rel bridges `` set seen \<subseteq> set seen \<union> set pending" by auto
    from "2.IH"(1) [OF \<open>next \<noteq> scope\<close> 1 this(1) "2.prems"(2) this(2)] 1
    show ?thesis by (simp add: insert_absorb)
  next
    case 2
    then have "requires_rel bridges `` {next} = {}" by (auto simp: requires_rel_def)
    with "2.prems" have "requires_rel bridges `` set (next # seen) \<subseteq> set (next # seen) \<union> set pending"
      by auto
    with "2.IH"(2) 2 "2.prems" \<open>next \<noteq> scope\<close> show ?thesis by auto
  next
    case 3
    then have "requires_rel bridges `` {next} = set (bridge_requires d)" by (auto simp: requires_rel_def)
    with "2.prems" have "requires_rel bridges `` set (next # seen)
        \<subseteq> set (next # seen) \<union> set (rev (bridge_requires d) @ pending)"
      by auto
    with "2.IH"(3) [of d] 3 "2.prems" \<open>next \<noteq> scope\<close>
    obtain C where "set (next # seen) \<union> set (rev (bridge_requires d) @ pending) \<subseteq> C"
      and "scope \<notin> C" and "requires_rel bridges `` C \<subseteq> C" by auto
    then show ?thesis by (intro exI [of _ C]) auto
  qed
qed auto

text \<open>
  Reuse is granted exactly for the root instance and for instances of the owning bridge or of
  a bridge it transitively requires; the search terminates on cyclic requirements too.
\<close>

lemma can_reuse_iff:
  "can_reuse owner target bridges \<longleftrightarrow>
     target = ''root'' \<or>
     (\<exists>scope rest. split_once ''/'' target = Some (scope, rest)
        \<and> (owner, scope) \<in> (requires_rel bridges)\<^sup>*)"
proof -
  have "reuse_loop bridges scope [owner] [] \<longleftrightarrow> (owner, scope) \<in> (requires_rel bridges)\<^sup>*" for scope
  proof
    assume "reuse_loop bridges scope [owner] []"
    from reuse_loop_sound [OF this] show "(owner, scope) \<in> (requires_rel bridges)\<^sup>*" by simp
  next
    assume path: "(owner, scope) \<in> (requires_rel bridges)\<^sup>*"
    show "reuse_loop bridges scope [owner] []"
    proof (rule ccontr)
      assume "\<not> reuse_loop bridges scope [owner] []"
      from reuse_loop_complete [OF this] obtain C
        where "owner \<in> C" and "scope \<notin> C" and "requires_rel bridges `` C \<subseteq> C" by auto
      with path show False using Image_closed_trancl [of "requires_rel bridges" C] by blast
    qed
  qed
  then show ?thesis by (auto simp: can_reuse_def split: option.splits)
qed

subsection \<open>Active bridges\<close>

definition name_ok :: "string \<Rightarrow> bool" where
  "name_ok n \<longleftrightarrow> name_errors n [] = []"

lemma name_errors_Nil [simp]: "name_errors n p = [] \<longleftrightarrow> name_ok n"
  by (simp add: name_errors_def name_ok_def)

lemma name_ok_no_slash: "name_ok n \<Longrightarrow> CHR ''/'' \<notin> set n"
  by (auto simp: name_errors_def name_ok_def split: if_splits)

text \<open>A set of bridges that can be active: declared, named, closed and without cycles.\<close>

definition valid_active :: "composition_catalog \<Rightarrow> string set \<Rightarrow> bool" where
  "valid_active catalog A \<longleftrightarrow>
     A \<subseteq> set (keys (cat_bridges catalog)) \<and> (\<forall>a \<in> A. name_ok a)
     \<and> requires_rel (cat_bridges catalog) `` A \<subseteq> A
     \<and> (\<forall>a \<in> A. (a, a) \<notin> (requires_rel (cat_bridges catalog))\<^sup>+)"

lemma acyclic_insert:
  assumes "R `` A \<subseteq> A" and "R `` {i} \<subseteq> A" and "i \<notin> A" and "\<forall>a \<in> A. (a, a) \<notin> R\<^sup>+"
  shows "(i, i) \<notin> R\<^sup>+"
proof
  assume "(i, i) \<in> R\<^sup>+"
  then obtain b where "(i, b) \<in> R" and "(b, i) \<in> R\<^sup>*" by (meson tranclD)
  moreover from this(1) assms(2) have "b \<in> A" by auto
  ultimately have "i \<in> A" using Image_closed_trancl [OF assms(1)] by blast
  with assms(3) show False by simp
qed

text \<open>What a call of \<open>dependencies\<close> (or a loop over several) does to its state.\<close>

definition dep_post :: "composition_catalog \<Rightarrow> string list \<Rightarrow> string list \<Rightarrow>
    string list \<times> diagnostic list \<Rightarrow> string list \<times> diagnostic list \<Rightarrow> bool" where
  "dep_post catalog visiting is s s' \<longleftrightarrow>
     (\<exists>ds. snd s' = snd s @ ds)
     \<and> set (fst s) \<subseteq> set (fst s')
     \<and> set visiting \<inter> set (fst s') \<subseteq> set (fst s)
     \<and> (sorted_wrt (<) (fst s) \<longrightarrow> sorted_wrt (<) (fst s'))
     \<and> set (fst s') \<subseteq> set (keys (cat_bridges catalog)) \<union> set (fst s)
     \<and> (\<forall>x \<in> set (fst s') - set (fst s). \<exists>i \<in> set is. (i, x) \<in> (requires_rel (cat_bridges catalog))\<^sup>*)
     \<and> (snd s' = snd s \<longrightarrow> set is \<subseteq> set (fst s')
          \<and> (valid_active catalog (set (fst s)) \<longrightarrow> valid_active catalog (set (fst s'))))"

lemma dep_postD:
  assumes "dep_post catalog v is s s'"
  shows "\<exists>ds. snd s' = snd s @ ds" and "set (fst s) \<subseteq> set (fst s')"
    and "set v \<inter> set (fst s') \<subseteq> set (fst s)"
    and "sorted_wrt (<) (fst s) \<Longrightarrow> sorted_wrt (<) (fst s')"
    and "set (fst s') \<subseteq> set (keys (cat_bridges catalog)) \<union> set (fst s)"
    and "x \<in> set (fst s') \<Longrightarrow> x \<in> set (fst s) \<or>
           (\<exists>i \<in> set is. (i, x) \<in> (requires_rel (cat_bridges catalog))\<^sup>*)"
    and "snd s' = snd s \<Longrightarrow> set is \<subseteq> set (fst s')"
    and "snd s' = snd s \<Longrightarrow> valid_active catalog (set (fst s)) \<Longrightarrow> valid_active catalog (set (fst s'))"
  using assms unfolding dep_post_def by blast+

lemma dep_postI:
  assumes "snd s' = snd s @ ds" and "set (fst s) \<subseteq> set (fst s')"
    and "set v \<inter> set (fst s') \<subseteq> set (fst s)"
    and "sorted_wrt (<) (fst s) \<Longrightarrow> sorted_wrt (<) (fst s')"
    and "set (fst s') \<subseteq> set (keys (cat_bridges catalog)) \<union> set (fst s)"
    and "\<And>x. x \<in> set (fst s') \<Longrightarrow> x \<notin> set (fst s) \<Longrightarrow>
           \<exists>i \<in> set is. (i, x) \<in> (requires_rel (cat_bridges catalog))\<^sup>*"
    and "ds = [] \<Longrightarrow> set is \<subseteq> set (fst s')"
    and "ds = [] \<Longrightarrow> valid_active catalog (set (fst s)) \<Longrightarrow> valid_active catalog (set (fst s'))"
  shows "dep_post catalog v is s s'"
  using assms unfolding dep_post_def by simp

lemma dep_post_Cons:
  assumes "dep_post catalog v [i] s s1" and "dep_post catalog v is s1 s2"
  shows "dep_post catalog v (i # is) s s2"
proof -
  note 1 = dep_postD [OF assms(1)] and 2 = dep_postD [OF assms(2)]
  from 1(1) 2(1) obtain ds ds2 where ds: "snd s1 = snd s @ ds" "snd s2 = snd s1 @ ds2" by blast
  show ?thesis
  proof (rule dep_postI)
    show "snd s2 = snd s @ ds @ ds2" using ds by simp
    show "\<exists>j \<in> set (i # is). (j, x) \<in> (requires_rel (cat_bridges catalog))\<^sup>*"
      if "x \<in> set (fst s2)" "x \<notin> set (fst s)" for x
      using 2(6) [OF that(1)] 1(6) [of x] that(2) by auto
    show "set v \<inter> set (fst s2) \<subseteq> set (fst s)" using 1(3) 2(3) by blast
    show "set (fst s2) \<subseteq> set (keys (cat_bridges catalog)) \<union> set (fst s)" using 1(5) 2(5) by blast
  qed (use 1(2,4,7,8) 2(2,4,7,8) ds in auto)
qed

lemma dep_post_Nil: "dep_post catalog v [] s s"
  by (simp add: dep_post_def)

lemma dep_post_fold:
  "(\<And>i s. i \<in> set is \<Longrightarrow> dep_post catalog v [i] s (f i s)) \<Longrightarrow> dep_post catalog v is s (fold f is s)"
proof (induction "is" arbitrary: s)
  case (Cons i "is")
  have "dep_post catalog v [i] s (f i s)" by (rule Cons.prems) simp
  moreover have "dep_post catalog v is (f i s) (fold f is (f i s))"
    by (rule Cons.IH) (simp add: Cons.prems)
  ultimately show ?case by (simp add: dep_post_Cons)
qed (simp add: dep_post_Nil)

lemma valid_active_insert:
  assumes "valid_active catalog A" and "map_of (cat_bridges catalog) i = Some d" and "name_ok i"
    and "set (bridge_requires d) \<subseteq> A" and "i \<notin> A"
  shows "valid_active catalog (insert i A)"
proof -
  let ?R = "requires_rel (cat_bridges catalog)"
  have succ: "?R `` {i} \<subseteq> A" using assms(2,4) by (auto simp: requires_rel_def)
  have "i \<in> set (keys (cat_bridges catalog))" using assms(2) by (simp add: keys_iff)
  moreover have "?R `` insert i A \<subseteq> insert i A"
    using succ assms(1) by (auto simp: valid_active_def)
  moreover have "(i, i) \<notin> ?R\<^sup>+"
    using acyclic_insert [of ?R A i] succ assms(1,5) by (simp add: valid_active_def)
  ultimately show ?thesis using assms(1,3) by (simp add: valid_active_def)
qed

lemma dep_post_insert:
  assumes post: "dep_post catalog (i # v) (bridge_requires d) (A, es @ name_errors i p) (A1, es1)"
    and d: "map_of (cat_bridges catalog) i = Some d" and new: "i \<notin> set A" "i \<notin> set v"
  shows "dep_post catalog v [i] (A, es) (bs_insert i A1, es1)"
proof -
  let ?R = "requires_rel (cat_bridges catalog)"
  note * = dep_postD [OF post, unfolded fst_conv snd_conv]
  from *(1) obtain ds where ds: "es1 = (es @ name_errors i p) @ ds" by blast
  have fresh: "i \<notin> set A1" using *(3) new by auto
  show ?thesis
  proof (rule dep_postI)
    show "snd (bs_insert i A1, es1) = snd (A, es) @ name_errors i p @ ds" using ds by simp
    show "\<exists>j \<in> set [i]. (j, x) \<in> ?R\<^sup>*"
      if "x \<in> set (fst (bs_insert i A1, es1))" "x \<notin> set (fst (A, es))" for x
      using that *(6) [of x] requires_relI [OF d]
      by (auto intro: converse_rtrancl_into_rtrancl)
    show "valid_active catalog (set (fst (bs_insert i A1, es1)))"
      if "name_errors i p @ ds = []" "valid_active catalog (set (fst (A, es)))"
      using that *(7,8) ds fresh d by (simp add: valid_active_insert)
    show "set (fst (bs_insert i A1, es1)) \<subseteq> set (keys (cat_bridges catalog)) \<union> set (fst (A, es))"
      using *(5) d keys_iff [of i "cat_bridges catalog"] by auto
  qed (use *(2,3,4) new in \<open>auto intro: bs_insert_sorted\<close>)
qed

lemma dependencies_post: "dep_post catalog v [i] s (dependencies catalog i v s)"
proof (induction catalog i v s rule: dependencies.induct)
  case (1 catalog i v A es)
  show ?case
  proof (cases "i \<notin> set A \<and> i \<notin> set v \<and> \<not> 128 < length (i # v)")
    case ok: True
    show ?thesis
    proof (cases "map_of (cat_bridges catalog) i")
      case None
      with ok show ?thesis by (simp add: dependencies.simps dep_post_def)
    next
      case (Some d)
      obtain A1 es1 where *: "fold (\<lambda>d st. dependencies catalog d (i # v) st) (bridge_requires d)
          (A, es @ name_errors i (''bridges.'' @ i)) = (A1, es1)" by fastforce
      moreover from 1 ok Some have "dep_post catalog (i # v) (bridge_requires d)
          (A, es @ name_errors i (''bridges.'' @ i))
          (fold (\<lambda>d st. dependencies catalog d (i # v) st) (bridge_requires d)
            (A, es @ name_errors i (''bridges.'' @ i)))"
        by (intro dep_post_fold) simp
      ultimately show ?thesis
        using ok Some dep_post_insert by (simp add: dependencies.simps)
    qed
  next
    case False
    then show ?thesis by (auto simp: dependencies.simps dep_post_def)
  qed
qed

lemma active_bridges_post:
  "dep_post catalog [] (bs_of_list bridges) ([], es) (active_bridges catalog bridges es)"
  unfolding active_bridges_def by (intro dep_post_fold dependencies_post)

lemma active_bridges_valid:
  assumes "active_bridges catalog bridges es = (active, es)"
  shows "valid_active catalog (set active)" and "sorted_wrt (<) active" and "set bridges \<subseteq> set active"
    and "\<forall>x \<in> set active. \<exists>i \<in> set bridges. (i, x) \<in> (requires_rel (cat_bridges catalog))\<^sup>*"
proof -
  have "valid_active catalog {}" by (simp add: valid_active_def)
  with active_bridges_post [of catalog bridges es] assms
  show "valid_active catalog (set active)" and "sorted_wrt (<) active" and "set bridges \<subseteq> set active"
    and "\<forall>x \<in> set active. \<exists>i \<in> set bridges. (i, x) \<in> (requires_rel (cat_bridges catalog))\<^sup>*"
    by (auto simp: dep_post_def)
qed

text \<open>
  C12. When the dependency phase reports nothing, the active bridges are exactly the bridges
  reachable from the request along \<open>requires\<close>, in increasing order; all of them are declared
  and \<open>requires\<close> has no cycle among them. A request is therefore refused whenever its closure
  has a missing bridge, a cycle, an invalid name or a chain deeper than the limit.
\<close>

theorem active_bridges_closure:
  assumes "active_bridges catalog bridges es = (active, es)"
  shows "set active = (requires_rel (cat_bridges catalog))\<^sup>* `` set bridges
    \<and> sorted_wrt (<) active
    \<and> set active \<subseteq> set (keys (cat_bridges catalog))
    \<and> (\<forall>b \<in> set active. (b, b) \<notin> (requires_rel (cat_bridges catalog))\<^sup>+)"
proof -
  note post = active_bridges_valid [OF assms]
  then have "requires_rel (cat_bridges catalog) `` set active \<subseteq> set active"
    by (simp add: valid_active_def)
  from Image_closed_trancl [OF this] post(3,4)
  have "set active = (requires_rel (cat_bridges catalog))\<^sup>* `` set bridges" by blast
  with post show ?thesis by (simp add: valid_active_def)
qed

definition sample_catalog :: composition_catalog where
  "sample_catalog =
     \<lparr>cat_types = [], cat_flows = [],
      cat_bridges = [(''a'', require_bridge ''b'' new_bridge), (''b'', new_bridge), (''c'', new_bridge)]\<rparr>"

theorem active_bridges_closure_witness:
  "(requires_rel (cat_bridges sample_catalog))\<^sup>* `` {''a''} = {''a'', ''b''}"
proof -
  have n: "name_ok ''a''" "name_ok ''b''"
    by (simp_all add: name_ok_def name_errors_def trim_def trim_start_def trim_end_def
        strip_front.simps whitespace_encodings_def)
  have "active_bridges sample_catalog [''a''] [] = ([''a'', ''b''], [])"
    using n by (simp add: active_bridges_def bs_of_list_def dependencies.simps sample_catalog_def
        require_bridge_def new_bridge_def)
  from active_bridges_closure [OF this] show ?thesis by auto
qed

subsection \<open>Instances\<close>

text \<open>
  The state of the instance resolver between two calls: every alias denotes an existing instance
  of the imported flow, its own or the one its target denotes; every instance is an alias of
  itself and holds the catalogued definition of its flow.
\<close>

definition alias_ok :: "(string, flow_import) btree \<Rightarrow> resolver \<Rightarrow> string \<Rightarrow> string \<Rightarrow> bool" where
  "alias_ok imports st a i \<longleftrightarrow>
     (\<exists>inst. map_of (res_instances st) i = Some inst \<and>
        (a = ''root'' \<and> i = ''root'' \<or>
         (\<exists>imp. map_of imports a = Some imp \<and> inst_flow inst = import_flow imp
            \<and> (case import_reuse imp of None \<Rightarrow> i = a | Some t \<Rightarrow> map_of (res_aliases st) t = Some i))))"

definition resolver_inv :: "composition_catalog \<Rightarrow> (string, flow_import) btree \<Rightarrow> resolver \<Rightarrow> bool" where
  "resolver_inv catalog imports st \<longleftrightarrow>
     bt_ok (res_aliases st) \<and> bt_ok (res_instances st)
     \<and> map_of (res_aliases st) ''root'' = Some ''root''
     \<and> (\<forall>a i. map_of (res_aliases st) a = Some i \<longrightarrow> alias_ok imports st a i)
     \<and> (\<forall>i inst. map_of (res_instances st) i = Some inst \<longrightarrow>
          map_of (res_aliases st) i = Some i
          \<and> map_of (cat_flows catalog) (inst_flow inst) = Some (inst_definition inst))"

lemma resolver_inv_alias:
  "resolver_inv catalog imports st \<Longrightarrow> map_of (res_aliases st) a = Some i \<Longrightarrow>
     \<exists>inst. map_of (res_instances st) i = Some inst"
  unfolding resolver_inv_def alias_ok_def by blast

text \<open>Progress of one call: the maps and the errors only grow, pending aliases stay pending.\<close>

definition resolver_grows :: "string list \<Rightarrow> resolver \<Rightarrow> resolver \<Rightarrow> bool" where
  "resolver_grows visiting st st' \<longleftrightarrow>
     map_of (res_aliases st) \<subseteq>\<^sub>m map_of (res_aliases st')
     \<and> map_of (res_instances st) \<subseteq>\<^sub>m map_of (res_instances st')
     \<and> (\<exists>es. res_errors st' = res_errors st @ es)
     \<and> (\<forall>a \<in> set visiting. map_of (res_aliases st') a = map_of (res_aliases st) a)"

lemma resolver_grows_refl: "resolver_grows v st st"
  by (simp add: resolver_grows_def)

lemma resolver_grows_error: "resolver_grows v st st' \<Longrightarrow> resolver_grows v st (res_error e st')"
  by (auto simp: resolver_grows_def res_error_def)

lemma res_error_simps [simp]:
  "res_errors (res_error e st) = res_errors st @ [e]"
  "res_aliases (res_error e st) = res_aliases st"
  "res_instances (res_error e st) = res_instances st"
  by (simp_all add: res_error_def)

lemma alias_ok_error [simp]: "alias_ok imports (res_error e st) = alias_ok imports st"
  by (intro ext) (simp only: alias_ok_def res_error_simps)

lemma resolver_inv_error [simp]: "resolver_inv catalog imports (res_error e st) = resolver_inv catalog imports st"
  by (simp only: resolver_inv_def alias_ok_error res_error_simps)

definition resolved :: "composition_catalog \<Rightarrow> (string, flow_import) btree \<Rightarrow> string \<Rightarrow> string list \<Rightarrow>
    resolver \<Rightarrow> string option \<Rightarrow> resolver \<Rightarrow> bool" where
  "resolved catalog imports a v st r st' \<longleftrightarrow>
     resolver_inv catalog imports st' \<and> resolver_grows v st st'
     \<and> (case r of None \<Rightarrow> res_errors st' \<noteq> res_errors st
          | Some i \<Rightarrow> map_of (res_aliases st') a = Some i)"

lemma resolved_error:
  "resolver_inv catalog imports st' \<Longrightarrow> resolver_grows v st st' \<Longrightarrow>
     resolved catalog imports a v st None (res_error e st')"
  by (auto simp: resolved_def resolver_grows_error) (auto simp: resolver_grows_def)

lemma alias_ok_mono:
  assumes "alias_ok imports st a i" and le: "map_of (res_aliases st) \<subseteq>\<^sub>m map_of (res_aliases st')"
    and le': "map_of (res_instances st) \<subseteq>\<^sub>m map_of (res_instances st')"
  shows "alias_ok imports st' a i"
proof -
  have "map_of (res_aliases st') k = Some x" if "map_of (res_aliases st) k = Some x" for k x
    using le that by (metis domI map_le_def)
  moreover have "map_of (res_instances st') k = Some x" if "map_of (res_instances st) k = Some x" for k x
    using le' that by (metis domI map_le_def)
  ultimately show ?thesis using assms(1) unfolding alias_ok_def by (auto split: option.splits)
qed

text \<open>A new instance, registered under its own alias.\<close>

lemma resolved_new_instance:
  assumes inv: "resolver_inv catalog imports st" and a: "map_of (res_aliases st) a = None" "a \<notin> set v"
    and imp: "map_of imports a = Some imp" "import_reuse imp = None"
      "map_of (cat_flows catalog) (import_flow imp) = Some flow"
  defines "st' \<equiv> st\<lparr>res_instances := bt_insert a \<lparr>inst_flow = import_flow imp, inst_definition = flow\<rparr>
      (res_instances st), res_aliases := bt_insert a a (res_aliases st)\<rparr>"
  shows "resolved catalog imports a v st (Some a) st'"
proof -
  have fresh: "map_of (res_instances st) a = None"
    using inv a by (cases "map_of (res_instances st) a") (auto simp: resolver_inv_def)
  have le: "map_of (res_aliases st) \<subseteq>\<^sub>m map_of (res_aliases st')"
    "map_of (res_instances st) \<subseteq>\<^sub>m map_of (res_instances st')"
    using a fresh by (auto simp: st'_def map_le_def dom_def)
  have "alias_ok imports st' b i" if "map_of (res_aliases st') b = Some i" for b i
  proof (cases "b = a")
    case True
    with that imp show ?thesis by (auto simp: st'_def alias_ok_def)
  next
    case False
    with that inv have "alias_ok imports st b i" by (auto simp: st'_def resolver_inv_def)
    from alias_ok_mono [OF this le] show ?thesis .
  qed
  moreover have "a \<noteq> ''root''" using inv a by (auto simp: resolver_inv_def)
  ultimately have "resolver_inv catalog imports st'"
    using inv imp unfolding resolver_inv_def by (auto simp: st'_def bt_insert_ok)
  moreover have "resolver_grows v st st'"
    using le a by (auto simp: resolver_grows_def st'_def)
  ultimately show ?thesis by (simp add: resolved_def st'_def)
qed

text \<open>A reused instance: the alias denotes what its target denotes.\<close>

lemma resolved_reuse:
  assumes inv: "resolver_inv catalog imports st1" and grows: "resolver_grows (a # v) st st1"
    and a: "map_of (res_aliases st) a = None" "a \<notin> set v"
    and imp: "map_of imports a = Some imp" "import_reuse imp = Some t"
    and i: "map_of (res_aliases st1) t = Some i" "map_of (res_instances st1) i = Some inst"
      "inst_flow inst = import_flow imp"
  defines "st' \<equiv> st1\<lparr>res_aliases := bt_insert a i (res_aliases st1)\<rparr>"
  shows "resolved catalog imports a v st (Some i) st'"
proof -
  have a1: "map_of (res_aliases st1) a = None" using grows a by (simp add: resolver_grows_def)
  then have le: "map_of (res_aliases st1) \<subseteq>\<^sub>m map_of (res_aliases st')"
    and le': "map_of (res_instances st1) \<subseteq>\<^sub>m map_of (res_instances st')"
    by (auto simp: st'_def map_le_def dom_def)
  have "alias_ok imports st' b j" if "map_of (res_aliases st') b = Some j" for b j
  proof (cases "b = a")
    case True
    with that imp i a1 show ?thesis by (auto simp: st'_def alias_ok_def)
  next
    case False
    with that inv have "alias_ok imports st1 b j" by (auto simp: st'_def resolver_inv_def)
    from alias_ok_mono [OF this le le'] show ?thesis .
  qed
  moreover have "a \<noteq> ''root''" using inv a1 by (auto simp: resolver_inv_def)
  ultimately have "resolver_inv catalog imports st'"
    using inv a1 unfolding resolver_inv_def by (auto simp: st'_def bt_insert_ok)
  moreover have "resolver_grows v st st'"
    using grows le a unfolding resolver_grows_def
    by (auto simp: st'_def intro: map_le_trans)
  ultimately show ?thesis by (simp add: resolved_def st'_def)
qed

text \<open>The three outcomes of a call on a fresh alias, before any recursive call is evaluated.\<close>

lemma resolve_instance_known:
  "map_of (res_aliases st) a = Some i \<Longrightarrow> resolve_instance catalog imports a v st = Some (Some i, st)"
  by (simp add: resolve_instance.simps)

lemma resolve_instance_fresh:
  assumes "map_of (res_aliases st) a = None"
  obtains (err) e where "resolve_instance catalog imports a v st = Some (None, res_error e st)"
  | (new) imp flow where "a \<notin> set v" "map_of imports a = Some imp" "import_reuse imp = None"
      "map_of (cat_flows catalog) (import_flow imp) = Some flow"
      "resolve_instance catalog imports a v st = Some (Some a, st\<lparr>
         res_instances := bt_insert a \<lparr>inst_flow = import_flow imp, inst_definition = flow\<rparr> (res_instances st),
         res_aliases := bt_insert a a (res_aliases st)\<rparr>)"
  | (reuse) imp t where "a \<notin> set v" "length v < 128" "map_of imports a = Some imp" "import_reuse imp = Some t"
      "resolve_instance catalog imports a v st = map_option (record_alias a)
         (case resolve_instance catalog imports t (a # v) st of
            None \<Rightarrow> None
          | Some (None, st') \<Rightarrow> Some (None, st')
          | Some (Some i, st') \<Rightarrow>
              (case map_of (res_instances st') i of
                 None \<Rightarrow> None
               | Some inst \<Rightarrow>
                   (if inst_flow inst \<noteq> import_flow imp
                    then Some (None, res_error (diag ''reuse_flow_mismatch'' a
                      ''Reused instance has a different flow definition'') st')
                    else Some (Some i, st'))))"
proof (cases "a \<in> set v \<or> 128 < length (a # v)")
  case True
  with assms show thesis
    by (cases "a \<in> set v") (auto simp: resolve_instance.simps [of _ _ a] intro: err)
next
  case False
  note eq = resolve_instance.simps [of catalog "imports" a v st]
  show thesis
  proof (cases "map_of imports a")
    case None
    show thesis by (rule err) (use assms False None in \<open>simp add: eq record_alias_def\<close>)
  next
    case (Some imp)
    note imp = this
    show thesis
    proof (cases "map_of (cat_flows catalog) (import_flow imp)")
      case None
      show thesis by (rule err) (use assms False imp None in \<open>simp add: eq record_alias_def\<close>)
    next
      case (Some flow)
      define owner where "owner = (case split_once ''/'' a of None \<Rightarrow> [] | Some (o', _) \<Rightarrow> o')"
      consider "import_reuse imp = None"
        | t where "import_reuse imp = Some t" "\<not> can_reuse owner t (cat_bridges catalog)"
        | t where "import_reuse imp = Some t" "can_reuse owner t (cat_bridges catalog)" by blast
      then show thesis
      proof cases
        case 1
        show thesis by (rule new) (use assms False imp Some 1 in \<open>simp_all add: eq record_alias_def\<close>)
      next
        case 2
        show thesis
          by (rule err) (use assms False imp Some 2 in \<open>simp add: eq record_alias_def owner_def\<close>)
      next
        case 3
        show thesis by (rule reuse) (use assms False imp Some 3 in \<open>simp_all add: eq owner_def\<close>)
      qed
    qed
  qed
qed

lemma resolve_instance_ok:
  "resolver_inv catalog imports st \<Longrightarrow>
     \<exists>r st'. resolve_instance catalog imports a v st = Some (r, st') \<and> resolved catalog imports a v st r st'"
proof (induction "128 - length v" arbitrary: a v st rule: less_induct)
  case less
  note inv = less.prems
  show ?case
  proof (cases "map_of (res_aliases st) a")
    case (Some i)
    with inv show ?thesis
      by (simp add: resolve_instance_known resolved_def resolver_grows_refl)
  next
    case None
    show ?thesis
      using None
    proof (cases rule: resolve_instance_fresh [of st a catalog "imports" v])
      case (err e)
      with resolved_error [OF inv resolver_grows_refl, of a v] show ?thesis by auto
    next
      case (new imp flow)
      with resolved_new_instance [OF inv None] show ?thesis by auto
    next
      case (reuse imp t)
      then have "128 - length (a # v) < 128 - length v" by simp
      from less.hyps [OF this inv] obtain r st1
        where r: "resolve_instance catalog imports t (a # v) st = Some (r, st1)"
          and post: "resolved catalog imports t (a # v) st r st1" by blast
      then have inv1: "resolver_inv catalog imports st1" and grows: "resolver_grows (a # v) st st1"
        by (auto simp: resolved_def)
      then have "resolver_grows v st st1" by (simp add: resolver_grows_def)
      note err = resolved_error [OF inv1 this, of a]
      show ?thesis
      proof (cases r)
        case None
        with reuse r post \<open>resolver_grows v st st1\<close> show ?thesis
          by (simp add: record_alias_def resolved_def)
      next
        case (Some i)
        with post have i: "map_of (res_aliases st1) t = Some i" by (simp add: resolved_def)
        with inv1 obtain inst where inst: "map_of (res_instances st1) i = Some inst"
          using resolver_inv_alias by blast
        show ?thesis
        proof (cases "inst_flow inst = import_flow imp")
          case True
          from resolved_reuse [OF inv1 grows None reuse(1,3,4) i inst True]
          show ?thesis using reuse r Some inst True by (simp add: record_alias_def)
        next
          case False
          with reuse r Some inst err show ?thesis by (simp add: record_alias_def)
        qed
      qed
    qed
  qed
qed

subsection \<open>Resolved connections and bindings\<close>

definition denotes :: "(string, string) btree \<Rightarrow> string \<Rightarrow> endpoint \<Rightarrow> endpoint option" where
  "denotes aliases b v = snd (resolve_endpoint b v aliases [])"

lemma resolve_endpoint_cases:
  obtains f where "resolve_endpoint b v aliases p = ([], Some f)" and "denotes aliases b v = Some f"
  | e where "resolve_endpoint b v aliases p = ([e], None)" and "denotes aliases b v = None"
proof (cases "CHR ''/'' \<in> set (end_instance v)")
  case True
  show thesis by (rule that(2)) (use True in \<open>simp_all add: resolve_endpoint_def denotes_def\<close>)
next
  case False
  define a where "a = (if end_instance v = ''root'' then ''root'' else b @ ''/'' @ end_instance v)"
  show thesis
  proof (cases "map_of aliases a")
    case None
    show thesis
      by (rule that(2)) (use False None in \<open>simp_all add: resolve_endpoint_def denotes_def a_def\<close>)
  next
    case (Some i)
    show thesis
      by (rule that(1)) (use False Some in \<open>simp_all add: resolve_endpoint_def denotes_def a_def\<close>)
  qed
qed

lemma denotes_alias: "denotes aliases b v = Some f \<Longrightarrow> \<exists>a. map_of aliases a = Some (end_instance f)"
  by (auto simp: resolve_endpoint_def denotes_def Let_def split: if_splits option.splits)

text \<open>The route a connection stands for, with everything its source and target must satisfy.\<close>

definition route_spec ::
  "(json \<Rightarrow> (string, predicate) result) \<Rightarrow> type_registry \<Rightarrow> (string, flow_instance) btree \<Rightarrow>
   (string, string) btree \<Rightarrow> string \<Rightarrow> connection \<Rightarrow> route \<Rightarrow> bool" where
  "route_spec from_value types insts aliases b c r \<longleftrightarrow>
     denotes aliases b (conn_from c) = Some (route_from r)
     \<and> denotes aliases b (conn_to c) = Some (route_to r)
     \<and> (\<exists>fi ti source target.
          map_of insts (end_instance (route_from r)) = Some fi
          \<and> map_of (flow_branches (inst_definition fi)) (end_port (route_from r)) = Some source
          \<and> map_of insts (end_instance (route_to r)) = Some ti
          \<and> map_of (flow_entries (inst_definition ti)) (end_port (route_to r)) = Some target
          \<and> (branch_requesters source = [] \<longrightarrow> conn_invocation c \<in> set (branch_invocations source))
          \<and> compatible (port_input (branch_contract source)) (port_input target) types
          \<and> (conn_mode c = CallAwait \<longrightarrow>
               (\<forall>expected. port_output (branch_contract source) = Some expected \<longrightarrow>
                  (\<exists>t. port_output target = Some t \<and> compatible t expected types)))
          \<and> route_input r = port_input target \<and> route_output r = port_output target)
     \<and> (conn_invocation c = Tool \<longleftrightarrow> conn_tool c \<noteq> None)
     \<and> (\<forall>tool. conn_tool c = Some tool \<longrightarrow> \<not> blank tool \<and> name_ok tool)
     \<and> (conn_invocation c = Condition \<longleftrightarrow> conn_condition c \<noteq> None)
     \<and> (\<forall>v. conn_condition c = Some v \<longrightarrow> is_ok (parse_predicate from_value v))
     \<and> route_bridge r = b \<and> route_mode r = conn_mode c \<and> route_invocation r = conn_invocation c
     \<and> route_tool r = conn_tool c \<and> route_condition r = conn_condition c"

lemma route_type_errors_Nil:
  "route_type_errors source target c types p = [] \<longleftrightarrow>
     (branch_requesters source = [] \<longrightarrow> conn_invocation c \<in> set (branch_invocations source))
     \<and> compatible (port_input (branch_contract source)) (port_input target) types
     \<and> (conn_mode c = CallAwait \<longrightarrow>
          (\<forall>expected. port_output (branch_contract source) = Some expected \<longrightarrow>
             (\<exists>t. port_output target = Some t \<and> compatible t expected types)))"
  by (auto simp: route_type_errors_def split: option.splits)

lemma route_condition_errors_Nil:
  "route_condition_errors from_value c p = [] \<longleftrightarrow>
     (conn_invocation c = Condition \<longleftrightarrow> conn_condition c \<noteq> None)
     \<and> (\<forall>v. conn_condition c = Some v \<longrightarrow> is_ok (parse_predicate from_value v))"
  by (auto simp: route_condition_errors_def is_ok_def split: option.splits sum.splits invocation_kind.splits)

lemma route_tool_step_Nil:
  "fst (route_tool_step c i p tools) = [] \<longleftrightarrow>
     (conn_invocation c = Tool \<longleftrightarrow> conn_tool c \<noteq> None)
     \<and> (\<forall>tool. conn_tool c = Some tool \<longrightarrow> \<not> blank tool \<and> name_ok tool \<and> (i, tool) \<notin> set tools)"
  by (auto simp: route_tool_step_def split: option.splits)

definition tool_key :: "route \<Rightarrow> (string \<times> string) list" where
  "tool_key r = (case route_tool r of None \<Rightarrow> [] | Some tool \<Rightarrow> [(end_instance (route_from r), tool)])"

lemma route_tool_step_tools:
  assumes "fst (route_tool_step c (end_instance (route_from r)) p tools) = []" and "route_tool r = conn_tool c"
  shows "snd (route_tool_step c (end_instance (route_from r)) p tools) = tool_key r @ tools
    \<and> set (tool_key r) \<inter> set tools = {}"
  using assms by (auto simp: route_tool_step_def tool_key_def split: option.splits if_splits)

lemma push_errors_simps [simp]:
  "rs_errors (push_errors es st) = rs_errors st @ es"
  "rs_tools (push_errors es st) = rs_tools st"
  "rs_bound (push_errors es st) = rs_bound st"
  "rs_routes (push_errors es st) = rs_routes st"
  "rs_bindings (push_errors es st) = rs_bindings st"
  by (simp_all add: push_errors_def)

text \<open>The instances every alias denotes exist.\<close>

definition aliases_ok :: "(string, flow_instance) btree \<Rightarrow> (string, string) btree \<Rightarrow> bool" where
  "aliases_ok insts aliases \<longleftrightarrow> (\<forall>a i. map_of aliases a = Some i \<longrightarrow> map_of insts i \<noteq> None)"

lemma denotes_instance:
  "aliases_ok insts aliases \<Longrightarrow> denotes aliases b v = Some f \<Longrightarrow> \<exists>fi. map_of insts (end_instance f) = Some fi"
  using denotes_alias unfolding aliases_ok_def by fastforce

definition connection_post ::
  "(json \<Rightarrow> (string, predicate) result) \<Rightarrow> type_registry \<Rightarrow> (string, flow_instance) btree \<Rightarrow>
   (string, string) btree \<Rightarrow> string \<Rightarrow> string \<times> connection \<Rightarrow> resolution \<Rightarrow> resolution \<Rightarrow> bool" where
  "connection_post from_value types insts aliases b entry st st' \<longleftrightarrow>
     rs_bound st' = rs_bound st \<and> rs_bindings st' = rs_bindings st
     \<and> (\<exists>es. rs_errors st' = rs_errors st @ es \<and>
          (es = [] \<longrightarrow> (\<exists>r. route_spec from_value types insts aliases b (snd entry) r
             \<and> rs_routes st' = bt_insert (b @ ''/'' @ fst entry) r (rs_routes st)
             \<and> rs_tools st' = tool_key r @ rs_tools st \<and> set (tool_key r) \<inter> set (rs_tools st) = {})))"

lemma connection_step_ok:
  assumes "aliases_ok insts aliases"
  shows "\<exists>st'. connection_step from_value types insts aliases b entry st = Some st'
    \<and> connection_post from_value types insts aliases b entry st st'"
proof -
  obtain i c where entry: "entry = (i, c)" by fastforce
  define p where "p = ''bridges.'' @ b @ ''.connections.'' @ i"
  note step = connection_step_def [of from_value types insts aliases b "(i, c)" st,
      unfolded prod.case Let_def, folded p_def]
  show ?thesis
  proof (cases rule: resolve_endpoint_cases [of b "conn_from c" aliases "p @ ''.from''"];
         cases rule: resolve_endpoint_cases [of b "conn_to c" aliases "p @ ''.to''"])
    fix f t
    assume f: "resolve_endpoint b (conn_from c) aliases (p @ ''.from'') = ([], Some f)"
        "denotes aliases b (conn_from c) = Some f"
      and t: "resolve_endpoint b (conn_to c) aliases (p @ ''.to'') = ([], Some t)"
        "denotes aliases b (conn_to c) = Some t"
    from denotes_instance [OF assms f(2)] denotes_instance [OF assms t(2)] obtain fi ti
      where fi: "map_of insts (end_instance f) = Some fi" and ti: "map_of insts (end_instance t) = Some ti"
      by blast
    show ?thesis
    proof (cases "map_of (flow_branches (inst_definition fi)) (end_port f)")
      case None
      with f t fi show ?thesis by (simp add: step entry connection_post_def)
    next
      case (Some source)
      show ?thesis
      proof (cases "map_of (flow_entries (inst_definition ti)) (end_port t)")
        case None
        with f t fi ti Some show ?thesis by (simp add: step entry connection_post_def)
      next
        case target: (Some target)
        obtain tes tools where tool: "route_tool_step c (end_instance f) p (rs_tools st) = (tes, tools)"
          by fastforce
        define r where "r = \<lparr>route_bridge = b, route_from = f, route_to = t,
          route_mode = conn_mode c, route_invocation = conn_invocation c,
          route_tool = conn_tool c, route_condition = conn_condition c,
          route_input = port_input target, route_output = port_output target\<rparr>"
        have "connection_step from_value types insts aliases b entry st =
          Some ((push_errors (name_errors i p @ route_type_errors source target c types p @ tes
                    @ route_condition_errors from_value c p) st)
             \<lparr>rs_tools := tools, rs_routes := bt_insert (b @ ''/'' @ i) r (rs_routes st)\<rparr>)"
          using f t fi ti Some target tool by (simp add: step entry push_errors_def r_def)
        moreover have "route_spec from_value types insts aliases b c r
            \<and> tools = tool_key r @ rs_tools st \<and> set (tool_key r) \<inter> set (rs_tools st) = {}"
          if "route_type_errors source target c types p = []" "tes = []"
            "route_condition_errors from_value c p = []"
          using that f t fi ti Some target tool route_tool_step_Nil [of c "end_instance f" p "rs_tools st"]
            route_tool_step_tools [of c r p "rs_tools st"]
          by (simp add: route_spec_def route_type_errors_Nil route_condition_errors_Nil r_def)
        ultimately show ?thesis by (auto simp: entry connection_post_def)
      qed
    qed
  qed (simp_all add: step entry connection_post_def)
qed

text \<open>The data binding a declaration stands for: within the grants, exactly as required, typed.\<close>

definition binding_spec ::
  "type_registry \<Rightarrow> (string, flow_instance) btree \<Rightarrow> (string, string) btree \<Rightarrow> string \<Rightarrow> data_binding \<Rightarrow>
   resolved_data_binding \<Rightarrow> bool" where
  "binding_spec types insts aliases b d r \<longleftrightarrow>
     denotes aliases b (bind_from d) = Some (bound_from r)
     \<and> denotes aliases b (bind_to d) = Some (bound_to r)
     \<and> (\<exists>fi ti source target.
          map_of insts (end_instance (bound_from r)) = Some fi
          \<and> map_of (flow_data (inst_definition fi)) (end_port (bound_from r)) = Some source
          \<and> map_of insts (end_instance (bound_to r)) = Some ti
          \<and> map_of (flow_requires (inst_definition ti)) (end_port (bound_to r)) = Some target
          \<and> perm_contains (exposed_permissions source) (bound_permissions r)
          \<and> bound_permissions r = required_permissions target
          \<and> perm_read (bound_permissions r)
          \<and> compatible (exposed_type source) (required_type target) types
          \<and> (perm_write (bound_permissions r) \<longrightarrow>
               compatible (required_type target) (exposed_type source) types)
          \<and> bound_type r = exposed_type source)
     \<and> bound_bridge r = b \<and> bound_permissions r = bind_permissions d"

definition bound_key :: "resolved_data_binding \<Rightarrow> string \<times> string" where
  "bound_key r = (end_instance (bound_to r), end_port (bound_to r))"

definition binding_post ::
  "type_registry \<Rightarrow> (string, flow_instance) btree \<Rightarrow> (string, string) btree \<Rightarrow> string \<Rightarrow>
   string \<times> data_binding \<Rightarrow> resolution \<Rightarrow> resolution \<Rightarrow> bool" where
  "binding_post types insts aliases b entry st st' \<longleftrightarrow>
     rs_tools st' = rs_tools st \<and> rs_routes st' = rs_routes st
     \<and> (\<exists>es. rs_errors st' = rs_errors st @ es \<and>
          (es = [] \<longrightarrow> (\<exists>r. binding_spec types insts aliases b (snd entry) r
             \<and> rs_bindings st' = bt_insert (b @ ''/'' @ fst entry) r (rs_bindings st)
             \<and> rs_bound st' = bound_key r # rs_bound st \<and> bound_key r \<notin> set (rs_bound st))))"

lemma binding_step_ok:
  assumes "aliases_ok insts aliases"
  shows "\<exists>st'. binding_step types insts aliases b entry st = Some st'
    \<and> binding_post types insts aliases b entry st st'"
proof -
  obtain i d where entry: "entry = (i, d)" by fastforce
  define p where "p = ''bridges.'' @ b @ ''.bindings.'' @ i"
  note step = binding_step_def [of types insts aliases b "(i, d)" st, unfolded prod.case Let_def, folded p_def]
  show ?thesis
  proof (cases rule: resolve_endpoint_cases [of b "bind_from d" aliases "p @ ''.from''"];
         cases rule: resolve_endpoint_cases [of b "bind_to d" aliases "p @ ''.to''"])
    fix f t
    assume f: "resolve_endpoint b (bind_from d) aliases (p @ ''.from'') = ([], Some f)"
        "denotes aliases b (bind_from d) = Some f"
      and t: "resolve_endpoint b (bind_to d) aliases (p @ ''.to'') = ([], Some t)"
        "denotes aliases b (bind_to d) = Some t"
    from denotes_instance [OF assms f(2)] denotes_instance [OF assms t(2)] obtain fi ti
      where fi: "map_of insts (end_instance f) = Some fi" and ti: "map_of insts (end_instance t) = Some ti"
      by blast
    show ?thesis
    proof (cases "map_of (flow_data (inst_definition fi)) (end_port f)")
      case None
      with f t fi show ?thesis by (simp add: step entry binding_post_def)
    next
      case (Some source)
      show ?thesis
      proof (cases "map_of (flow_requires (inst_definition ti)) (end_port t)")
        case None
        with f t fi ti Some show ?thesis by (simp add: step entry binding_post_def)
      next
        case target: (Some target)
        define r where "r = \<lparr>bound_bridge = b, bound_from = f, bound_to = t,
          bound_permissions = bind_permissions d, bound_type = exposed_type source\<rparr>"
        define dup where "dup = (if bound_key r \<in> set (rs_bound st)
          then [diag ''duplicate_binding'' p ''A dataset requirement has more than one binding''] else [])"
        have "binding_step types insts aliases b entry st =
          Some ((push_errors (name_errors i p @ permissions_errors (bind_permissions d) p @ dup
                    @ binding_errors source target (bind_permissions d) types p) st)
             \<lparr>rs_bound := List.insert (bound_key r) (rs_bound st),
              rs_bindings := bt_insert (b @ ''/'' @ i) r (rs_bindings st)\<rparr>)"
          using f t fi ti Some target by (simp add: step entry push_errors_def r_def dup_def bound_key_def)
        moreover have "binding_spec types insts aliases b d r \<and> bound_key r \<notin> set (rs_bound st)"
          if "binding_errors source target (bind_permissions d) types p = []" "dup = []"
            "permissions_errors (bind_permissions d) p = []"
          using that f t fi ti Some target
          by (auto simp: binding_spec_def binding_errors_def permissions_errors_def r_def dup_def
              split: if_splits)
        ultimately show ?thesis by (auto simp: entry binding_post_def)
      qed
    qed
  qed (simp_all add: step entry binding_post_def)
qed

subsection \<open>Exclusive claims\<close>

text \<open>
  Routes and data bindings share a contract: a declaration determines what its resolved form
  claims (a tool name on an instance, a data requirement), the resolved forms are stored under
  the path of the declaration, and no two of them claim the same thing.
\<close>

definition path :: "string \<Rightarrow> string \<Rightarrow> string" where
  "path b i = b @ ''/'' @ i"

lemma path_inject:
  "CHR ''/'' \<notin> set b \<Longrightarrow> CHR ''/'' \<notin> set b' \<Longrightarrow> path b i = path b' i' \<Longrightarrow> b = b' \<and> i = i'"
proof (induction b arbitrary: b')
  case Nil
  then show ?case by (cases b') (auto simp: path_def)
next
  case (Cons x b)
  then show ?case by (cases b') (auto simp: path_def)
qed

definition path_injective :: "(string \<times> string \<times> 'c) set \<Rightarrow> bool" where
  "path_injective L \<longleftrightarrow>
     (\<forall>(b, i, c) \<in> L. \<forall>(b', i', c') \<in> L. path b i = path b' i' \<longrightarrow> b = b' \<and> i = i' \<and> c = c')"

locale exclusive_claims =
  fixes spec :: "string \<Rightarrow> 'c \<Rightarrow> 'r \<Rightarrow> bool"
    and claims :: "'r \<Rightarrow> (string \<times> string) list"
  assumes claims_det: "spec b c r \<Longrightarrow> spec b c r' \<Longrightarrow> claims r = claims r'"
begin

definition stored :: "(string \<times> string \<times> 'c) set \<Rightarrow> (string, 'r) btree \<Rightarrow> (string \<times> string) list \<Rightarrow> bool" where
  "stored D m used \<longleftrightarrow>
     bt_ok m
     \<and> (\<forall>(b, i, c) \<in> D. \<exists>r. map_of m (path b i) = Some r \<and> spec b c r)
     \<and> (\<forall>k r. map_of m k = Some r \<longrightarrow> (\<exists>b i c. (b, i, c) \<in> D \<and> k = path b i \<and> spec b c r))
     \<and> (\<forall>k r k' r'. map_of m k = Some r \<longrightarrow> map_of m k' = Some r' \<longrightarrow> k \<noteq> k' \<longrightarrow>
          set (claims r) \<inter> set (claims r') = {})
     \<and> set used = (\<Union>r \<in> ran (map_of m). set (claims r))"

lemma stored_empty: "stored {} [] []"
  by (simp add: stored_def)

lemma stored_insert:
  assumes inv: "stored D m used" and inj: "path_injective (insert (b, i, c) D)"
    and r: "spec b c r" and free: "set (claims r) \<inter> set used = {}"
  shows "stored (insert (b, i, c) D) (bt_insert (path b i) r m) (claims r @ used)"
proof -
  let ?m = "bt_insert (path b i) r m"
  have used: "set used = (\<Union>r \<in> ran (map_of m). set (claims r))" using inv by (simp add: stored_def)
  have old: "set (claims r0) \<subseteq> set used" if "map_of m k = Some r0" for k r0
    unfolding used using that by (auto simp: ran_def)
  have none: "claims r0 = []" if "map_of m (path b i) = Some r0" for r0
  proof -
    from inv that obtain b' i' c' where d: "(b', i', c') \<in> D" "path b i = path b' i'" "spec b' c' r0"
      unfolding stored_def by metis
    then have "b' = b" "c' = c" using inj unfolding path_injective_def by auto
    with d(3) have "spec b c r0" by simp
    from claims_det [OF this r] have "claims r0 = claims r" .
    then have "set (claims r0) \<subseteq> set (claims r) \<inter> set used" using old [OF that] by simp
    then show ?thesis unfolding free by simp
  qed
  have "\<exists>r'. map_of ?m (path b' i') = Some r' \<and> spec b' c' r'" if "(b', i', c') \<in> insert (b, i, c) D" for b' i' c'
  proof (cases "path b' i' = path b i")
    case True
    with that inj have "b' = b" "c' = c" unfolding path_injective_def by auto
    with True r show ?thesis by simp
  next
    case False
    with that have "(b', i', c') \<in> D" by auto
    with inv False show ?thesis unfolding stored_def by auto
  qed
  moreover have "\<exists>b' i' c'. (b', i', c') \<in> insert (b, i, c) D \<and> k = path b' i' \<and> spec b' c' r'"
    if "map_of ?m k = Some r'" for k r'
  proof (cases "k = path b i")
    case True
    with that r show ?thesis by (intro exI [of _ b] exI [of _ i] exI [of _ c]) simp
  next
    case False
    with that inv have "\<exists>b i c. (b, i, c) \<in> D \<and> k = path b i \<and> spec b c r'"
      unfolding stored_def by simp
    then show ?thesis by blast
  qed
  moreover have "set (claims r1) \<inter> set (claims r2) = {}"
    if "map_of ?m k1 = Some r1" "map_of ?m k2 = Some r2" "k1 \<noteq> k2" for k1 k2 r1 r2
  proof (cases "k1 = path b i \<or> k2 = path b i")
    case True
    with that free old [of k1 r1] old [of k2 r2] show ?thesis by (auto split: if_splits)
  next
    case False
    with that inv show ?thesis unfolding stored_def by auto
  qed
  moreover have "set (claims r @ used) = (\<Union>r \<in> ran (map_of ?m). set (claims r))"
  proof -
    have "ran (map_of ?m) = insert r {r'. \<exists>k. k \<noteq> path b i \<and> map_of m k = Some r'}"
      by (auto simp: ran_def)
    moreover have "(\<Union>r \<in> ran (map_of m). set (claims r)) =
        (\<Union>r \<in> {r'. \<exists>k. k \<noteq> path b i \<and> map_of m k = Some r'}. set (claims r))"
      (is "?A = ?B")
    proof (intro subset_antisym subsetI)
      fix x assume "x \<in> ?A"
      then obtain k r' where k: "map_of m k = Some r'" "x \<in> set (claims r')" by (auto simp: ran_def)
      with none [of r'] have "k \<noteq> path b i" by auto
      with k show "x \<in> ?B" by blast
    qed (auto simp: ran_def)
    ultimately show ?thesis using used by simp
  qed
  moreover have "bt_ok ?m" using inv by (simp add: stored_def bt_insert_ok)
  ultimately show ?thesis unfolding stored_def by blast
qed

end

interpretation routes: exclusive_claims "route_spec from_value types insts aliases" tool_key
  for from_value types insts aliases
  by unfold_locales (auto simp: route_spec_def tool_key_def)

interpretation bindings: exclusive_claims "binding_spec types insts aliases" "\<lambda>r. [bound_key r]"
  for types insts aliases
  by unfold_locales (auto simp: binding_spec_def bound_key_def)

subsection \<open>The phases of the resolver\<close>

definition declared :: "composition_catalog \<Rightarrow> (bridge_definition \<Rightarrow> (string, 'c) btree) \<Rightarrow> string set \<Rightarrow>
    (string \<times> string \<times> 'c) set" where
  "declared catalog part A =
     {(b, i, c). b \<in> A \<and> (\<exists>d. map_of (cat_bridges catalog) b = Some d \<and> (i, c) \<in> set (part d))}"

lemma declared_insert:
  "map_of (cat_bridges catalog) b = Some d \<Longrightarrow>
     declared catalog part (insert b A) = declared catalog part A \<union> (\<lambda>(i, c). (b, i, c)) ` set (part d)"
  by (auto simp: declared_def)

lemma declared_empty [simp]: "declared catalog part {} = {}"
  by (auto simp: declared_def)

lemma declared_injective:
  assumes "\<forall>a \<in> A. name_ok a"
    and "\<And>b d. map_of (cat_bridges catalog) b = Some d \<Longrightarrow> bt_ok (part d)"
  shows "path_injective (declared catalog part A)"
proof -
  have "b = b' \<and> i = i' \<and> c = c'"
    if "(b, i, c) \<in> declared catalog part A" "(b', i', c') \<in> declared catalog part A"
      "path b i = path b' i'" for b i c b' i' c'
  proof -
    from that(1,2) assms(1) have "name_ok b" "name_ok b'" by (auto simp: declared_def)
    from path_inject [OF this [THEN name_ok_no_slash] that(3)] have eq: "b = b' \<and> i = i'" .
    with that obtain d where "map_of (cat_bridges catalog) b = Some d"
      "(i, c) \<in> set (part d)" "(i, c') \<in> set (part d)" by (auto simp: declared_def)
    with assms(2) have "c = c'" by (metis bt_ok_in_iff option.inject)
    with eq show ?thesis by simp
  qed
  then show ?thesis unfolding path_injective_def by blast
qed

lemma path_injective_subset: "path_injective L \<Longrightarrow> D \<subseteq> L \<Longrightarrow> path_injective D"
  unfolding path_injective_def by blast

lemma imports_fold:
  "fold (\<lambda>(alias, imp) (imports, errors).
      (bt_insert (b @ ''/'' @ alias) imp imports, errors @ e alias)) xs (m, es) =
   (fold (\<lambda>(a, v). bt_insert (path b a) v) xs m, es @ concat (map (\<lambda>(a, v). e a) xs))"
  by (induction xs arbitrary: m es) (auto simp: path_def)

definition imports_inv :: "composition_catalog \<Rightarrow> diagnostic list \<Rightarrow> string set \<Rightarrow>
    (string, flow_import) btree \<times> diagnostic list \<Rightarrow> bool" where
  "imports_inv catalog e0 A s \<longleftrightarrow>
     bt_ok (fst s) \<and> (\<exists>es. snd s = e0 @ es)
     \<and> (\<forall>k imp. map_of (fst s) k = Some imp \<longrightarrow>
          (\<exists>b i. (b, i, imp) \<in> declared catalog bridge_imports A \<and> k = path b i))
     \<and> (\<forall>(b, i, imp) \<in> declared catalog bridge_imports A. map_of (fst s) (path b i) = Some imp)"

lemma inj_path: "inj (path b)"
  by (simp add: inj_def path_def)

lemma imports_step_ok:
  assumes inv: "imports_inv catalog e0 A s" and b: "map_of (cat_bridges catalog) b = Some d"
    and ok: "bt_ok (bridge_imports d)"
    and inj: "path_injective (declared catalog bridge_imports (insert b A))"
  shows "\<exists>s'. imports_step catalog b s = Some s' \<and> imports_inv catalog e0 (insert b A) s'"
proof -
  obtain m es where s: "s = (m, es)" by fastforce
  define m' where "m' = fold (\<lambda>(a, v). bt_insert (path b a) v) (bridge_imports d) m"
  define D where "D = declared catalog bridge_imports (insert b A)"
  have D: "D = declared catalog bridge_imports A \<union> (\<lambda>(i, c). (b, i, c)) ` set (bridge_imports d)"
    unfolding D_def by (rule declared_insert [OF b])
  obtain es' where step: "imports_step catalog b s = Some (m', es @ es')"
    unfolding imports_step_def s b option.map imports_fold m'_def by blast
  have new: "map_of m' (path b i) = Some imp" if "(i, imp) \<in> set (bridge_imports d)" for i imp
    unfolding m'_def using that ok by (intro fold_bt_insert_in) (auto simp: inj_path bt_ok_distinct)
  have "map_of m' (path b' i) = Some imp" if x: "(b', i, imp) \<in> D" for b' i imp
  proof (cases "path b' i \<in> path b ` fst ` set (bridge_imports d)")
    case True
    then obtain j v where jv: "(j, v) \<in> set (bridge_imports d)" "path b' i = path b j" by auto
    then have "(b, j, v) \<in> D" unfolding D by auto
    with x jv inj have "b' = b \<and> i = j \<and> imp = v"
      unfolding path_injective_def D_def [symmetric] by blast
    with new jv show ?thesis by simp
  next
    case False
    then have "(b', i, imp) \<in> declared catalog bridge_imports A" using x unfolding D by force
    with inv False show ?thesis
      unfolding imports_inv_def s m'_def by (auto simp: fold_bt_insert_other)
  qed
  moreover have "\<exists>b' i. (b', i, imp) \<in> D \<and> k = path b' i" if "map_of m' k = Some imp" for k imp
    using fold_bt_insert_inv [OF that [unfolded m'_def]]
  proof
    assume "map_of m k = Some imp"
    with inv have "\<exists>b i. (b, i, imp) \<in> declared catalog bridge_imports A \<and> k = path b i"
      by (simp add: imports_inv_def s)
    then show ?thesis unfolding D by blast
  next
    assume "\<exists>a. (a, imp) \<in> set (bridge_imports d) \<and> k = path b a"
    then show ?thesis unfolding D by force
  qed
  moreover have "bt_ok m'"
    using inv unfolding m'_def by (intro fold_bt_insert_ok) (simp add: imports_inv_def s)
  moreover have "\<exists>ds. es @ es' = e0 @ ds" using inv by (auto simp: imports_inv_def s)
  ultimately have "imports_inv catalog e0 (insert b A) (m', es @ es')"
    unfolding imports_inv_def D_def [symmetric] fst_conv snd_conv by blast
  with step show ?thesis by blast
qed

definition ordered_parts :: "composition_catalog \<Rightarrow> bool" where
  "ordered_parts catalog \<longleftrightarrow>
     (\<forall>b d. map_of (cat_bridges catalog) b = Some d \<longrightarrow>
        bt_ok (bridge_imports d) \<and> bt_ok (bridge_connections d) \<and> bt_ok (bridge_bindings d))"

lemma ordered_catalog_parts: "ordered_catalog catalog \<Longrightarrow> ordered_parts catalog"
  by (auto simp: ordered_catalog_def ordered_parts_def ordered_bridge_def dest!: map_of_SomeD)

lemma imports_ok:
  assumes "ordered_parts catalog" and "valid_active catalog (set active)"
  shows "\<exists>s. fold_option (imports_step catalog) active ([], e0) = Some s
    \<and> imports_inv catalog e0 (set active) s"
proof -
  have parts: "bt_ok (bridge_imports d)" if "map_of (cat_bridges catalog) b = Some d" for b d
    using that assms(1) by (simp add: ordered_parts_def)
  have names: "\<forall>a \<in> set active. name_ok a" using assms(2) by (simp add: valid_active_def)
  let ?I = "\<lambda>ds s. set ds \<subseteq> set active \<and> imports_inv catalog e0 (set ds) s"
  have "\<exists>s'. imports_step catalog b s = Some s' \<and> ?I (ds @ [b]) s'"
    if "?I ds s" "b \<in> set active" for ds b s
  proof -
    from that(2) assms(2) have "b \<in> set (keys (cat_bridges catalog))" by (auto simp: valid_active_def)
    then obtain d where d: "map_of (cat_bridges catalog) b = Some d" by (auto simp: keys_iff)
    have "path_injective (declared catalog bridge_imports (insert b (set ds)))"
      using that names parts by (intro declared_injective) auto
    from imports_step_ok [OF _ d parts [OF d] this] that show ?thesis by auto
  qed
  moreover have "?I [] ([], e0)" by (simp add: imports_inv_def declared_def)
  ultimately have "\<exists>s. fold_option (imports_step catalog) active ([], e0) = Some s \<and> ?I ([] @ active) s"
    by (intro fold_option_rule [where I = ?I]) auto
  then show ?thesis by auto
qed

text \<open>Every alias is resolved when the instance phase reports nothing.\<close>

lemma resolver_grows_trans:
  "resolver_grows v st st1 \<Longrightarrow> resolver_grows v st1 st2 \<Longrightarrow> resolver_grows v st st2"
  unfolding resolver_grows_def by (auto intro: map_le_trans)

definition instances_inv :: "composition_catalog \<Rightarrow> (string, flow_import) btree \<Rightarrow> resolver \<Rightarrow>
    string list \<Rightarrow> resolver \<Rightarrow> bool" where
  "instances_inv catalog imports st0 as st \<longleftrightarrow>
     resolver_inv catalog imports st \<and> resolver_grows [] st0 st
     \<and> (res_errors st = res_errors st0 \<longrightarrow> (\<forall>a \<in> set as. map_of (res_aliases st) a \<noteq> None))"

lemma instances_step_ok:
  assumes "instances_inv catalog imports st0 ds st"
  shows "\<exists>st'. map_option snd (resolve_instance catalog imports a [] st) = Some st'
    \<and> instances_inv catalog imports st0 (ds @ [a]) st'"
proof -
  from assms have inv: "resolver_inv catalog imports st" and grows: "resolver_grows [] st0 st"
    and ds: "res_errors st = res_errors st0 \<Longrightarrow> \<forall>a \<in> set ds. map_of (res_aliases st) a \<noteq> None"
    by (auto simp: instances_inv_def)
  from resolve_instance_ok [OF inv] obtain r st'
    where r: "resolve_instance catalog imports a [] st = Some (r, st')"
      and post: "resolved catalog imports a [] st r st'" by blast
  then have inv': "resolver_inv catalog imports st'" and grows': "resolver_grows [] st st'"
    by (auto simp: resolved_def)
  have "map_of (res_aliases st') x \<noteq> None"
    if "res_errors st' = res_errors st0" "x \<in> set (ds @ [a])" for x
  proof -
    from grows grows' obtain es es' where "res_errors st = res_errors st0 @ es"
      "res_errors st' = res_errors st @ es'" unfolding resolver_grows_def by blast
    with that(1) have eq: "res_errors st = res_errors st0" "res_errors st' = res_errors st" by simp_all
    show ?thesis
    proof (cases "x = a")
      case True
      with eq post show ?thesis by (auto simp: resolved_def split: option.splits)
    next
      case False
      with that ds [OF eq(1)] have "map_of (res_aliases st) x \<noteq> None" by auto
      then show ?thesis using grows' unfolding resolver_grows_def by (metis domIff map_le_def)
    qed
  qed
  then have "instances_inv catalog imports st0 (ds @ [a]) st'"
    unfolding instances_inv_def using inv' resolver_grows_trans [OF grows grows'] by blast
  with r show ?thesis by simp
qed

lemma instances_ok:
  assumes "map_of (cat_flows catalog) flow = Some d"
  shows "\<exists>st. fold_option (\<lambda>a st. map_option snd (resolve_instance catalog imports a [] st)) as
      (initial_resolver flow d e0) = Some st
    \<and> instances_inv catalog imports (initial_resolver flow d e0) as st"
proof -
  have "instances_inv catalog imports (initial_resolver flow d e0) [] (initial_resolver flow d e0)"
    using assms by (auto simp: instances_inv_def resolver_grows_refl resolver_inv_def alias_ok_def
        initial_resolver_def bt_ok_Cons)
  from fold_option_rule [where I = "instances_inv catalog imports (initial_resolver flow d e0)", OF this]
  show ?thesis using instances_step_ok by fastforce
qed

lemma aliases_ok_resolver: "resolver_inv catalog imports st \<Longrightarrow> aliases_ok (res_instances st) (res_aliases st)"
  unfolding aliases_ok_def using resolver_inv_alias by fastforce

text \<open>The main loop.\<close>

definition graph_inv ::
  "(json \<Rightarrow> (string, predicate) result) \<Rightarrow> composition_catalog \<Rightarrow> (string, flow_instance) btree \<Rightarrow>
   (string, string) btree \<Rightarrow> diagnostic list \<Rightarrow> (string \<times> string \<times> connection) set \<Rightarrow>
   (string \<times> string \<times> data_binding) set \<Rightarrow> resolution \<Rightarrow> bool" where
  "graph_inv from_value catalog insts aliases e0 C B st \<longleftrightarrow>
     (\<exists>es. rs_errors st = e0 @ es \<and> (es = [] \<longrightarrow>
        routes.stored from_value (cat_types catalog) insts aliases C (rs_routes st) (rs_tools st)
        \<and> bindings.stored (cat_types catalog) insts aliases B (rs_bindings st) (rs_bound st)))"

lemma graph_inv_connection:
  assumes inv: "graph_inv from_value catalog insts aliases e0 C B st"
    and post: "connection_post from_value (cat_types catalog) insts aliases b (i, c) st st'"
    and inj: "path_injective (insert (b, i, c) C)"
  shows "graph_inv from_value catalog insts aliases e0 (insert (b, i, c) C) B st'"
proof -
  from post obtain es' where es': "rs_errors st' = rs_errors st @ es'" unfolding connection_post_def by blast
  from inv obtain es where es: "rs_errors st = e0 @ es" unfolding graph_inv_def by blast
  have "routes.stored from_value (cat_types catalog) insts aliases (insert (b, i, c) C)
      (rs_routes st') (rs_tools st')
    \<and> bindings.stored (cat_types catalog) insts aliases B (rs_bindings st') (rs_bound st')"
    if "es @ es' = []"
  proof -
    from that post es' obtain r where r: "route_spec from_value (cat_types catalog) insts aliases b c r"
      "rs_routes st' = bt_insert (path b i) r (rs_routes st)" "rs_tools st' = tool_key r @ rs_tools st"
      "set (tool_key r) \<inter> set (rs_tools st) = {}"
      "rs_bindings st' = rs_bindings st" "rs_bound st' = rs_bound st"
      unfolding connection_post_def path_def by auto
    from inv es that have "routes.stored from_value (cat_types catalog) insts aliases C (rs_routes st) (rs_tools st)"
      and B: "bindings.stored (cat_types catalog) insts aliases B (rs_bindings st) (rs_bound st)"
      by (auto simp: graph_inv_def)
    from routes.stored_insert [OF this(1) inj r(1,4)] B r show ?thesis by simp
  qed
  then show ?thesis unfolding graph_inv_def using es es' by (intro exI [of _ "es @ es'"]) simp
qed

lemma graph_inv_binding:
  assumes inv: "graph_inv from_value catalog insts aliases e0 C B st"
    and post: "binding_post (cat_types catalog) insts aliases b (i, d) st st'"
    and inj: "path_injective (insert (b, i, d) B)"
  shows "graph_inv from_value catalog insts aliases e0 C (insert (b, i, d) B) st'"
proof -
  from post obtain es' where es': "rs_errors st' = rs_errors st @ es'" unfolding binding_post_def by blast
  from inv obtain es where es: "rs_errors st = e0 @ es" unfolding graph_inv_def by blast
  have "routes.stored from_value (cat_types catalog) insts aliases C (rs_routes st') (rs_tools st')
    \<and> bindings.stored (cat_types catalog) insts aliases (insert (b, i, d) B) (rs_bindings st') (rs_bound st')"
    if "es @ es' = []"
  proof -
    from that post es' obtain r where r: "binding_spec (cat_types catalog) insts aliases b d r"
      "rs_bindings st' = bt_insert (path b i) r (rs_bindings st)" "rs_bound st' = bound_key r # rs_bound st"
      "bound_key r \<notin> set (rs_bound st)"
      "rs_routes st' = rs_routes st" "rs_tools st' = rs_tools st"
      unfolding binding_post_def path_def by auto
    from inv es that have "bindings.stored (cat_types catalog) insts aliases B (rs_bindings st) (rs_bound st)"
      and C: "routes.stored from_value (cat_types catalog) insts aliases C (rs_routes st) (rs_tools st)"
      by (auto simp: graph_inv_def)
    from bindings.stored_insert [OF this(1) inj r(1)] C r show ?thesis by simp
  qed
  then show ?thesis unfolding graph_inv_def using es es' by (intro exI [of _ "es @ es'"]) simp
qed

lemma connections_ok:
  assumes al: "aliases_ok insts aliases" and inv: "graph_inv from_value catalog insts aliases e0 C B st"
    and inj: "path_injective (C \<union> (\<lambda>(i, c). (b, i, c)) ` set cs)"
  shows "\<exists>st'. fold_option (connection_step from_value (cat_types catalog) insts aliases b) cs st = Some st'
    \<and> graph_inv from_value catalog insts aliases e0 (C \<union> (\<lambda>(i, c). (b, i, c)) ` set cs) B st'"
proof -
  let ?I = "\<lambda>ds st. set ds \<subseteq> set cs \<and>
    graph_inv from_value catalog insts aliases e0 (C \<union> (\<lambda>(i, c). (b, i, c)) ` set ds) B st"
  have "\<exists>st'. connection_step from_value (cat_types catalog) insts aliases b x st = Some st' \<and> ?I (ds @ [x]) st'"
    if "?I ds st" "x \<in> set cs" for ds x st
  proof -
    obtain i c where x: "x = (i, c)" by fastforce
    from connection_step_ok [OF al] obtain st'
      where st': "connection_step from_value (cat_types catalog) insts aliases b x st = Some st'"
        and post: "connection_post from_value (cat_types catalog) insts aliases b x st st'" by blast
    from that x have "insert (b, i, c) (C \<union> (\<lambda>(i, c). (b, i, c)) ` set ds)
        \<subseteq> C \<union> (\<lambda>(i, c). (b, i, c)) ` set cs" by force
    from graph_inv_connection [OF conjunct2 [OF that(1)] post [unfolded x] path_injective_subset [OF inj this]]
    have "?I (ds @ [x]) st'" using that x by (simp add: Un_commute)
    with st' show ?thesis by blast
  qed
  moreover have "?I [] st" using inv by simp
  ultimately have "\<exists>st'. fold_option (connection_step from_value (cat_types catalog) insts aliases b) cs st
      = Some st' \<and> ?I ([] @ cs) st'" by (intro fold_option_rule [where I = ?I]) auto
  then show ?thesis by auto
qed

lemma bindings_ok:
  assumes al: "aliases_ok insts aliases" and inv: "graph_inv from_value catalog insts aliases e0 C B st"
    and inj: "path_injective (B \<union> (\<lambda>(i, c). (b, i, c)) ` set cs)"
  shows "\<exists>st'. fold_option (binding_step (cat_types catalog) insts aliases b) cs st = Some st'
    \<and> graph_inv from_value catalog insts aliases e0 C (B \<union> (\<lambda>(i, c). (b, i, c)) ` set cs) st'"
proof -
  let ?I = "\<lambda>ds st. set ds \<subseteq> set cs \<and>
    graph_inv from_value catalog insts aliases e0 C (B \<union> (\<lambda>(i, c). (b, i, c)) ` set ds) st"
  have "\<exists>st'. binding_step (cat_types catalog) insts aliases b x st = Some st' \<and> ?I (ds @ [x]) st'"
    if "?I ds st" "x \<in> set cs" for ds x st
  proof -
    obtain i c where x: "x = (i, c)" by fastforce
    from binding_step_ok [OF al] obtain st'
      where st': "binding_step (cat_types catalog) insts aliases b x st = Some st'"
        and post: "binding_post (cat_types catalog) insts aliases b x st st'" by blast
    from that x have "insert (b, i, c) (B \<union> (\<lambda>(i, c). (b, i, c)) ` set ds)
        \<subseteq> B \<union> (\<lambda>(i, c). (b, i, c)) ` set cs" by force
    from graph_inv_binding [OF conjunct2 [OF that(1)] post [unfolded x] path_injective_subset [OF inj this]]
    have "?I (ds @ [x]) st'" using that x by (simp add: Un_commute)
    with st' show ?thesis by blast
  qed
  moreover have "?I [] st" using inv by simp
  ultimately have "\<exists>st'. fold_option (binding_step (cat_types catalog) insts aliases b) cs st
      = Some st' \<and> ?I ([] @ cs) st'" by (intro fold_option_rule [where I = ?I]) auto
  then show ?thesis by auto
qed

lemma bridges_ok:
  assumes al: "aliases_ok insts aliases" and ord: "ordered_parts catalog"
    and act: "valid_active catalog (set active)" and st: "rs_errors st = e0" "rs_tools st = []"
      "rs_bound st = []" "rs_routes st = []" "rs_bindings st = []"
  shows "\<exists>st'. fold_option (bridge_step from_value catalog insts aliases) active st = Some st'
    \<and> graph_inv from_value catalog insts aliases e0 (declared catalog bridge_connections (set active))
        (declared catalog bridge_bindings (set active)) st'"
proof -
  let ?I = "\<lambda>ds st. set ds \<subseteq> set active \<and> graph_inv from_value catalog insts aliases e0
    (declared catalog bridge_connections (set ds)) (declared catalog bridge_bindings (set ds)) st"
  have inj: "path_injective (declared catalog bridge_connections A)"
    "path_injective (declared catalog bridge_bindings A)" if "A \<subseteq> set active" for A
    using ord act that by (auto intro!: declared_injective simp: ordered_parts_def valid_active_def)
  have "\<exists>st'. bridge_step from_value catalog insts aliases b st = Some st' \<and> ?I (ds @ [b]) st'"
    if "?I ds st" "b \<in> set active" for ds b st
  proof -
    from that(2) act have "b \<in> set (keys (cat_bridges catalog))" by (auto simp: valid_active_def)
    then obtain d where d: "map_of (cat_bridges catalog) b = Some d" by (auto simp: keys_iff)
    from that have A: "insert b (set ds) \<subseteq> set active" by simp
    from connections_ok [OF al conjunct2 [OF that(1)] inj(1) [OF A, unfolded declared_insert [OF d]]]
    obtain st1 where st1: "fold_option (connection_step from_value (cat_types catalog) insts aliases b)
        (bridge_connections d) st = Some st1"
      and inv1: "graph_inv from_value catalog insts aliases e0
        (declared catalog bridge_connections (set ds) \<union> (\<lambda>(i, c). (b, i, c)) ` set (bridge_connections d))
        (declared catalog bridge_bindings (set ds)) st1" by blast
    from bindings_ok [OF al inv1 inj(2) [OF A, unfolded declared_insert [OF d]]]
    show ?thesis using d st1 A by (simp add: bridge_step_def declared_insert)
  qed
  moreover have "?I [] st"
    using st by (simp add: graph_inv_def routes.stored_empty bindings.stored_empty)
  ultimately have "\<exists>st'. fold_option (bridge_step from_value catalog insts aliases) active st = Some st'
      \<and> ?I ([] @ active) st'" by (intro fold_option_rule [where I = ?I]) auto
  then show ?thesis by auto
qed

text \<open>All phases run to completion and only add errors, on any catalog.\<close>

lemma imports_grow:
  assumes "set active \<subseteq> set (keys (cat_bridges catalog))"
  shows "\<exists>m es. fold_option (imports_step catalog) active ([], e0) = Some (m, e0 @ es)"
proof -
  let ?I = "\<lambda>(ds :: string list) s. \<exists>m es. s = (m :: (string, flow_import) btree, e0 @ es)"
  have "\<exists>s'. imports_step catalog b s = Some s' \<and> ?I (ds @ [b]) s'"
    if "?I ds s" "b \<in> set active" for ds b s
  proof -
    from that(2) assms obtain d where d: "map_of (cat_bridges catalog) b = Some d"
      using keys_iff [of b "cat_bridges catalog"] by auto
    from that(1) obtain m es where s: "s = (m, e0 @ es)" by blast
    show ?thesis unfolding imports_step_def d s option.map imports_fold by simp
  qed
  then have "\<exists>s'. fold_option (imports_step catalog) active ([], e0) = Some s' \<and> ?I ([] @ active) s'"
    by (intro fold_option_rule [where I = ?I]) auto
  then show ?thesis by auto
qed

lemma steps_grow:
  assumes "\<And>x st. \<exists>st'. f x st = Some st' \<and> (\<exists>es. rs_errors st' = rs_errors st @ es)"
  shows "\<exists>st'. fold_option f xs st = Some st' \<and> (\<exists>es. rs_errors st' = rs_errors st @ es)"
proof -
  let ?I = "\<lambda>ds st'. \<exists>es. rs_errors st' = rs_errors st @ es"
  have "\<exists>s'. f x s = Some s' \<and> ?I (ds @ [x]) s'" if "?I ds s" for ds x s
    using assms [of x s] that by (metis append.assoc)
  then have "\<exists>st'. fold_option f xs st = Some st' \<and> ?I ([] @ xs) st'"
    by (intro fold_option_rule [where I = ?I]) auto
  then show ?thesis by simp
qed

lemma bridges_grow:
  assumes al: "aliases_ok insts aliases" and act: "set active \<subseteq> set (keys (cat_bridges catalog))"
  shows "\<exists>st'. fold_option (bridge_step from_value catalog insts aliases) active st = Some st'
    \<and> (\<exists>es. rs_errors st' = rs_errors st @ es)"
proof -
  let ?I = "\<lambda>ds st'. \<exists>es. rs_errors st' = rs_errors st @ es"
  have "\<exists>st2. bridge_step from_value catalog insts aliases b st1 = Some st2 \<and> ?I (ds @ [b]) st2"
    if "?I ds st1" "b \<in> set active" for ds b st1
  proof -
    from that(2) act obtain d where d: "map_of (cat_bridges catalog) b = Some d"
      using keys_iff [of b "cat_bridges catalog"] by auto
    have "\<exists>st'. connection_step from_value (cat_types catalog) insts aliases b x st = Some st'
        \<and> (\<exists>es. rs_errors st' = rs_errors st @ es)" for x st
      using connection_step_ok [OF al] unfolding connection_post_def by blast
    from steps_grow [of "connection_step from_value (cat_types catalog) insts aliases b", OF this]
    obtain sa ea where sa: "fold_option (connection_step from_value (cat_types catalog) insts aliases b)
        (bridge_connections d) st1 = Some sa" "rs_errors sa = rs_errors st1 @ ea" by blast
    have "\<exists>st'. binding_step (cat_types catalog) insts aliases b x st = Some st'
        \<and> (\<exists>es. rs_errors st' = rs_errors st @ es)" for x st
      using binding_step_ok [OF al] unfolding binding_post_def by blast
    from steps_grow [of "binding_step (cat_types catalog) insts aliases b", OF this]
    obtain sb eb where sb: "fold_option (binding_step (cat_types catalog) insts aliases b)
        (bridge_bindings d) sa = Some sb" "rs_errors sb = rs_errors sa @ eb" by blast
    from that(1) sa sb d show ?thesis by (auto simp: bridge_step_def)
  qed
  then have "\<exists>st'. fold_option (bridge_step from_value catalog insts aliases) active st = Some st'
      \<and> ?I ([] @ active) st'" by (intro fold_option_rule [where I = ?I]) auto
  then show ?thesis by simp
qed

lemma active_keys:
  "active_bridges catalog bridges es = (active, es') \<Longrightarrow>
     set active \<subseteq> set (keys (cat_bridges catalog)) \<and> (\<exists>ds. es' = es @ ds)"
  using active_bridges_post [of catalog bridges es] by (auto simp: dep_post_def)

definition entry_errors :: "flow_definition \<Rightarrow> string \<Rightarrow> diagnostic list" where
  "entry_errors root_flow entry =
     (if map_of (flow_entries root_flow) entry = None
      then [diag ''unknown_entry'' ''request.entry''
             ''Selected entry is not exposed by the root flow''] else [])"

definition empty_resolution :: "diagnostic list \<Rightarrow> resolution" where
  "empty_resolution errors =
     \<lparr>rs_errors = errors, rs_tools = [], rs_bound = [], rs_routes = [], rs_bindings = []\<rparr>"

text \<open>The run of the resolver on a request whose root flow exists.\<close>

lemma resolve_run:
  assumes act: "active_bridges catalog (req_bridges request)
      (type_registry_errors (cat_types catalog)) = (active, e1)"
    and root: "map_of (cat_flows catalog) (req_flow request) = Some root_flow"
  obtains imps e2 r st e3 bridges where
    "fold_option (imports_step catalog) active ([], e1 @ entry_errors root_flow (req_entry request))
       = Some (imps, e1 @ entry_errors root_flow (req_entry request) @ e2)"
    "instances_inv catalog imps (initial_resolver (req_flow request) root_flow
       (e1 @ entry_errors root_flow (req_entry request) @ e2)) (keys imps) r"
    "fold_option (bridge_step from_value catalog (res_instances r) (res_aliases r)) active
       (empty_resolution (res_errors r @ validate_instances (cat_types catalog) (res_instances r) [])) = Some st"
    "rs_errors st = (res_errors r @ validate_instances (cat_types catalog) (res_instances r) []) @ e3"
    "those (map (\<lambda>b. map_option (Pair b) (map_of (cat_bridges catalog) b)) active) = Some bridges"
    "resolve from_value catalog request =
       (let errors = rs_errors st @ unbound_errors (res_instances r) (rs_bound st)
        in if errors \<noteq> [] then Some (Inl errors)
           else Some (Inr
             \<lparr>graph_entry = \<lparr>end_instance = ''root'', end_port = req_entry request\<rparr>,
              graph_types = cat_types catalog, graph_bridges = bridges,
              graph_instances = res_instances r, graph_aliases = res_aliases r,
              graph_routes = rs_routes st, graph_bindings = rs_bindings st,
              graph_inferences = resolved_inferences (res_instances r)\<rparr>))"
proof -
  let ?e = "e1 @ entry_errors root_flow (req_entry request)"
  from act have keys: "set active \<subseteq> set (keys (cat_bridges catalog))" by (blast dest: active_keys)
  from imports_grow [OF keys, of ?e] obtain imps e2
    where imp: "fold_option (imports_step catalog) active ([], ?e) = Some (imps, ?e @ e2)" by blast
  from instances_ok [OF root] obtain r
    where r: "fold_option (\<lambda>a st. map_option snd (resolve_instance catalog imps a [] st)) (keys imps)
        (initial_resolver (req_flow request) root_flow (?e @ e2)) = Some r"
      and ri: "instances_inv catalog imps (initial_resolver (req_flow request) root_flow (?e @ e2))
        (keys imps) r" by blast
  then have al: "aliases_ok (res_instances r) (res_aliases r)"
    by (auto simp: instances_inv_def intro: aliases_ok_resolver)
  from bridges_grow [OF al keys] obtain st e3
    where st: "fold_option (bridge_step from_value catalog (res_instances r) (res_aliases r)) active
        (empty_resolution (res_errors r @ validate_instances (cat_types catalog) (res_instances r) []))
        = Some st"
      and e3: "rs_errors st = (res_errors r @ validate_instances (cat_types catalog) (res_instances r) []) @ e3"
    by (fastforce simp: empty_resolution_def)
  have "those (map (\<lambda>b. map_option (Pair b) (map_of (cat_bridges catalog) b)) active) \<noteq> None"
    using keys keys_iff [of _ "cat_bridges catalog"] by (induction active) fastforce+
  then obtain bridges
    where b: "those (map (\<lambda>b. map_option (Pair b) (map_of (cat_bridges catalog) b)) active) = Some bridges"
    by blast
  show thesis
  proof (rule that)
    show "fold_option (imports_step catalog) active ([], ?e) = Some (imps, e1 @ entry_errors root_flow (req_entry request) @ e2)"
      using imp by simp
    show "resolve from_value catalog request =
       (let errors = rs_errors st @ unbound_errors (res_instances r) (rs_bound st)
        in if errors \<noteq> [] then Some (Inl errors)
           else Some (Inr
             \<lparr>graph_entry = \<lparr>end_instance = ''root'', end_port = req_entry request\<rparr>,
              graph_types = cat_types catalog, graph_bridges = bridges,
              graph_instances = res_instances r, graph_aliases = res_aliases r,
              graph_routes = rs_routes st, graph_bindings = rs_bindings st,
              graph_inferences = resolved_inferences (res_instances r)\<rparr>))"
      unfolding resolve_def act prod.case root option.case Let_def entry_errors_def [symmetric] imp
        r empty_resolution_def [symmetric] st b by simp
  qed (use ri st e3 b in simp_all)
qed

text \<open>
  C13. Resolution never panics: on every catalog and request, whatever it declares, all map
  accesses of the resolver hit and it returns a graph or a list of diagnostics.
\<close>

theorem resolve_total: "\<exists>r. resolve from_value catalog request = Some r"
proof -
  obtain active e1 where act: "active_bridges catalog (req_bridges request)
      (type_registry_errors (cat_types catalog)) = (active, e1)" by fastforce
  show ?thesis
  proof (cases "map_of (cat_flows catalog) (req_flow request)")
    case None
    with act show ?thesis by (simp add: resolve_def)
  next
    case (Some root_flow)
    from act Some show ?thesis
      by (rule resolve_run [of catalog request active e1 root_flow from_value]) (simp add: Let_def)
  qed
qed

subsection \<open>Resolved graphs\<close>

abbreviation closure :: "composition_catalog \<Rightarrow> resolve_request \<Rightarrow> string set" where
  "closure catalog request \<equiv> (requires_rel (cat_bridges catalog))\<^sup>* `` set (req_bridges request)"

lemma those_pairs:
  "those (map (\<lambda>b. map_option (Pair b) (f b)) bs) = Some ps \<Longrightarrow>
     map fst ps = bs \<and> (\<forall>(b, d) \<in> set ps. f b = Some d)"
  by (induction bs arbitrary: ps) (auto split: option.splits)

text \<open>Everything the phases establish about a graph that was returned.\<close>

lemma resolve_okE:
  assumes ok: "resolve from_value catalog request = Some (Inr g)" and ord: "ordered_catalog catalog"
  obtains imps r and st :: resolution and root_flow where
    "imports_inv catalog [] (closure catalog request) (imps, [])"
    "resolver_inv catalog imps r" "\<forall>a \<in> set (keys imps). map_of (res_aliases r) a \<noteq> None"
    "map_of (cat_flows catalog) (req_flow request) = Some root_flow"
    "map_of (flow_entries root_flow) (req_entry request) \<noteq> None"
    "map_of (res_instances r) ''root'' = Some \<lparr>inst_flow = req_flow request, inst_definition = root_flow\<rparr>"
    "validate_instances (cat_types catalog) (res_instances r) [] = []"
    "routes.stored from_value (cat_types catalog) (res_instances r) (res_aliases r)
       (declared catalog bridge_connections (closure catalog request)) (graph_routes g) (rs_tools st)"
    "bindings.stored (cat_types catalog) (res_instances r) (res_aliases r)
       (declared catalog bridge_bindings (closure catalog request)) (graph_bindings g) (rs_bound st)"
    "unbound_errors (res_instances r) (rs_bound st) = []"
    "graph_instances g = res_instances r" "graph_aliases g = res_aliases r"
    "set (keys (graph_bridges g)) = closure catalog request"
    "valid_active catalog (closure catalog request)"
proof -
  obtain active e1 where act: "active_bridges catalog (req_bridges request)
      (type_registry_errors (cat_types catalog)) = (active, e1)" by fastforce
  from ok obtain root_flow where root: "map_of (cat_flows catalog) (req_flow request) = Some root_flow"
    by (cases "map_of (cat_flows catalog) (req_flow request)") (auto simp: resolve_def act)
  obtain imps e2 r st e3 bridges where imp: "fold_option (imports_step catalog) active
      ([], e1 @ entry_errors root_flow (req_entry request))
       = Some (imps, e1 @ entry_errors root_flow (req_entry request) @ e2)"
    and ri: "instances_inv catalog imps (initial_resolver (req_flow request) root_flow
       (e1 @ entry_errors root_flow (req_entry request) @ e2)) (keys imps) r"
    and st: "fold_option (bridge_step from_value catalog (res_instances r) (res_aliases r)) active
       (empty_resolution (res_errors r @ validate_instances (cat_types catalog) (res_instances r) [])) = Some st"
    and e3: "rs_errors st = (res_errors r @ validate_instances (cat_types catalog) (res_instances r) []) @ e3"
    and bs: "those (map (\<lambda>b. map_option (Pair b) (map_of (cat_bridges catalog) b)) active) = Some bridges"
    and res: "resolve from_value catalog request =
       (let errors = rs_errors st @ unbound_errors (res_instances r) (rs_bound st)
        in if errors \<noteq> [] then Some (Inl errors)
           else Some (Inr
             \<lparr>graph_entry = \<lparr>end_instance = ''root'', end_port = req_entry request\<rparr>,
              graph_types = cat_types catalog, graph_bridges = bridges,
              graph_instances = res_instances r, graph_aliases = res_aliases r,
              graph_routes = rs_routes st, graph_bindings = rs_bindings st,
              graph_inferences = resolved_inferences (res_instances r)\<rparr>))"
    by (rule resolve_run [OF act root])
  from ok res have none: "rs_errors st = []" "unbound_errors (res_instances r) (rs_bound st) = []"
    and g: "graph_bridges g = bridges" "graph_instances g = res_instances r" "graph_aliases g = res_aliases r"
      "graph_routes g = rs_routes st" "graph_bindings g = rs_bindings st"
    by (auto simp: Let_def split: if_splits)
  from none(1) e3 have v: "res_errors r = []" "validate_instances (cat_types catalog) (res_instances r) [] = []"
    by simp_all
  from ri have grows: "resolver_grows [] (initial_resolver (req_flow request) root_flow
       (e1 @ entry_errors root_flow (req_entry request) @ e2)) r" by (simp add: instances_inv_def)
  with v(1) have e: "e1 = []" "entry_errors root_flow (req_entry request) = []" "e2 = []"
    by (auto simp: resolver_grows_def initial_resolver_def)
  from act e(1) active_keys [OF act]
  have "active_bridges catalog (req_bridges request) [] = (active, [])" by auto
  note a = active_bridges_valid [OF this]
  then have "requires_rel (cat_bridges catalog) `` set active \<subseteq> set active"
    by (simp add: valid_active_def)
  from Image_closed_trancl [OF this] a(3,4) have A: "set active = closure catalog request" by blast
  from imports_ok [OF ordered_catalog_parts [OF ord] a(1), of "[]"] imp e
  have ii: "imports_inv catalog [] (closure catalog request) (imps, [])" by (simp add: A)
  from ri have inv: "resolver_inv catalog imps r" by (simp add: instances_inv_def)
  from bridges_ok [OF aliases_ok_resolver [OF inv] ordered_catalog_parts [OF ord] a(1),
      of "empty_resolution []" "[]" from_value] st v none(1)
  have gi: "graph_inv from_value catalog (res_instances r) (res_aliases r) []
      (declared catalog bridge_connections (closure catalog request))
      (declared catalog bridge_bindings (closure catalog request)) st"
    by (simp add: empty_resolution_def A)
  show thesis
  proof (rule that [OF ii inv _ root _ _ v(2) _ _ none(2) g(2,3)])
    show "\<forall>a \<in> set (keys imps). map_of (res_aliases r) a \<noteq> None"
      using ri v(1) e by (simp add: instances_inv_def initial_resolver_def)
    show "map_of (flow_entries root_flow) (req_entry request) \<noteq> None"
      using e(2) by (simp add: entry_errors_def split: if_splits)
    show "map_of (res_instances r) ''root'' = Some \<lparr>inst_flow = req_flow request, inst_definition = root_flow\<rparr>"
      using grows by (simp add: resolver_grows_def initial_resolver_def map_le_def)
    show "set (keys (graph_bridges g)) = closure catalog request"
      using those_pairs [OF bs] by (simp add: g keys_def A)
    show "valid_active catalog (closure catalog request)" using a(1) by (simp add: A)
  qed (use gi none(1) g in \<open>simp_all add: graph_inv_def\<close>)
qed

text \<open>
  C14. In a resolved graph the routes are exactly the connections of the active bridges, each under
  its own path and each meeting its specification: its ends are instances of the graph that
  expose the branch and the entry, the argument (and, for an awaited call, result) types are
  compatible, the invocation is permitted, tools and conditions are present exactly when
  demanded; and no instance offers two tools of the same name.
\<close>

theorem resolve_routes:
  assumes "resolve from_value catalog request = Some (Inr g)" and "ordered_catalog catalog"
  shows "(\<forall>(b, i, c) \<in> declared catalog bridge_connections (closure catalog request).
      \<exists>r. map_of (graph_routes g) (path b i) = Some r
        \<and> route_spec from_value (cat_types catalog) (graph_instances g) (graph_aliases g) b c r)
    \<and> (\<forall>k r. map_of (graph_routes g) k = Some r \<longrightarrow>
      (\<exists>b i c. (b, i, c) \<in> declared catalog bridge_connections (closure catalog request) \<and> k = path b i
        \<and> route_spec from_value (cat_types catalog) (graph_instances g) (graph_aliases g) b c r))
    \<and> (\<forall>k r k' r'. map_of (graph_routes g) k = Some r \<longrightarrow> map_of (graph_routes g) k' = Some r' \<longrightarrow>
      k \<noteq> k' \<longrightarrow> set (tool_key r) \<inter> set (tool_key r') = {})"
proof -
  from assms obtain r :: resolver and st :: resolution where
    "routes.stored from_value (cat_types catalog) (res_instances r) (res_aliases r)
       (declared catalog bridge_connections (closure catalog request)) (graph_routes g) (rs_tools st)"
    "graph_instances g = res_instances r" "graph_aliases g = res_aliases r"
    by (rule resolve_okE) (rule that)
  then show ?thesis unfolding routes.stored_def by simp
qed

text \<open>
  C15. In a resolved graph the data bindings are exactly the declared ones of the active bridges,
  each within the grants of the exposure and equal to the requirement, with types compatible
  in every granted direction; every mandatory requirement of every instance is bound, and no
  requirement is bound twice.
\<close>

theorem resolve_bindings:
  assumes "resolve from_value catalog request = Some (Inr g)" and "ordered_catalog catalog"
  shows "(\<forall>(b, i, d) \<in> declared catalog bridge_bindings (closure catalog request).
      \<exists>r. map_of (graph_bindings g) (path b i) = Some r
        \<and> binding_spec (cat_types catalog) (graph_instances g) (graph_aliases g) b d r)
    \<and> (\<forall>k r. map_of (graph_bindings g) k = Some r \<longrightarrow>
      (\<exists>b i d. (b, i, d) \<in> declared catalog bridge_bindings (closure catalog request) \<and> k = path b i
        \<and> binding_spec (cat_types catalog) (graph_instances g) (graph_aliases g) b d r))
    \<and> (\<forall>k r k' r'. map_of (graph_bindings g) k = Some r \<longrightarrow> map_of (graph_bindings g) k' = Some r' \<longrightarrow>
      k \<noteq> k' \<longrightarrow> bound_key r \<noteq> bound_key r')
    \<and> (\<forall>(n, inst) \<in> set (graph_instances g). \<forall>(q, req) \<in> set (flow_requires (inst_definition inst)).
      \<not> required_optional req \<longrightarrow>
        (\<exists>k r. map_of (graph_bindings g) k = Some r \<and> bound_key r = (n, q)))"
proof -
  from assms obtain r :: resolver and st :: resolution where
    stored: "bindings.stored (cat_types catalog) (res_instances r) (res_aliases r)
       (declared catalog bridge_bindings (closure catalog request)) (graph_bindings g) (rs_bound st)"
    and un: "unbound_errors (res_instances r) (rs_bound st) = []"
    and g: "graph_instances g = res_instances r" "graph_aliases g = res_aliases r"
    by (rule resolve_okE) (rule that)
  have "\<exists>k r. map_of (graph_bindings g) k = Some r \<and> bound_key r = (n, q)"
    if "(n, inst) \<in> set (graph_instances g)" "(q, req) \<in> set (flow_requires (inst_definition inst))"
      "\<not> required_optional req" for n inst q req
  proof -
    have "(n, q) \<in> set (rs_bound st)"
      using un that unfolding g unbound_errors_def by (fastforce split: if_splits)
    then have "(n, q) \<in> (\<Union>r \<in> ran (map_of (graph_bindings g)). {bound_key r})"
      using stored unfolding bindings.stored_def by simp
    then obtain k x where "map_of (graph_bindings g) k = Some x" "bound_key x = (n, q)"
      by (auto simp: ran_def)
    then show ?thesis by blast
  qed
  moreover have "bound_key r1 \<noteq> bound_key r2"
    if "map_of (graph_bindings g) k1 = Some r1" "map_of (graph_bindings g) k2 = Some r2" "k1 \<noteq> k2" for k1 k2 r1 r2
    using stored that unfolding bindings.stored_def by fastforce
  moreover from stored have "\<forall>(b, i, d) \<in> declared catalog bridge_bindings (closure catalog request).
      \<exists>r. map_of (graph_bindings g) (path b i) = Some r
        \<and> binding_spec (cat_types catalog) (graph_instances g) (graph_aliases g) b d r"
    and "\<forall>k r. map_of (graph_bindings g) k = Some r \<longrightarrow>
      (\<exists>b i d. (b, i, d) \<in> declared catalog bridge_bindings (closure catalog request) \<and> k = path b i
        \<and> binding_spec (cat_types catalog) (graph_instances g) (graph_aliases g) b d r)"
    unfolding bindings.stored_def g by simp_all
  ultimately show ?thesis by (intro conjI) auto
qed

text \<open>
  C16. In a resolved graph every import of an active bridge denotes one instance of the imported
  flow: its own instance, or the instance that its reuse target denotes. The root alias
  denotes the selected flow with the selected entry. Every instance is denoted by itself and
  holds the catalogued definition of its flow.
\<close>

theorem resolve_instances:
  assumes "resolve from_value catalog request = Some (Inr g)" and "ordered_catalog catalog"
  shows "(\<forall>(b, i, imp) \<in> declared catalog bridge_imports (closure catalog request).
      \<exists>n inst. map_of (graph_aliases g) (path b i) = Some n \<and> map_of (graph_instances g) n = Some inst
        \<and> inst_flow inst = import_flow imp
        \<and> (case import_reuse imp of None \<Rightarrow> n = path b i | Some t \<Rightarrow> map_of (graph_aliases g) t = Some n))
    \<and> (\<exists>root_flow. map_of (graph_aliases g) ''root'' = Some ''root''
        \<and> map_of (graph_instances g) ''root'' =
            Some \<lparr>inst_flow = req_flow request, inst_definition = root_flow\<rparr>
        \<and> map_of (flow_entries root_flow) (req_entry request) \<noteq> None)
    \<and> (\<forall>n inst. map_of (graph_instances g) n = Some inst \<longrightarrow>
        map_of (graph_aliases g) n = Some n
        \<and> map_of (cat_flows catalog) (inst_flow inst) = Some (inst_definition inst))"
proof -
  from assms obtain imps and r :: resolver and root_flow where
    ii: "imports_inv catalog [] (closure catalog request) (imps, [])"
    and inv: "resolver_inv catalog imps r" and all: "\<forall>a \<in> set (keys imps). map_of (res_aliases r) a \<noteq> None"
    and root: "map_of (flow_entries root_flow) (req_entry request) \<noteq> None"
    "map_of (res_instances r) ''root'' = Some \<lparr>inst_flow = req_flow request, inst_definition = root_flow\<rparr>"
    and g: "graph_instances g = res_instances r" "graph_aliases g = res_aliases r"
    by (rule resolve_okE) (rule that)
  have "\<exists>n inst. map_of (graph_aliases g) (path b i) = Some n \<and> map_of (graph_instances g) n = Some inst
        \<and> inst_flow inst = import_flow imp
        \<and> (case import_reuse imp of None \<Rightarrow> n = path b i | Some t \<Rightarrow> map_of (graph_aliases g) t = Some n)"
    if "(b, i, imp) \<in> declared catalog bridge_imports (closure catalog request)" for b i imp
  proof -
    from ii that have imp: "map_of imps (path b i) = Some imp" by (auto simp: imports_inv_def)
    then have "path b i \<in> set (keys imps)" by (simp add: keys_iff)
    with all obtain n where n: "map_of (res_aliases r) (path b i) = Some n" by auto
    with inv have "alias_ok imps r (path b i) n" by (simp add: resolver_inv_def)
    moreover have "path b i \<noteq> ''root''"
    proof
      assume "path b i = ''root''"
      then have "CHR ''/'' \<in> set ''root''" by (metis path_def append_Cons in_set_conv_decomp)
      then show False by simp
    qed
    ultimately show ?thesis using imp n unfolding g alias_ok_def by auto
  qed
  then show ?thesis using root inv by (auto simp: g resolver_inv_def)
qed

text \<open>
  Resolution is deterministic in the requested bridges: their order and duplicates do not
  matter, and asking explicitly for bridges in any enumeration of the same set gives the same
  graph or the same diagnostics.
\<close>

lemma resolve_request_order:
  assumes "set bridges = set (req_bridges request)"
  shows "resolve from_value catalog (request\<lparr>req_bridges := bridges\<rparr>) = resolve from_value catalog request"
proof -
  have active: "active_bridges catalog bridges = active_bridges catalog (req_bridges request)"
    using bs_of_list_cong [OF assms] by (intro ext) (simp only: active_bridges_def)
  have fields: "req_flow (request\<lparr>req_bridges := bridges\<rparr>) = req_flow request"
    "req_entry (request\<lparr>req_bridges := bridges\<rparr>) = req_entry request"
    "req_bridges (request\<lparr>req_bridges := bridges\<rparr>) = bridges" by simp_all
  show ?thesis unfolding resolve_def fields active ..
qed

subsection \<open>A resolved example\<close>

text \<open>
  A root flow that calls a second flow through a branch and shares a dataset with it; the
  witnesses of the preceding theorems use it.
\<close>

definition text_port :: port_contract where
  "text_port = \<lparr>port_input = Text, port_output = Some Text\<rparr>"

definition caller_flow :: flow_definition where
  "caller_flow =
     \<lparr>flow_entries = [(''in'', text_port)],
      flow_branches = [(''out'', \<lparr>branch_contract = text_port, branch_invocations = [Node], branch_requesters = []\<rparr>)],
      flow_data = [(''d'', \<lparr>exposed_type = Text, exposed_permissions = read_write\<rparr>)],
      flow_requires = [], flow_inferences = []\<rparr>"

definition callee_flow :: flow_definition where
  "callee_flow =
     \<lparr>flow_entries = [(''start'', text_port)], flow_branches = [], flow_data = [],
      flow_requires = [(''q'', \<lparr>required_type = Text, required_permissions = read_only,
        required_optional = False\<rparr>)],
      flow_inferences = []\<rparr>"

definition local_end :: "string \<Rightarrow> string \<Rightarrow> endpoint" where
  "local_end i p = \<lparr>end_instance = i, end_port = p\<rparr>"

definition example_connection :: connection where
  "example_connection = new_connection (local_end ''root'' ''out'') (local_end ''s'' ''start'') CallAwait Node"

definition example_binding :: data_binding where
  "example_binding = \<lparr>bind_from = local_end ''root'' ''d'', bind_to = local_end ''s'' ''q'',
     bind_permissions = read_only\<rparr>"

definition example_bridge :: bridge_definition where
  "example_bridge = \<lparr>bridge_requires = [], bridge_imports = [(''s'', \<lparr>import_flow = ''callee'', import_reuse = None\<rparr>)],
     bridge_connections = [(''c'', example_connection)], bridge_bindings = [(''x'', example_binding)]\<rparr>"

definition example_catalog :: composition_catalog where
  "example_catalog = \<lparr>cat_types = [], cat_flows = [(''callee'', callee_flow), (''caller'', caller_flow)],
     cat_bridges = [(''a'', example_bridge)]\<rparr>"

definition example_request :: resolve_request where
  "example_request = \<lparr>req_flow = ''caller'', req_entry = ''in'', req_bridges = [''a'']\<rparr>"

definition example_graph :: runtime_graph where
  "example_graph =
     \<lparr>graph_entry = local_end ''root'' ''in'', graph_types = [], graph_bridges = [(''a'', example_bridge)],
      graph_instances = [(''a/s'', \<lparr>inst_flow = ''callee'', inst_definition = callee_flow\<rparr>),
        (''root'', \<lparr>inst_flow = ''caller'', inst_definition = caller_flow\<rparr>)],
      graph_aliases = [(''a/s'', ''a/s''), (''root'', ''root'')],
      graph_routes = [(''a/c'', \<lparr>route_bridge = ''a'', route_from = local_end ''root'' ''out'',
        route_to = local_end ''a/s'' ''start'', route_mode = CallAwait, route_invocation = Node,
        route_tool = None, route_condition = None, route_input = Text, route_output = Some Text\<rparr>)],
      graph_bindings = [(''a/x'', \<lparr>bound_bridge = ''a'', bound_from = local_end ''root'' ''d'',
        bound_to = local_end ''a/s'' ''q'', bound_permissions = read_only, bound_type = Text\<rparr>)],
      graph_inferences = []\<rparr>"

lemma example_names: "name_ok ''a''" "name_ok ''s''" "name_ok ''c''" "name_ok ''x''" "name_ok ''d''"
  "name_ok ''q''" "name_ok ''in''" "name_ok ''out''" "name_ok ''start''"
  by (simp_all add: name_ok_def name_errors_def trim_def trim_start_def trim_end_def
      strip_front.simps whitespace_encodings_def)

lemma example_names_Nil:
  "name_ok n \<Longrightarrow> name_errors n p = []" by simp

lemma validate_text: "validate_type Text types = Inr ()"
  by (simp add: validate_type_def check_type_rules)

lemma validate_callee: "validate_flow ''callee'' callee_flow [] = []"
  by (simp add: validate_flow_def callee_flow_def text_port_def contract_errors_def data_type_errors_def
      validate_text example_names permissions_errors_def read_only_def)

lemma validate_caller: "validate_flow ''caller'' caller_flow [] = []"
  by (simp add: validate_flow_def caller_flow_def text_port_def contract_errors_def data_type_errors_def
      validate_text example_names permissions_errors_def read_write_def branch_errors_def)

lemma example_active: "active_bridges example_catalog [''a''] [] = ([''a''], [])"
  by (simp add: active_bridges_def bs_of_list_def dependencies.simps example_catalog_def
      example_bridge_def example_names)

lemma example_imports:
  "fold_option (imports_step example_catalog) [''a''] ([], []) =
     Some ([(''a/s'', \<lparr>import_flow = ''callee'', import_reuse = None\<rparr>)], [])"
  by (simp add: imports_step_def example_catalog_def example_bridge_def example_names)

lemma compatible_text: "compatible Text Text []"
  by (simp add: compatible_def validate_text)

lemma example_resolves:
  "resolve from_value example_catalog example_request = Some (Inr example_graph)"
proof -
  let ?r = "\<lparr>res_aliases = graph_aliases example_graph, res_instances = graph_instances example_graph,
    res_errors = []\<rparr>"
  have res: "fold_option (\<lambda>alias st. map_option snd (resolve_instance example_catalog
        [(''a/s'', \<lparr>import_flow = ''callee'', import_reuse = None\<rparr>)] alias [] st)) [''a/s'']
      (initial_resolver ''caller'' caller_flow []) = Some ?r"
    by (simp add: resolve_instance.simps initial_resolver_def example_catalog_def record_alias_def
        example_graph_def)
  have val: "validate_instances [] (graph_instances example_graph) [] = []"
    by (simp add: example_graph_def validate_callee validate_caller)
  have step: "bridge_step from_value example_catalog (graph_instances example_graph)
      (graph_aliases example_graph) ''a'' (empty_resolution []) =
    Some \<lparr>rs_errors = [], rs_tools = [], rs_bound = [(''a/s'', ''q'')],
      rs_routes = graph_routes example_graph, rs_bindings = graph_bindings example_graph\<rparr>"
    by (simp add: bridge_step_def connection_step_def binding_step_def example_catalog_def
        example_bridge_def example_connection_def new_connection_def example_binding_def
        empty_resolution_def push_errors_def resolve_endpoint_def local_end_def example_graph_def
        caller_flow_def callee_flow_def text_port_def route_type_errors_def compatible_text
        route_tool_step_def route_condition_errors_def binding_errors_def perm_contains_def
        permissions_errors_def read_only_def read_write_def example_names)
  have un: "unbound_errors (graph_instances example_graph) [(''a/s'', ''q'')] = []"
    by (simp add: unbound_errors_def example_graph_def callee_flow_def caller_flow_def)
  have sel: "req_bridges example_request = [''a'']" "req_flow example_request = ''caller''"
    "req_entry example_request = ''in''" "cat_types example_catalog = []"
    "type_registry_errors [] = []" "map_of (cat_flows example_catalog) ''caller'' = Some caller_flow"
    "map_of (flow_entries caller_flow) ''in'' = Some text_port"
    "map_of (cat_bridges example_catalog) ''a'' = Some example_bridge"
    "resolved_inferences (graph_instances example_graph) = []"
    by (simp_all add: example_request_def example_catalog_def type_registry_errors_def caller_flow_def
        callee_flow_def resolved_inferences_def example_graph_def)
  show ?thesis
    unfolding resolve_def sel example_active prod.case Let_def option.case
    using example_imports res val step un sel
    by (simp add: empty_resolution_def) (simp add: example_graph_def local_end_def)
qed

lemma example_ordered: "ordered_catalog example_catalog"
  by (simp add: ordered_catalog_def example_catalog_def ordered_flow_def ordered_bridge_def
      caller_flow_def callee_flow_def example_bridge_def bt_ok_Cons)

lemma example_closure: "''a'' \<in> closure example_catalog example_request"
  by (auto simp: example_request_def)

theorem resolve_routes_witness:
  "\<exists>r. map_of (graph_routes example_graph) ''a/c'' = Some r
     \<and> route_spec (\<lambda>v. Inl []) [] (graph_instances example_graph) (graph_aliases example_graph) ''a''
         example_connection r"
proof -
  have "(''a'', ''c'', example_connection) \<in>
      declared example_catalog bridge_connections (closure example_catalog example_request)"
    using example_closure by (simp add: declared_def example_catalog_def example_bridge_def)
  with resolve_routes [OF example_resolves [of "\<lambda>v. Inl []"] example_ordered]
  have "\<exists>r. map_of (graph_routes example_graph) (path ''a'' ''c'') = Some r
     \<and> route_spec (\<lambda>v. Inl []) (cat_types example_catalog) (graph_instances example_graph)
         (graph_aliases example_graph) ''a'' example_connection r" by blast
  then show ?thesis by (simp add: path_def example_catalog_def)
qed

theorem resolve_bindings_witness:
  "\<exists>k r. map_of (graph_bindings example_graph) k = Some r \<and> bound_key r = (''a/s'', ''q'')"
proof -
  have "(''a/s'', \<lparr>inst_flow = ''callee'', inst_definition = callee_flow\<rparr>) \<in> set (graph_instances example_graph)"
    "(''q'', \<lparr>required_type = Text, required_permissions = read_only, required_optional = False\<rparr>)
       \<in> set (flow_requires callee_flow)"
    by (simp_all add: example_graph_def callee_flow_def)
  with resolve_bindings [OF example_resolves [of "\<lambda>v. Inl []"] example_ordered] show ?thesis by fastforce
qed

theorem resolve_instances_witness:
  "map_of (graph_aliases example_graph) ''a/s'' = Some ''a/s''
   \<and> map_of (cat_flows example_catalog) ''callee'' = Some callee_flow"
proof -
  have "map_of (graph_instances example_graph) ''a/s'' =
      Some \<lparr>inst_flow = ''callee'', inst_definition = callee_flow\<rparr>" by (simp add: example_graph_def)
  with resolve_instances [OF example_resolves [of "\<lambda>v. Inl []"] example_ordered] show ?thesis by fastforce
qed

end
