(* ===== verification/Zf_Content.thy ===== *)
theory Zf_Content
  imports Zf_Prelude
begin

text \<open>
  The content-addressed JSON store, \<open>zf-storage/src/content_store.rs\<close>: values are cut into
  immutable blobs that refer to each other by hash, arrays as shared prefix chains, long
  strings as chains of chunks.

  What is not in the repository is a parameter, the record \<open>codec\<close>: the digest of a serialized
  body (SHA-256 over \<open>serde_json::to_vec\<close>, 64 hexadecimal digits) and serde's printer and
  parser of the stored text. The theorems name what they need of them in \<open>codec_ok\<close>: no two
  of the bodies involved collide, and the stored text of a body parses back to it.

  The SQLite tables are the record \<open>content_db\<close>; a transaction either returns the new tables
  or an error and the old ones stay.
\<close>

subsection \<open>Parameters, errors, tables\<close>

record codec =
  cd_hash :: "json \<Rightarrow> string"
  cd_print :: "json \<Rightarrow> string"
  cd_parse :: "string \<Rightarrow> json option"

text \<open>
  One constructor per message of the source. \<open>NoProgress\<close> is not an error of the source: it is
  the value of the chunking loop when it would not advance, which happens for no UTF-8 text.
\<close>

datatype content_error =
    ContentDepth
  | MissingContent string
  | InvalidContentObject
  | InvalidReference
  | InvalidStringHead
  | MissingChunk
  | ChunkNotScalar
  | ChunkNotText
  | InvalidContentKind
  | CyclicSequence
  | MissingSequence
  | InvalidSequenceItem
  | InvalidSequenceParent
  | SequenceNotArray
  | BodyNotObject
  | MissingKind
  | InvalidScalar
  | InvalidEmptyArray
  | InvalidChunkedString
  | InvalidSequence
  | InvalidObjectContent
  | InvalidObjectEntries
  | InvalidObjectValue
  | UnknownKind string
  | InvalidContentReference
  | MissingInClosure
  | ParseError
  | HashMismatch string
  | MissingEdge
  | IncompleteImport
  | AppendTarget
  | NoProgress

record content_db =
  db_content :: "(string, string) btree"
  db_edges :: "(string \<times> string) list"
  db_records :: "((string \<times> string \<times> string) \<times> string) list"

record content_store =
  cs_db :: content_db
  cs_committed :: "string list"

record prepared_content =
  prep_reference :: string
  prep_pending :: "(string, json) btree"

subsection \<open>Bodies and references\<close>

definition scalar_body :: "json \<Rightarrow> json" where
  "scalar_body v = JObject [(''kind'', JString ''scalar''), (''value'', v)]"

definition array_body :: json where
  "array_body = JObject [(''kind'', JString ''array'')]"

definition sequence_body :: "string \<Rightarrow> string \<Rightarrow> json" where
  "sequence_body parent item =
     JObject [(''item'', JString item), (''kind'', JString ''sequence''), (''parent'', JString parent)]"

definition string_body :: "string \<Rightarrow> json" where
  "string_body head = JObject [(''head'', JString head), (''kind'', JString ''string'')]"

definition object_body :: "(string, string) btree \<Rightarrow> json" where
  "object_body entries =
     JObject [(''entries'', JObject (map (\<lambda>(k, r). (k, JString r)) entries)), (''kind'', JString ''object'')]"

definition reference :: "codec \<Rightarrow> json \<Rightarrow> string" where
  "reference x body = ''sha256:'' @ cd_hash x body"

definition add_blob :: "codec \<Rightarrow> json \<Rightarrow> (string, json) btree \<Rightarrow> string \<times> (string, json) btree" where
  "add_blob x body pending =
     (let i = reference x body
      in (i, if map_of pending i = None then bt_insert i body pending else pending))"

subsection \<open>Encoding\<close>

definition is_continuation :: "char \<Rightarrow> bool" where
  "is_continuation c \<longleftrightarrow> CHR 0x80 \<le> c \<and> c \<le> CHR 0xBF"

text \<open>\<open>str::floor_char_boundary\<close>\<close>

fun floor_char_boundary :: "string \<Rightarrow> nat \<Rightarrow> nat" where
  "floor_char_boundary s 0 = 0"
| "floor_char_boundary s (Suc n) =
     (if length s \<le> Suc n then length s
      else if is_continuation (s ! Suc n) then floor_char_boundary s n
      else Suc n)"

function text_chunks :: "string \<Rightarrow> string list option" where
  "text_chunks s =
     (if s = [] then Some []
      else (let end = floor_char_boundary s (min (length s) 4096)
            in if end = 0 then None
               else map_option (\<lambda>cs. take end s # cs) (text_chunks (drop end s))))"
  by pat_completeness auto
termination
  by (relation "measure length") auto

declare text_chunks.simps [simp del]

definition encode_chunk ::
  "codec \<Rightarrow> string \<Rightarrow> string \<times> (string, json) btree \<Rightarrow> string \<times> (string, json) btree" where
  "encode_chunk x chunk st =
     (let (item, pending) = add_blob x (scalar_body (JString chunk)) (snd st)
      in add_blob x (sequence_body (fst st) item) pending)"

function (sequential)
  encode :: "codec \<Rightarrow> json \<Rightarrow> (string, json) btree \<Rightarrow> nat \<Rightarrow>
    (content_error, string \<times> (string, json) btree) result" and
  encode_items :: "codec \<Rightarrow> json list \<Rightarrow> string \<times> (string, json) btree \<Rightarrow> nat \<Rightarrow>
    (content_error, string \<times> (string, json) btree) result" and
  encode_entries :: "codec \<Rightarrow> (string \<times> json) list \<Rightarrow> (string, string) btree \<times> (string, json) btree \<Rightarrow> nat \<Rightarrow>
    (content_error, (string, string) btree \<times> (string, json) btree) result"
where
  "encode x v pending depth =
     (if 512 < depth then Inl ContentDepth
      else (case v of
          JString text \<Rightarrow>
            (if 4096 < length text
             then (case text_chunks text of
                 None \<Rightarrow> Inl NoProgress
               | Some chunks \<Rightarrow>
                   (let (head, pending) = fold (encode_chunk x) chunks (add_blob x array_body pending)
                    in Inr (add_blob x (string_body head) pending)))
             else Inr (add_blob x (scalar_body v) pending))
        | JArray items \<Rightarrow> encode_items x items (add_blob x array_body pending) (depth + 1)
        | JObject items \<Rightarrow>
            (case encode_entries x items ([], pending) (depth + 1) of
               Inl e \<Rightarrow> Inl e
             | Inr (entries, pending) \<Rightarrow> Inr (add_blob x (object_body entries) pending))
        | _ \<Rightarrow> Inr (add_blob x (scalar_body v) pending)))"
| "encode_items x [] (head, pending) depth = Inr (head, pending)"
| "encode_items x (item # items) (head, pending) depth =
     (case encode x item pending depth of
        Inl e \<Rightarrow> Inl e
      | Inr (i, pending) \<Rightarrow> encode_items x items (add_blob x (sequence_body head i) pending) depth)"
| "encode_entries x [] (entries, pending) depth = Inr (entries, pending)"
| "encode_entries x ((k, v) # items) (entries, pending) depth =
     (case encode x v pending depth of
        Inl e \<Rightarrow> Inl e
      | Inr (i, pending) \<Rightarrow> encode_entries x items (bt_insert k i entries, pending) depth)"
  by pat_completeness auto
termination
  by (relation "measure (\<lambda>a. case a of
        Inl (x, v, p, d) \<Rightarrow> size v
      | Inr (Inl (x, vs, p, d)) \<Rightarrow> size_list size vs
      | Inr (Inr (x, m, p, d)) \<Rightarrow> size_list (size_prod (\<lambda>_. 0) size) m)") auto

declare encode.simps [simp del]

subsection \<open>Decoding\<close>

definition kind_of :: "json \<Rightarrow> string option" where
  "kind_of body = as_str (jidx body ''kind'')"

function sequence_loop :: "(string, json) btree \<Rightarrow> string \<Rightarrow> string list \<Rightarrow> string list \<Rightarrow>
    (content_error, string list) result" where
  "sequence_loop blobs current visited items =
     (if current \<in> set visited then Inl CyclicSequence
      else (case map_of blobs current of
          None \<Rightarrow> Inl MissingSequence
        | Some body \<Rightarrow>
            (if kind_of body = Some ''array'' then Inr items
             else if kind_of body = Some ''sequence'' then
               (case as_str (jidx body ''item'') of
                  None \<Rightarrow> Inl InvalidSequenceItem
                | Some i \<Rightarrow>
                    (case as_str (jidx body ''parent'') of
                       None \<Rightarrow> Inl InvalidSequenceParent
                     | Some p \<Rightarrow> sequence_loop blobs p (current # visited) (i # items)))
             else Inl SequenceNotArray)))"
  by pat_completeness auto
termination
proof (relation "measure (\<lambda>(blobs, current, visited, items). card (set (keys blobs) - set visited))",
    goal_cases)
  case (2 blobs current visited items body i p)
  then have "current \<in> set (keys blobs)" by (simp add: keys_iff)
  with 2 have "set (keys blobs) - set (current # visited) \<subset> set (keys blobs) - set visited" by auto
  then have "card (set (keys blobs) - set (current # visited)) < card (set (keys blobs) - set visited)"
    by (intro psubset_card_mono) auto
  then show ?case by simp
qed simp

declare sequence_loop.simps [simp del]

definition sequence_refs :: "string \<Rightarrow> (string, json) btree \<Rightarrow> (content_error, string list) result" where
  "sequence_refs i blobs = sequence_loop blobs i [] []"

definition decode_chunk :: "(string, json) btree \<Rightarrow> string \<Rightarrow> (content_error, string) result" where
  "decode_chunk blobs item =
     (case map_of blobs item of
        None \<Rightarrow> Inl MissingChunk
      | Some chunk \<Rightarrow>
          (if jidx chunk ''kind'' \<noteq> JString ''scalar'' then Inl ChunkNotScalar
           else (case as_str (jidx chunk ''value'') of None \<Rightarrow> Inl ChunkNotText | Some s \<Rightarrow> Inr s)))"

function decode :: "(string, json) btree \<Rightarrow> nat \<Rightarrow> string \<Rightarrow> (content_error, json) result" where
  "decode blobs depth i =
     (if 512 < depth then Inl ContentDepth
      else (case map_of blobs i of
          None \<Rightarrow> Inl (MissingContent i)
        | Some body \<Rightarrow>
            (if kind_of body = Some ''scalar'' then Inr (jidx body ''value'')
             else if kind_of body = Some ''object'' then
               (case as_object (jidx body ''entries'') of
                  None \<Rightarrow> Inl InvalidContentObject
                | Some entries \<Rightarrow>
                    (case collect_results (\<lambda>e.
                        case as_str (snd e) of
                          None \<Rightarrow> Inl InvalidReference
                        | Some r \<Rightarrow>
                            (case decode blobs (depth + 1) r of
                               Inl err \<Rightarrow> Inl err | Inr v \<Rightarrow> Inr (fst e, v))) entries of
                       Inl e \<Rightarrow> Inl e
                     | Inr m \<Rightarrow> Inr (JObject (fold (\<lambda>(k, v). bt_insert k v) m []))))
             else if kind_of body = Some ''array'' \<or> kind_of body = Some ''sequence'' then
               (case sequence_refs i blobs of
                  Inl e \<Rightarrow> Inl e
                | Inr refs \<Rightarrow>
                    (case collect_results (\<lambda>r. decode blobs (depth + 1) r) refs of
                       Inl e \<Rightarrow> Inl e | Inr vs \<Rightarrow> Inr (JArray vs)))
             else if kind_of body = Some ''string'' then
               (case as_str (jidx body ''head'') of
                  None \<Rightarrow> Inl InvalidStringHead
                | Some head \<Rightarrow>
                    (case sequence_refs head blobs of
                       Inl e \<Rightarrow> Inl e
                     | Inr refs \<Rightarrow>
                         (case collect_results (decode_chunk blobs) refs of
                            Inl e \<Rightarrow> Inl e | Inr chunks \<Rightarrow> Inr (JString (concat chunks)))))
             else Inl InvalidContentKind)))"
  by pat_completeness auto
termination
  by (relation "measure (\<lambda>(blobs, depth, i). 513 - depth)") auto

declare decode.simps [simp del]

subsection \<open>Dependencies\<close>

definition hex_digit :: "char \<Rightarrow> bool" where
  "hex_digit c \<longleftrightarrow> (CHR ''0'' \<le> c \<and> c \<le> CHR ''9'') \<or> (CHR ''a'' \<le> c \<and> c \<le> CHR ''f'')"

definition valid_reference :: "string \<Rightarrow> bool" where
  "valid_reference i \<longleftrightarrow>
     length i = 71 \<and> prefix ''sha256:'' i \<and> list_all hex_digit (drop 7 i)"

definition body_refs :: "json \<Rightarrow> (content_error, string list) result" where
  "body_refs body =
     (case as_object body of
        None \<Rightarrow> Inl BodyNotObject
      | Some m \<Rightarrow>
          (case kind_of body of
             None \<Rightarrow> Inl MissingKind
           | Some kind \<Rightarrow>
               (if kind = ''scalar'' then
                  (if length m = 2 \<and> map_of m ''value'' \<noteq> None
                      \<and> \<not> is_array (jidx body ''value'') \<and> \<not> is_object (jidx body ''value'')
                   then Inr [] else Inl InvalidScalar)
                else if kind = ''array'' then (if length m = 1 then Inr [] else Inl InvalidEmptyArray)
                else if kind = ''string'' then
                  (if length m \<noteq> 2 then Inl InvalidChunkedString
                   else (case as_str (jidx body ''head'') of
                       None \<Rightarrow> Inl InvalidStringHead | Some h \<Rightarrow> Inr [h]))
                else if kind = ''sequence'' then
                  (if length m \<noteq> 3 then Inl InvalidSequence
                   else (case as_str (jidx body ''parent'') of
                       None \<Rightarrow> Inl InvalidSequenceParent
                     | Some p \<Rightarrow>
                         (case as_str (jidx body ''item'') of
                            None \<Rightarrow> Inl InvalidSequenceItem | Some i \<Rightarrow> Inr [p, i])))
                else if kind = ''object'' then
                  (if length m \<noteq> 2 then Inl InvalidObjectContent
                   else (case as_object (jidx body ''entries'') of
                       None \<Rightarrow> Inl InvalidObjectEntries
                     | Some entries \<Rightarrow>
                         collect_results (\<lambda>e. case as_str (snd e) of
                           None \<Rightarrow> Inl InvalidObjectValue | Some r \<Rightarrow> Inr r) entries))
                else Inl (UnknownKind kind))))"

definition dependencies_of :: "json \<Rightarrow> (content_error, string list) result" where
  "dependencies_of body =
     (case body_refs body of
        Inl e \<Rightarrow> Inl e
      | Inr refs \<Rightarrow> if list_all valid_reference refs then Inr refs else Inl InvalidContentReference)"

subsection \<open>The store\<close>

definition empty_store :: content_store where
  "empty_store = \<lparr>cs_db = \<lparr>db_content = [], db_edges = [], db_records = []\<rparr>, cs_committed = []\<rparr>"

definition prepare :: "codec \<Rightarrow> content_store \<Rightarrow> json \<Rightarrow> (content_error, prepared_content) result" where
  "prepare x st v =
     (case encode x v [] 0 of
        Inl e \<Rightarrow> Inl e
      | Inr (r, pending) \<Rightarrow>
          Inr \<lparr>prep_reference = r,
               prep_pending = filter (\<lambda>(i, _). i \<notin> set (cs_committed st)) pending\<rparr>)"

text \<open>\<open>INSERT OR IGNORE\<close> of the bodies and of their dependency edges, in one transaction.\<close>

definition insert_or_ignore :: "string \<Rightarrow> string \<Rightarrow> (string, string) btree \<Rightarrow> (string, string) btree" where
  "insert_or_ignore k v m = (if map_of m k = None then bt_insert k v m else m)"

definition insert_blobs ::
  "codec \<Rightarrow> (string, json) btree \<Rightarrow> content_db \<Rightarrow> (content_error, content_db) result" where
  "insert_blobs x blobs db =
     (let rows = map (\<lambda>(i, body). (i, cd_print x body)) blobs
      in (case collect_results (\<lambda>(i, body).
              case dependencies_of body of
                Inl e \<Rightarrow> Inl e
              | Inr ds \<Rightarrow> Inr (map (\<lambda>child. (i, child)) ds)) blobs of
            Inl e \<Rightarrow> Inl e
          | Inr edges \<Rightarrow>
              Inr (db\<lparr>db_content := fold (\<lambda>(i, raw). insert_or_ignore i raw) rows (db_content db),
                      db_edges := fold List.insert (concat edges) (db_edges db)\<rparr>)))"

definition persist_in :: "codec \<Rightarrow> content_db \<Rightarrow> prepared_content \<Rightarrow> (content_error, content_db) result" where
  "persist_in x db prepared = insert_blobs x (prep_pending prepared) db"

definition mark_committed :: "prepared_content \<Rightarrow> string list \<Rightarrow> string list" where
  "mark_committed prepared known =
     (let kept = (if 65536 < length known + length (prep_pending prepared) then [] else known)
      in List.insert (prep_reference prepared)
           (fold List.insert (take 65536 (keys (prep_pending prepared))) kept))"

text \<open>A transaction that persists a prepared value and changes nothing else.\<close>

definition commit_content :: "codec \<Rightarrow> content_store \<Rightarrow> prepared_content \<Rightarrow>
    (content_db \<Rightarrow> content_db) \<Rightarrow> (content_error, content_store) result" where
  "commit_content x st prepared f =
     (case persist_in x (cs_db st) prepared of
        Inl e \<Rightarrow> Inl e
      | Inr db \<Rightarrow> Inr \<lparr>cs_db = f db, cs_committed = mark_committed prepared (cs_committed st)\<rparr>)"

definition intern :: "codec \<Rightarrow> content_store \<Rightarrow> json \<Rightarrow> (content_error, string \<times> content_store) result" where
  "intern x st v =
     (case prepare x st v of
        Inl e \<Rightarrow> Inl e
      | Inr prepared \<Rightarrow>
          (if prep_pending prepared = [] then Inr (prep_reference prepared, st)
           else (case commit_content x st prepared (\<lambda>db. db) of
               Inl e \<Rightarrow> Inl e
             | Inr st' \<Rightarrow> Inr (prep_reference prepared, st'))))"

text \<open>The recursive query of \<open>export_blobs\<close>: everything reachable along the edge table.\<close>

function closure_loop :: "(string \<times> string) list \<Rightarrow> string list \<Rightarrow> string list \<Rightarrow> string list" where
  "closure_loop edges [] seen = rev seen"
| "closure_loop edges (i # pending) seen =
     (if i \<in> set seen then closure_loop edges pending seen
      else closure_loop edges (map snd (filter (\<lambda>e. fst e = i) edges) @ pending) (i # seen))"
  by pat_completeness auto
termination
proof (relation "measures [\<lambda>(edges, pending, seen). card ((set pending \<union> snd ` set edges) - set seen),
    \<lambda>(edges, pending, seen). length pending]", goal_cases)
  case (2 edges i pending seen)
  then have "(set pending \<union> snd ` set edges) - set seen =
      (set (i # pending) \<union> snd ` set edges) - set seen" by auto
  then show ?case by simp
next
  case (3 edges i pending seen)
  let ?new = "map snd (filter (\<lambda>e. fst e = i) edges) @ pending"
  have "(set ?new \<union> snd ` set edges) - set (i # seen) \<subseteq>
      (set (i # pending) \<union> snd ` set edges) - set seen" by auto
  moreover have "i \<in> (set (i # pending) \<union> snd ` set edges) - set seen"
    and "i \<notin> (set ?new \<union> snd ` set edges) - set (i # seen)" using 3 by simp_all
  ultimately have "(set ?new \<union> snd ` set edges) - set (i # seen) \<subset>
      (set (i # pending) \<union> snd ` set edges) - set seen" by blast
  then have "card ((set ?new \<union> snd ` set edges) - set (i # seen)) <
      card ((set (i # pending) \<union> snd ` set edges) - set seen)" by (intro psubset_card_mono) auto
  then show ?case by simp
qed auto

declare closure_loop.simps [simp del]

fun chunks_of :: "nat \<Rightarrow> 'a list \<Rightarrow> 'a list list" where
  "chunks_of n [] = []"
| "chunks_of 0 xs = [xs]"
| "chunks_of (Suc n) xs = take (Suc n) xs # chunks_of (Suc n) (drop (Suc n) xs)"

definition export_row :: "codec \<Rightarrow> content_db \<Rightarrow> string \<Rightarrow> (content_error, string \<times> json) result" where
  "export_row x db i =
     (case map_of (db_content db) i of
        None \<Rightarrow> Inl MissingInClosure
      | Some raw \<Rightarrow>
          (case cd_parse x raw of
             None \<Rightarrow> Inl ParseError
           | Some body \<Rightarrow>
               (if reference x body \<noteq> i then Inl (HashMismatch i)
                else (case dependencies_of body of Inl e \<Rightarrow> Inl e | Inr _ \<Rightarrow> Inr (i, body)))))"

definition check_children :: "(string, json) btree \<Rightarrow> json \<Rightarrow> (content_error, unit) result" where
  "check_children found body =
     (case dependencies_of body of
        Inl e \<Rightarrow> Inl e
      | Inr ds \<Rightarrow> if list_all (\<lambda>d. map_of found d \<noteq> None) ds then Inr () else Inl MissingEdge)"

definition export_blobs :: "codec \<Rightarrow> content_db \<Rightarrow> string list \<Rightarrow> (content_error, (string, json) btree) result" where
  "export_blobs x db roots =
     (if roots = [] then Inr []
      else (case collect_results (export_row x db)
               (concat (map (\<lambda>chunk. closure_loop (db_edges db) chunk []) (chunks_of 300 roots))) of
          Inl e \<Rightarrow> Inl e
        | Inr rows \<Rightarrow>
            (let found = fold (\<lambda>(i, body). bt_insert i body) rows []
             in (case for_each (\<lambda>(i, body). check_children found body) found of
                   Inl e \<Rightarrow> Inl e
                 | Inr _ \<Rightarrow> Inr found))))"

definition resolve_content :: "codec \<Rightarrow> content_db \<Rightarrow> string \<Rightarrow> (content_error, json) result" where
  "resolve_content x db i =
     (case export_blobs x db [i] of Inl e \<Rightarrow> Inl e | Inr blobs \<Rightarrow> decode blobs 0 i)"

subsection \<open>Records\<close>

definition put_row :: "string \<times> string \<times> string \<Rightarrow> string \<Rightarrow> content_db \<Rightarrow> content_db" where
  "put_row k r db = db\<lparr>db_records := (k, r) # filter (\<lambda>(k', _). k' \<noteq> k) (db_records db)\<rparr>"

definition put_record ::
  "codec \<Rightarrow> content_store \<Rightarrow> string \<Rightarrow> string \<Rightarrow> string \<Rightarrow> json \<Rightarrow> (content_error, string \<times> content_store) result" where
  "put_record x st scp kind key v =
     (case prepare x st v of
        Inl e \<Rightarrow> Inl e
      | Inr prepared \<Rightarrow>
          (case commit_content x st prepared (put_row (scp, kind, key) (prep_reference prepared)) of
             Inl e \<Rightarrow> Inl e
           | Inr st' \<Rightarrow> Inr (prep_reference prepared, st')))"

text \<open>\<open>INSERT OR IGNORE\<close> into the records: the flag tells whether the row is new.\<close>

definition claim_row :: "string \<times> string \<times> string \<Rightarrow> string \<Rightarrow> content_db \<Rightarrow> content_db" where
  "claim_row k r db =
     (if map_of (db_records db) k = None then db\<lparr>db_records := (k, r) # db_records db\<rparr> else db)"

definition claim_record ::
  "codec \<Rightarrow> content_store \<Rightarrow> string \<Rightarrow> string \<Rightarrow> string \<Rightarrow> json \<Rightarrow> (content_error, bool \<times> content_store) result" where
  "claim_record x st scp kind key v =
     (case prepare x st v of
        Inl e \<Rightarrow> Inl e
      | Inr prepared \<Rightarrow>
          (case commit_content x st prepared (claim_row (scp, kind, key) (prep_reference prepared)) of
             Inl e \<Rightarrow> Inl e
           | Inr st' \<Rightarrow> Inr (map_of (db_records (cs_db st)) (scp, kind, key) = None, st')))"

definition get_record ::
  "codec \<Rightarrow> content_store \<Rightarrow> string \<Rightarrow> string \<Rightarrow> string \<Rightarrow> (content_error, json option) result" where
  "get_record x st scp kind key =
     (case map_of (db_records (cs_db st)) (scp, kind, key) of
        None \<Rightarrow> Inr None
      | Some i \<Rightarrow> (case resolve_content x (cs_db st) i of Inl e \<Rightarrow> Inl e | Inr v \<Rightarrow> Inr (Some v)))"

text \<open>
  Appending one item to a recorded array: the old head becomes the parent of a new chain cell.
  The first result of the lookup is the parent, the second the pending blobs.
\<close>

definition append_parent ::
  "codec \<Rightarrow> content_db \<Rightarrow> string option \<Rightarrow> (string, json) btree \<Rightarrow>
   (content_error, string \<times> (string, json) btree) result" where
  "append_parent x db previous pending =
     (case previous of
        None \<Rightarrow> Inr (add_blob x array_body pending)
      | Some i \<Rightarrow>
          (case map_of (db_content db) i of
             None \<Rightarrow> Inl MissingInClosure
           | Some raw \<Rightarrow>
               (case cd_parse x raw of
                  None \<Rightarrow> Inl ParseError
                | Some body \<Rightarrow>
                    (if reference x body = i
                        \<and> (kind_of body = Some ''array'' \<or> kind_of body = Some ''sequence'')
                     then Inr (i, pending) else Inl AppendTarget))))"

definition append_record_item ::
  "codec \<Rightarrow> content_store \<Rightarrow> string \<Rightarrow> string \<Rightarrow> string \<Rightarrow> json \<Rightarrow> (content_error, string \<times> content_store) result" where
  "append_record_item x st scp kind key item =
     (case prepare x st item of
        Inl e \<Rightarrow> Inl e
      | Inr prepared \<Rightarrow>
          (case append_parent x (cs_db st) (map_of (db_records (cs_db st)) (scp, kind, key))
               (prep_pending prepared) of
             Inl e \<Rightarrow> Inl e
           | Inr (parent, pending) \<Rightarrow>
               (let (r, pending) = add_blob x (sequence_body parent (prep_reference prepared)) pending;
                    prepared' = \<lparr>prep_reference = r, prep_pending = pending\<rparr>
                in (case commit_content x st prepared' (put_row (scp, kind, key) r) of
                      Inl e \<Rightarrow> Inl e
                    | Inr st' \<Rightarrow> Inr (r, st')))))"

text \<open>Importing blobs from an archive: every hash is checked and the closure must be complete.\<close>

definition import_blobs ::
  "codec \<Rightarrow> content_store \<Rightarrow> (string \<times> json) list \<Rightarrow> (content_error, content_store) result" where
  "import_blobs x st blobs =
     (case for_each (\<lambda>(i, body).
          if reference x body \<noteq> i then Inl (HashMismatch i)
          else (case dependencies_of body of Inl e \<Rightarrow> Inl e | Inr _ \<Rightarrow> Inr ())) blobs of
        Inl e \<Rightarrow> Inl e
      | Inr _ \<Rightarrow>
          (case insert_blobs x (fold (\<lambda>(i, body). bt_insert i body) blobs []) (cs_db st) of
             Inl e \<Rightarrow> Inl e
           | Inr db \<Rightarrow>
               (if list_all (\<lambda>e. map_of (db_content db) (snd e) \<noteq> None) (db_edges db)
                then Inr (st\<lparr>cs_db := db\<rparr>) else Inl IncompleteImport)))"

end
