(* ===== verification/Zf_Content_Facts.thy ===== *)
theory Zf_Content_Facts
  imports Zf_Content
begin

text \<open>
  Correctness of the content store: encoding refines a content-addressed representation of
  values, decoding inverts it, and interning keeps every stored value readable.
\<close>

subsection \<open>The representation of a value\<close>

text \<open>The reference of the chain cell that holds the last of the given items.\<close>

definition link :: "codec \<Rightarrow> string \<Rightarrow> string \<Rightarrow> string" where
  "link x h i = reference x (sequence_body h i)"

definition head_of :: "codec \<Rightarrow> string list \<Rightarrow> string" where
  "head_of x refs = foldl (link x) (reference x array_body) refs"

definition chunk_list :: "string \<Rightarrow> string list" where
  "chunk_list s = (case text_chunks s of None \<Rightarrow> [] | Some cs \<Rightarrow> cs)"

definition chunk_ref :: "codec \<Rightarrow> string \<Rightarrow> string" where
  "chunk_ref x c = reference x (scalar_body (JString c))"

text \<open>The reference of a value and the bodies that represent it, as functions of the value.\<close>

fun ref_of :: "codec \<Rightarrow> json \<Rightarrow> string" where
  "ref_of x (JString s) =
     (if 4096 < length s
      then reference x (string_body (head_of x (map (chunk_ref x) (chunk_list s))))
      else reference x (scalar_body (JString s)))"
| "ref_of x (JArray vs) = head_of x (map (\<lambda>v. ref_of x v) vs)"
| "ref_of x (JObject m) =
     reference x (object_body
       (fold (\<lambda>(k, r). bt_insert k r) (map (\<lambda>e. (fst e, ref_of x (snd e))) m) []))"
| "ref_of x v = reference x (scalar_body v)"

fun chain :: "codec \<Rightarrow> string \<Rightarrow> (string \<times> json list) list \<Rightarrow> json list" where
  "chain x h [] = []"
| "chain x h ((i, bodies) # rest) = bodies @ sequence_body h i # chain x (link x h i) rest"

fun blobs_of :: "codec \<Rightarrow> json \<Rightarrow> json list" where
  "blobs_of x (JString s) =
     (if 4096 < length s
      then array_body # chain x (reference x array_body)
             (map (\<lambda>c. (chunk_ref x c, [scalar_body (JString c)])) (chunk_list s))
           @ [string_body (head_of x (map (chunk_ref x) (chunk_list s)))]
      else [scalar_body (JString s)])"
| "blobs_of x (JArray vs) =
     array_body # chain x (reference x array_body) (map (\<lambda>v. (ref_of x v, blobs_of x v)) vs)"
| "blobs_of x (JObject m) =
     concat (map (\<lambda>e. blobs_of x (snd e)) m)
     @ [object_body (fold (\<lambda>(k, r). bt_insert k r) (map (\<lambda>e. (fst e, ref_of x (snd e))) m) [])]"
| "blobs_of x v = [scalar_body v]"

text \<open>The values the encoder accepts: at most 512 levels, long texts that can be cut.\<close>

fun fits :: "nat \<Rightarrow> json \<Rightarrow> bool" where
  "fits d (JString s) = (d \<le> 512 \<and> (4096 < length s \<longrightarrow> text_chunks s \<noteq> None))"
| "fits d (JArray vs) = (d \<le> 512 \<and> (\<forall>v \<in> set vs. fits (d + 1) v))"
| "fits d (JObject m) = (d \<le> 512 \<and> (\<forall>e \<in> set m. fits (d + 1) (snd e)))"
| "fits d v = (d \<le> 512)"

definition put_blob :: "codec \<Rightarrow> json \<Rightarrow> (string, json) btree \<Rightarrow> (string, json) btree" where
  "put_blob x b p = (if map_of p (reference x b) = None then bt_insert (reference x b) b p else p)"

lemma add_blob_eq: "add_blob x b p = (reference x b, put_blob x b p)"
  by (simp add: add_blob_def put_blob_def Let_def)

definition adds :: "codec \<Rightarrow> json list \<Rightarrow> (string, json) btree \<Rightarrow> (string, json) btree" where
  "adds x bodies pending = fold (put_blob x) bodies pending"

lemma adds_simps [simp]:
  "adds x [] p = p" "adds x (b # bs) p = adds x bs (put_blob x b p)"
  "adds x (bs @ cs) p = adds x cs (adds x bs p)"
  by (simp_all add: adds_def)

lemma encode_chunks:
  "fold (encode_chunk x) cs (h, p) =
     (foldl (link x) h (map (chunk_ref x) cs),
      adds x (chain x h (map (\<lambda>c. (chunk_ref x c, [scalar_body (JString c)])) cs)) p)"
  by (induction cs arbitrary: h p)
    (simp_all add: encode_chunk_def add_blob_eq chunk_ref_def link_def)

text \<open>A computation that succeeds with the given result exactly when the condition holds.\<close>

definition yields :: "('e, 'a) result \<Rightarrow> bool \<Rightarrow> 'a \<Rightarrow> bool" where
  "yields r ok a \<longleftrightarrow> (if ok then r = Inr a else \<exists>e. r = Inl e)"

lemma encode_items_refines:
  assumes "\<And>v p. v \<in> set vs \<Longrightarrow> yields (encode x v p d) (fits d v) (ref_of x v, adds x (blobs_of x v) p)"
  shows "yields (encode_items x vs (h, p) d) (\<forall>v \<in> set vs. fits d v)
    (foldl (link x) h (map (\<lambda>v. ref_of x v) vs),
     adds x (chain x h (map (\<lambda>v. (ref_of x v, blobs_of x v)) vs)) p)"
  using assms
proof (induction vs arbitrary: h p)
  case (Cons v vs)
  show ?case
  proof (cases "fits d v")
    case True
    with Cons.prems [of v p] have "encode x v p d = Inr (ref_of x v, adds x (blobs_of x v) p)"
      by (simp add: yields_def)
    with True Cons.IH [of "link x h (ref_of x v)"] Cons.prems show ?thesis
      by (simp add: add_blob_eq link_def)
  next
    case False
    with Cons.prems [of v p] show ?thesis by (auto simp: yields_def)
  qed
qed (simp add: yields_def)

lemma encode_entries_refines:
  assumes "\<And>e p. e \<in> set m \<Longrightarrow>
    yields (encode x (snd e) p d) (fits d (snd e)) (ref_of x (snd e), adds x (blobs_of x (snd e)) p)"
  shows "yields (encode_entries x m (es, p) d) (\<forall>e \<in> set m. fits d (snd e))
    (fold (\<lambda>(k, r). bt_insert k r) (map (\<lambda>e. (fst e, ref_of x (snd e))) m) es,
     adds x (concat (map (\<lambda>e. blobs_of x (snd e)) m)) p)"
  using assms
proof (induction m arbitrary: es p)
  case (Cons e m)
  obtain k v where e: "e = (k, v)" by fastforce
  show ?case
  proof (cases "fits d v")
    case True
    with Cons.prems [of e p] e have "encode x v p d = Inr (ref_of x v, adds x (blobs_of x v) p)"
      by (simp add: yields_def)
    with True e Cons.IH Cons.prems show ?thesis by simp
  next
    case False
    with Cons.prems [of e p] e show ?thesis by (auto simp: yields_def)
  qed
qed (simp add: yields_def)

lemma encode_refines: "yields (encode x v p d) (fits d v) (ref_of x v, adds x (blobs_of x v) p)"
proof (induction v arbitrary: p d)
  case (JString s)
  show ?case
    by (auto simp: yields_def encode.simps [of x "JString s"] add_blob_eq chunk_list_def encode_chunks
        head_of_def split: option.splits)
next
  case (JArray vs)
  then have "\<And>v p. v \<in> set vs \<Longrightarrow>
      yields (encode x v p (d + 1)) (fits (d + 1) v) (ref_of x v, adds x (blobs_of x v) p)" by blast
  from encode_items_refines [OF this, where h = "reference x array_body" and p = "put_blob x array_body p"]
  show ?case by (auto simp: encode.simps [of x "JArray vs"] yields_def add_blob_eq head_of_def)
next
  case (JObject m)
  have "yields (encode_entries x m ([], p) (d + 1)) (\<forall>e \<in> set m. fits (d + 1) (snd e))
    (fold (\<lambda>(k, r). bt_insert k r) (map (\<lambda>e. (fst e, ref_of x (snd e))) m) [],
     adds x (concat (map (\<lambda>e. blobs_of x (snd e)) m)) p)"
    by (rule encode_entries_refines) (metis JObject prod.collapse prod_set_simps(2) singletonI)
  note * = this
  show ?case
  proof (cases "\<forall>e \<in> set m. fits (d + 1) (snd e)")
    case True
    with * show ?thesis by (auto simp: encode.simps [of x "JObject m"] yields_def add_blob_eq)
  next
    case False
    with * obtain e where "encode_entries x m ([], p) (d + 1) = Inl e"
      by (simp only: yields_def if_False) blast
    moreover have "\<not> fits d (JObject m)" using False by simp
    ultimately show ?thesis by (simp only: encode.simps [of x "JObject m"] yields_def if_False) simp
  qed
qed (simp_all add: yields_def encode.simps add_blob_eq)

subsection \<open>Decoding inverts the representation\<close>

lemma body_simps [simp]:
  "kind_of (scalar_body v) = Some ''scalar''" "kind_of array_body = Some ''array''"
  "kind_of (sequence_body h i) = Some ''sequence''" "kind_of (string_body h) = Some ''string''"
  "kind_of (object_body m) = Some ''object''"
  "jidx (scalar_body v) ''value'' = v" "jidx (sequence_body h i) ''item'' = JString i"
  "jidx (sequence_body h i) ''parent'' = JString h" "jidx (string_body h) ''head'' = JString h"
  "jidx (object_body m) ''entries'' = JObject (map (\<lambda>(k, r). (k, JString r)) m)"
  "jidx (scalar_body v) ''kind'' = JString ''scalar''"
  by (simp_all add: kind_of_def jidx_def scalar_body_def array_body_def sequence_body_def
      string_body_def object_body_def)

lemma body_objects [simp]:
  "as_object (scalar_body v) = Some [(''kind'', JString ''scalar''), (''value'', v)]"
  "as_object array_body = Some [(''kind'', JString ''array'')]"
  "as_object (sequence_body h i) =
     Some [(''item'', JString i), (''kind'', JString ''sequence''), (''parent'', JString h)]"
  "as_object (string_body h) = Some [(''head'', JString h), (''kind'', JString ''string'')]"
  "as_object (object_body m) =
     Some [(''entries'', JObject (map (\<lambda>(k, r). (k, JString r)) m)), (''kind'', JString ''object'')]"
  by (simp_all add: scalar_body_def array_body_def sequence_body_def string_body_def object_body_def)

lemma body_neq [simp]: "array_body \<noteq> sequence_body h i" "sequence_body h i \<noteq> array_body"
  by (simp_all add: array_body_def sequence_body_def)

lemma sequence_body_inject [simp]: "sequence_body h i = sequence_body h' i' \<longleftrightarrow> h = h' \<and> i = i'"
  by (auto simp: sequence_body_def)

definition holds_all :: "codec \<Rightarrow> (string, json) btree \<Rightarrow> json set \<Rightarrow> bool" where
  "holds_all x blobs S \<longleftrightarrow> (\<forall>b \<in> S. map_of blobs (reference x b) = Some b)"

definition cells :: "codec \<Rightarrow> string list \<Rightarrow> json set" where
  "cells x refs = insert array_body ((\<lambda>n. sequence_body (head_of x (take n refs)) (refs ! n)) ` {..<length refs})"

lemma head_of_Suc:
  "n < length refs \<Longrightarrow> head_of x (take (Suc n) refs) = reference x (sequence_body (head_of x (take n refs)) (refs ! n))"
  by (simp add: head_of_def take_Suc_conv_app_nth link_def)

lemma head_of_0 [simp]: "head_of x [] = reference x array_body"
  by (simp add: head_of_def)

lemma cellsI: "array_body \<in> cells x refs"
  "n < length refs \<Longrightarrow> sequence_body (head_of x (take n refs)) (refs ! n) \<in> cells x refs"
  by (auto simp: cells_def)

lemma head_inj:
  assumes "inj_on (reference x) (cells x refs)"
  shows "m \<le> length refs \<Longrightarrow> n \<le> length refs \<Longrightarrow>
    head_of x (take m refs) = head_of x (take n refs) \<Longrightarrow> m = n"
proof (induction m arbitrary: n)
  case 0
  show ?case
  proof (cases n)
    case (Suc k)
    with 0 have "reference x array_body = reference x (sequence_body (head_of x (take k refs)) (refs ! k))"
      by (simp add: head_of_Suc)
    from inj_onD [OF assms this] 0 Suc show ?thesis by (simp add: cellsI)
  qed simp
next
  case (Suc m)
  show ?case
  proof (cases n)
    case 0
    with Suc.prems have "reference x (sequence_body (head_of x (take m refs)) (refs ! m)) = reference x array_body"
      by (simp add: head_of_Suc)
    from inj_onD [OF assms this] Suc.prems show ?thesis by (simp add: cellsI)
  next
    case n: (Suc k)
    with Suc.prems have "reference x (sequence_body (head_of x (take m refs)) (refs ! m)) =
        reference x (sequence_body (head_of x (take k refs)) (refs ! k))"
      by (simp add: head_of_Suc)
    from inj_onD [OF assms this] Suc.prems n have "head_of x (take m refs) = head_of x (take k refs)"
      by (simp add: cellsI)
    with Suc.IH [of k] Suc.prems n show ?thesis by simp
  qed
qed

lemma sequence_loop_chain:
  assumes inj: "inj_on (reference x) (cells x refs)" and has: "holds_all x blobs (cells x refs)"
  shows "n \<le> length refs \<Longrightarrow> (\<forall>m \<le> n. head_of x (take m refs) \<notin> set visited) \<Longrightarrow>
    sequence_loop blobs (head_of x (take n refs)) visited acc = Inr (take n refs @ acc)"
proof (induction n arbitrary: visited acc)
  case 0
  with has cellsI(1) show ?case by (auto simp: sequence_loop.simps holds_all_def)
next
  case (Suc n)
  let ?b = "sequence_body (head_of x (take n refs)) (refs ! n)"
  have "map_of blobs (reference x ?b) = Some ?b"
    using has cellsI(2) Suc.prems by (auto simp: holds_all_def)
  moreover have "reference x ?b \<notin> set visited"
    using Suc.prems head_of_Suc [of n refs x] by (metis Suc_le_lessD order_refl)
  moreover have "\<forall>m \<le> n. head_of x (take m refs) \<notin> set (reference x ?b # visited)"
  proof (intro allI impI)
    fix m assume "m \<le> n"
    with head_inj [OF inj, of m "Suc n"] Suc.prems have "head_of x (take m refs) \<noteq> reference x ?b"
      by (auto simp: head_of_Suc)
    with Suc.prems \<open>m \<le> n\<close> show "head_of x (take m refs) \<notin> set (reference x ?b # visited)" by simp
  qed
  moreover have "head_of x (take (Suc n) refs) = reference x ?b"
    using Suc.prems by (intro head_of_Suc) simp
  ultimately show ?case
    using Suc.IH [of "reference x ?b # visited" "refs ! n # acc"] Suc.prems
    by (simp only:) (simp add: sequence_loop.simps [of blobs "reference x ?b"] take_Suc_conv_app_nth)
qed

lemma sequence_refs_chain:
  assumes "inj_on (reference x) (cells x refs)" and "holds_all x blobs (cells x refs)"
  shows "sequence_refs (head_of x refs) blobs = Inr refs"
  using sequence_loop_chain [OF assms, of "length refs" "[]" "[]"] by (simp add: sequence_refs_def)

lemma chain_member:
  assumes "n < length xs"
  shows "sequence_body (foldl (link x) h (map fst (take n xs))) (fst (xs ! n)) \<in> set (chain x h xs)"
    and "set (snd (xs ! n)) \<subseteq> set (chain x h xs)"
  using assms
proof (induction xs arbitrary: h n)
  case (Cons a xs)
  obtain i bs where a: "a = (i, bs)" by fastforce
  {
    case 1
    then show ?case using Cons.IH(1) [of "n - 1" "link x h i"] a by (cases n) auto
  next
    case 2
    then show ?case using Cons.IH(2) [of "n - 1" "link x h i"] a by (cases n) auto
  }
qed simp_all

lemma chain_cells:
  "cells x (map fst xs) \<subseteq> insert array_body (set (chain x (reference x array_body) xs))"
proof -
  have "sequence_body (head_of x (take n (map fst xs))) (map fst xs ! n)
      \<in> set (chain x (reference x array_body) xs)" if "n < length xs" for n
    using chain_member(1) [OF that, of x "reference x array_body"] that
    by (simp add: head_of_def take_map)
  then show ?thesis by (auto simp: cells_def)
qed

lemma chain_items: "a \<in> set xs \<Longrightarrow> set (snd a) \<subseteq> set (chain x h xs)"
  using chain_member(2) by (metis in_set_conv_nth)

lemma text_chunks_concat: "text_chunks s = Some cs \<Longrightarrow> concat cs = s"
proof (induction s arbitrary: cs rule: text_chunks.induct)
  case (1 s)
  then show ?case
    by (subst (asm) (2) text_chunks.simps) (auto simp: Let_def split: if_splits)
qed

text \<open>The objects of a value have increasing keys, as every \<open>serde_json::Map\<close> has.\<close>

fun ordered_json :: "json \<Rightarrow> bool" where
  "ordered_json (JArray vs) = (\<forall>v \<in> set vs. ordered_json v)"
| "ordered_json (JObject m) = (bt_ok m \<and> (\<forall>e \<in> set m. ordered_json (snd e)))"
| "ordered_json v = True"

lemma holds_all_mono: "holds_all x blobs S \<Longrightarrow> T \<subseteq> S \<Longrightarrow> holds_all x blobs T"
  by (auto simp: holds_all_def)

lemma holds_allD: "holds_all x blobs S \<Longrightarrow> b \<in> S \<Longrightarrow> map_of blobs (reference x b) = Some b"
  by (simp add: holds_all_def)

lemma decode_scalar:
  "map_of blobs (reference x (scalar_body v)) = Some (scalar_body v) \<Longrightarrow> d \<le> 512 \<Longrightarrow>
     decode blobs d (reference x (scalar_body v)) = Inr v"
  by (simp add: decode.simps)

lemma collect_results_map: "(\<And>v. v \<in> set vs \<Longrightarrow> g (f v) = Inr v) \<Longrightarrow> collect_results g (map f vs) = Inr vs"
  by (induction vs) auto

lemma decode_array:
  assumes "inj_on (reference x) S" and "holds_all x blobs S" and "set (blobs_of x (JArray vs)) \<subseteq> S"
    and "d \<le> 512" and "\<And>v. v \<in> set vs \<Longrightarrow> decode blobs (d + 1) (ref_of x v) = Inr v"
  shows "decode blobs d (ref_of x (JArray vs)) = Inr (JArray vs)"
proof -
  let ?refs = "map (\<lambda>v. ref_of x v) vs"
  have cells: "cells x ?refs \<subseteq> S"
    using chain_cells [of x "map (\<lambda>v. (ref_of x v, blobs_of x v)) vs"] assms(3) by (auto simp: comp_def)
  have "\<exists>body. map_of blobs (head_of x ?refs) = Some body \<and>
      (kind_of body = Some ''array'' \<or> kind_of body = Some ''sequence'')"
  proof (cases vs rule: rev_cases)
    case Nil
    with holds_allD [OF assms(2)] cellsI(1) cells show ?thesis by fastforce
  next
    case (snoc us u)
    let ?n = "length us"
    have "head_of x (take (Suc ?n) ?refs) = reference x (sequence_body (head_of x (take ?n ?refs)) (?refs ! ?n))"
      using snoc by (intro head_of_Suc) simp
    moreover have "sequence_body (head_of x (take ?n ?refs)) (?refs ! ?n) \<in> S"
      using cells cellsI(2) [of ?n ?refs x] snoc by auto
    ultimately show ?thesis using holds_allD [OF assms(2)] snoc by fastforce
  qed
  moreover have "sequence_refs (head_of x ?refs) blobs = Inr ?refs"
    using assms(1,2) cells by (intro sequence_refs_chain) (auto intro: inj_on_subset holds_all_mono)
  moreover have "collect_results (\<lambda>r. decode blobs (d + 1) r) ?refs = Inr vs"
    using assms(5) by (intro collect_results_map) simp
  ultimately show ?thesis using assms(4) by (auto simp: decode.simps [of blobs d])
qed

lemma decode_text:
  assumes "inj_on (reference x) S" and "holds_all x blobs S" and "set (blobs_of x (JString s)) \<subseteq> S"
    and "d \<le> 512" and "4096 < length s" and "text_chunks s \<noteq> None"
  shows "decode blobs d (ref_of x (JString s)) = Inr (JString s)"
proof -
  let ?cs = "chunk_list s" and ?refs = "map (chunk_ref x) (chunk_list s)"
  let ?items = "map (\<lambda>c. (chunk_ref x c, [scalar_body (JString c)])) ?cs"
  have cells: "cells x ?refs \<subseteq> S"
    using chain_cells [of x ?items] assms(3,5) by (auto simp: comp_def)
  have "decode_chunk blobs (chunk_ref x c) = Inr c" if "c \<in> set ?cs" for c
  proof -
    have "scalar_body (JString c) \<in> S"
      using chain_items [of "(chunk_ref x c, [scalar_body (JString c)])" ?items x "reference x array_body"]
        that assms(3,5) by auto
    with holds_allD [OF assms(2)] show ?thesis by (simp add: decode_chunk_def chunk_ref_def)
  qed
  then have "collect_results (decode_chunk blobs) ?refs = Inr ?cs" by (rule collect_results_map)
  moreover have "sequence_refs (head_of x ?refs) blobs = Inr ?refs"
    using assms(1,2) cells by (intro sequence_refs_chain) (auto intro: inj_on_subset holds_all_mono)
  moreover have "map_of blobs (reference x (string_body (head_of x ?refs))) = Some (string_body (head_of x ?refs))"
    using assms(2,3,5) by (intro holds_allD [OF assms(2)]) auto
  moreover have "concat ?cs = s"
    using assms(6) text_chunks_concat by (auto simp: chunk_list_def)
  ultimately show ?thesis using assms(4,5) by (simp add: decode.simps [of blobs d])
qed

text \<open>Inserting the entries of an ordered map one after the other rebuilds it.\<close>

lemma fold_bt_insert_append:
  assumes "bt_ok (m @ n)"
  shows "fold (\<lambda>(k, v). bt_insert k v) n m = m @ n"
  using assms
proof (induction n arbitrary: m)
  case (Cons e n)
  obtain k v where e: "e = (k, v)" by fastforce
  have last: "bt_insert k v m = m @ [(k, v)]" if "\<forall>k' \<in> set (keys m). k' < k" for m :: "('a \<times> 'b) list"
    using that by (induction m) auto
  from Cons.prems e have "\<forall>k' \<in> set (keys m). k' < k"
    by (auto simp: bt_ok_def keys_def sorted_wrt_append)
  with last e Cons show ?case by simp
qed simp

lemma fold_bt_insert_id: "bt_ok m \<Longrightarrow> fold (\<lambda>(k, v). bt_insert k v) m [] = m"
  using fold_bt_insert_append [of "[]" m] by simp

lemma decode_object:
  assumes "holds_all x blobs S" and "set (blobs_of x (JObject m)) \<subseteq> S"
    and "d \<le> 512" and "bt_ok m" and "\<And>e. e \<in> set m \<Longrightarrow> decode blobs (d + 1) (ref_of x (snd e)) = Inr (snd e)"
  shows "decode blobs d (ref_of x (JObject m)) = Inr (JObject m)"
proof -
  let ?es = "map (\<lambda>e. (fst e, ref_of x (snd e))) m"
  have "bt_ok ?es" using assms(4) by (simp add: bt_ok_def keys_def comp_def)
  then have es: "fold (\<lambda>(k, r). bt_insert k r) ?es [] = ?es" by (rule fold_bt_insert_id)
  have "map_of blobs (reference x (object_body ?es)) = Some (object_body ?es)"
    using assms(2) es by (intro holds_allD [OF assms(1)]) auto
  moreover have "collect_results (\<lambda>e. case as_str (snd e) of
        None \<Rightarrow> Inl InvalidReference
      | Some r \<Rightarrow> (case decode blobs (d + 1) r of Inl err \<Rightarrow> Inl err | Inr v \<Rightarrow> Inr (fst e, v)))
      (map (\<lambda>e. (fst e, JString (ref_of x (snd e)))) m) = Inr m"
    using assms(5) by (intro collect_results_map) simp
  moreover have "map (\<lambda>(k, r). (k, JString r)) ?es = map (\<lambda>e. (fst e, JString (ref_of x (snd e)))) m"
    by simp
  ultimately show ?thesis
    using assms(3) fold_bt_insert_id [OF assms(4)] es by (simp add: decode.simps [of blobs d] comp_def)
qed

lemma decode_ref:
  assumes inj: "inj_on (reference x) S" and has: "holds_all x blobs S"
  shows "set (blobs_of x v) \<subseteq> S \<Longrightarrow> fits d v \<Longrightarrow> ordered_json v \<Longrightarrow> decode blobs d (ref_of x v) = Inr v"
proof (induction v arbitrary: d)
  case (JString s)
  then show ?case
    using decode_text [OF inj has, of s d] holds_allD [OF has] by (auto intro!: decode_scalar)
next
  case (JArray vs)
  have "decode blobs (d + 1) (ref_of x v) = Inr v" if "v \<in> set vs" for v
    using JArray chain_items [of "(ref_of x v, blobs_of x v)" "map (\<lambda>v. (ref_of x v, blobs_of x v)) vs"] that
    by force
  with JArray.prems show ?case by (intro decode_array [OF inj has]) auto
next
  case (JObject m)
  have "decode blobs (d + 1) (ref_of x (snd e)) = Inr (snd e)" if "e \<in> set m" for e
  proof -
    have "set (blobs_of x (snd e)) \<subseteq> S" using JObject.prems(1) that by auto
    with JObject.prems that show ?thesis
      by (intro JObject.IH [of e "snd e"]) (auto simp: snds.simps)
  qed
  with JObject.prems show ?case by (intro decode_object [OF has]) auto
qed (use has in \<open>auto intro!: decode_scalar simp: holds_all_def\<close>)

subsection \<open>Dependencies of the representation\<close>

definition codec_ok :: "codec \<Rightarrow> json set \<Rightarrow> bool" where
  "codec_ok x S \<longleftrightarrow> inj_on (reference x) S
     \<and> (\<forall>b \<in> S. cd_parse x (cd_print x b) = Some b \<and> valid_reference (reference x b))"

lemma codec_ok_subset: "codec_ok x S \<Longrightarrow> T \<subseteq> S \<Longrightarrow> codec_ok x T"
  unfolding codec_ok_def by (blast intro: inj_on_subset)

lemma dependencies_simps:
  "\<not> is_array v \<Longrightarrow> \<not> is_object v \<Longrightarrow> dependencies_of (scalar_body v) = Inr []"
  "dependencies_of array_body = Inr []"
  "valid_reference h \<Longrightarrow> valid_reference i \<Longrightarrow> dependencies_of (sequence_body h i) = Inr [h, i]"
  "valid_reference h \<Longrightarrow> dependencies_of (string_body h) = Inr [h]"
  by (simp_all add: dependencies_of_def body_refs_def)

lemma dependencies_object:
  assumes "\<forall>e \<in> set m. valid_reference (snd e)"
  shows "dependencies_of (object_body m) = Inr (map snd m)"
proof -
  have "collect_results (\<lambda>e. case as_str (snd e) of None \<Rightarrow> Inl InvalidObjectValue | Some r \<Rightarrow> Inr r)
      (map (\<lambda>(k, r). (k, JString r)) m) = Inr (map snd m)" by (induction m) auto
  then have "body_refs (object_body m) = Inr (map snd m)"
    by (simp add: body_refs_def)
  with assms show ?thesis by (simp add: dependencies_of_def list_all_iff)
qed

definition dep_rel :: "codec \<Rightarrow> json set \<Rightarrow> (string \<times> string) set" where
  "dep_rel x S = {(reference x b, d) | b d ds. b \<in> S \<and> dependencies_of b = Inr ds \<and> d \<in> set ds}"

lemma dep_relI: "b \<in> S \<Longrightarrow> dependencies_of b = Inr ds \<Longrightarrow> d \<in> set ds \<Longrightarrow> (reference x b, d) \<in> dep_rel x S"
  by (auto simp: dep_rel_def)

lemma dep_rel_mono: "S \<subseteq> T \<Longrightarrow> dep_rel x S \<subseteq> dep_rel x T"
  by (auto simp: dep_rel_def)

text \<open>A set of bodies that is rooted at a reference, closed and fully reachable from it.\<close>

definition rooted :: "codec \<Rightarrow> string \<Rightarrow> json set \<Rightarrow> bool" where
  "rooted x r S \<longleftrightarrow>
     r \<in> reference x ` S
     \<and> (\<forall>b \<in> S. \<exists>ds. dependencies_of b = Inr ds \<and> set ds \<subseteq> reference x ` S)
     \<and> (\<forall>b \<in> S. (r, reference x b) \<in> (dep_rel x S)\<^sup>*)"

lemma rooted_scalar:
  "\<not> is_array v \<Longrightarrow> \<not> is_object v \<Longrightarrow> rooted x (reference x (scalar_body v)) {scalar_body v}"
  by (simp add: rooted_def dependencies_simps)

text \<open>Adding one body whose dependencies are roots of the parts.\<close>

lemma rooted_node:
  assumes parts: "\<And>a. a \<in> A \<Longrightarrow> rooted x (fst a) (snd a)" and b: "dependencies_of b = Inr ds"
    and ds: "set ds = fst ` A"
  shows "rooted x (reference x b) (insert b (\<Union>a \<in> A. snd a))"
proof -
  let ?S = "insert b (\<Union>a \<in> A. snd a)"
  have dep: "dep_rel x (snd a) \<subseteq> dep_rel x ?S" if "a \<in> A" for a using that by (intro dep_rel_mono) auto
  have "\<exists>ds. dependencies_of c = Inr ds \<and> set ds \<subseteq> reference x ` ?S" if "c \<in> ?S" for c
  proof (cases "c = b")
    case True
    have "fst a \<in> reference x ` ?S" if "a \<in> A" for a using parts [OF that] that by (auto simp: rooted_def)
    with True b ds show ?thesis by auto
  next
    case False
    with that obtain a where "a \<in> A" "c \<in> snd a" by auto
    with parts [of a] obtain es where "dependencies_of c = Inr es" "set es \<subseteq> reference x ` snd a"
      by (auto simp: rooted_def)
    with \<open>a \<in> A\<close> show ?thesis by auto
  qed
  moreover have "(reference x b, reference x c) \<in> (dep_rel x ?S)\<^sup>*" if "c \<in> ?S" for c
  proof (cases "c = b")
    case False
    with that obtain a where a: "a \<in> A" "c \<in> snd a" by auto
    with parts [of a] have "(fst a, reference x c) \<in> (dep_rel x (snd a))\<^sup>*" by (auto simp: rooted_def)
    then have "(fst a, reference x c) \<in> (dep_rel x ?S)\<^sup>*" using rtrancl_mono [OF dep [OF a(1)]] by blast
    moreover have "(reference x b, fst a) \<in> dep_rel x ?S" using a b ds by (intro dep_relI) auto
    ultimately show ?thesis by (rule converse_rtrancl_into_rtrancl [rotated])
  qed simp
  ultimately show ?thesis by (auto simp: rooted_def)
qed

lemma rooted_valid: "rooted x r S \<Longrightarrow> \<forall>b \<in> S. valid_reference (reference x b) \<Longrightarrow> valid_reference r"
  by (auto simp: rooted_def)

text \<open>Chains: the cell of the last item is the root of the whole chain.\<close>

definition chain_set :: "codec \<Rightarrow> (string \<times> json list) list \<Rightarrow> json set" where
  "chain_set x xs = insert array_body (set (chain x (reference x array_body) xs))"

lemma chain_append:
  "chain x h (xs @ [a]) = chain x h xs @ snd a @ [sequence_body (foldl (link x) h (map fst xs)) (fst a)]"
  by (induction xs arbitrary: h; cases a) auto

lemma rooted_chain:
  assumes "\<And>a. a \<in> set xs \<Longrightarrow> rooted x (fst a) (set (snd a))"
    and "\<forall>b \<in> chain_set x xs. valid_reference (reference x b)"
  shows "rooted x (head_of x (map fst xs)) (chain_set x xs)"
  using assms
proof (induction xs rule: rev_induct)
  case Nil
  show ?case by (simp add: rooted_def chain_set_def dependencies_simps)
next
  case (snoc a xs)
  let ?h = "head_of x (map fst xs)" and ?b = "sequence_body (head_of x (map fst xs)) (fst a)"
  have set: "chain_set x (xs @ [a]) = insert ?b (\<Union>p \<in> {(?h, chain_set x xs), (fst a, set (snd a))}. snd p)"
    by (auto simp: chain_set_def chain_append head_of_def)
  have IH: "rooted x ?h (chain_set x xs)" using snoc set by auto
  moreover have A: "rooted x (fst a) (set (snd a))" using snoc.prems(1) by simp
  moreover have "dependencies_of ?b = Inr [?h, fst a]"
    using rooted_valid [OF IH] rooted_valid [OF A] snoc.prems(2) set by (intro dependencies_simps) auto
  ultimately have "rooted x (reference x ?b) (chain_set x (xs @ [a]))"
    unfolding set by (intro rooted_node [where ds = "[?h, fst a]"]) auto
  then show ?case by (simp add: head_of_def link_def)
qed

lemma blobs_rooted:
  "\<forall>b \<in> set (blobs_of x v). valid_reference (reference x b) \<Longrightarrow> ordered_json v \<Longrightarrow>
     rooted x (ref_of x v) (set (blobs_of x v))"
proof (induction v)
  case (JString s)
  show ?case
  proof (cases "4096 < length s")
    case True
    let ?items = "map (\<lambda>c. (chunk_ref x c, [scalar_body (JString c)])) (chunk_list s)"
    let ?h = "head_of x (map (chunk_ref x) (chunk_list s))"
    have set: "set (blobs_of x (JString s)) = insert (string_body ?h) (\<Union>p \<in> {(?h, chain_set x ?items)}. snd p)"
      using True by (auto simp: chain_set_def)
    have "rooted x (head_of x (map fst ?items)) (chain_set x ?items)"
      using JString set by (intro rooted_chain) (auto simp: chunk_ref_def rooted_scalar)
    then have r: "rooted x ?h (chain_set x ?items)" by (simp add: comp_def)
    moreover have "dependencies_of (string_body ?h) = Inr [?h]"
      using rooted_valid [OF r] JString set by (intro dependencies_simps) auto
    ultimately show ?thesis
      unfolding set using True by (simp, intro rooted_node [where A = "{(?h, chain_set x ?items)}", simplified]) auto
  qed (simp add: rooted_scalar)
next
  case (JArray vs)
  let ?items = "map (\<lambda>v. (ref_of x v, blobs_of x v)) vs"
  have set: "set (blobs_of x (JArray vs)) = chain_set x ?items" by (simp add: chain_set_def)
  have "rooted x (fst a) (set (snd a))" if "a \<in> set ?items" for a
  proof -
    from that obtain v where v: "v \<in> set vs" "a = (ref_of x v, blobs_of x v)" by auto
    have "set (blobs_of x v) \<subseteq> chain_set x ?items"
      using chain_items [OF that, of x "reference x array_body"] v by (auto simp: chain_set_def)
    with JArray v show ?thesis unfolding set by auto
  qed
  then have "rooted x (head_of x (map fst ?items)) (chain_set x ?items)"
    using JArray.prems(1) unfolding set by (intro rooted_chain) auto
  then show ?case unfolding set by (simp add: comp_def)
next
  case (JObject m)
  let ?es = "map (\<lambda>e. (fst e, ref_of x (snd e))) m"
  let ?A = "(\<lambda>e. (ref_of x (snd e), set (blobs_of x (snd e)))) ` set m"
  have "bt_ok ?es" using JObject.prems by (simp add: bt_ok_def keys_def comp_def)
  then have es: "fold (\<lambda>(k, r). bt_insert k r) ?es [] = ?es" by (rule fold_bt_insert_id)
  have set: "set (blobs_of x (JObject m)) = insert (object_body ?es) (\<Union>a \<in> ?A. snd a)" using es by auto
  have parts: "rooted x (fst a) (snd a)" if "a \<in> ?A" for a
  proof -
    from that obtain e where e: "e \<in> set m" "a = (ref_of x (snd e), set (blobs_of x (snd e)))" by auto
    with JObject.prems have "rooted x (ref_of x (snd e)) (set (blobs_of x (snd e)))"
      by (intro JObject.IH [of e "snd e"]) (auto simp: snds.simps)
    with e show ?thesis by simp
  qed
  have "\<forall>e \<in> set ?es. valid_reference (snd e)"
    using parts rooted_valid JObject.prems(1) unfolding set by fastforce
  from dependencies_object [OF this] have d: "dependencies_of (object_body ?es) = Inr (map snd ?es)" .
  have "rooted x (reference x (object_body ?es)) (set (blobs_of x (JObject m)))"
    unfolding set by (rule rooted_node [OF parts d]) (auto simp: image_image)
  then show ?case using es by simp
qed (simp_all add: rooted_scalar)

subsection \<open>Stored values\<close>

definition stored :: "codec \<Rightarrow> content_db \<Rightarrow> string \<Rightarrow> json \<Rightarrow> bool" where
  "stored x db i b \<longleftrightarrow> (\<exists>raw. map_of (db_content db) i = Some raw \<and> cd_parse x raw = Some b)"

definition stored_bodies :: "codec \<Rightarrow> content_db \<Rightarrow> json set" where
  "stored_bodies x db = {b. \<exists>i. stored x db i b}"

text \<open>
  The invariant of the tables: every row holds a body with the hash of its key, whose
  dependencies are rows; the edge table is exactly the dependencies; records point to rows.
\<close>

definition db_ok :: "codec \<Rightarrow> content_db \<Rightarrow> bool" where
  "db_ok x db \<longleftrightarrow>
     (\<forall>i raw. map_of (db_content db) i = Some raw \<longrightarrow>
        (\<exists>b ds. cd_parse x raw = Some b \<and> reference x b = i \<and> dependencies_of b = Inr ds
           \<and> (\<forall>d \<in> set ds. map_of (db_content db) d \<noteq> None)))
     \<and> (\<forall>p c. (p, c) \<in> set (db_edges db) \<longleftrightarrow>
          (\<exists>b ds. stored x db p b \<and> dependencies_of b = Inr ds \<and> c \<in> set ds))
     \<and> (\<forall>(k, r) \<in> set (db_records db). map_of (db_content db) r \<noteq> None)"

definition store_ok :: "codec \<Rightarrow> content_store \<Rightarrow> bool" where
  "store_ok x st \<longleftrightarrow> db_ok x (cs_db st) \<and> (\<forall>i \<in> set (cs_committed st). map_of (db_content (cs_db st)) i \<noteq> None)"

definition value_stored :: "codec \<Rightarrow> content_db \<Rightarrow> json \<Rightarrow> bool" where
  "value_stored x db v \<longleftrightarrow> (\<forall>b \<in> set (blobs_of x v). stored x db (reference x b) b)"

lemma stored_det: "stored x db i b \<Longrightarrow> stored x db i b' \<Longrightarrow> b = b'"
  by (auto simp: stored_def)

lemma db_ok_row:
  assumes "db_ok x db" and "map_of (db_content db) i \<noteq> None"
  obtains b ds where "stored x db i b" "reference x b = i" "dependencies_of b = Inr ds"
    "\<forall>d \<in> set ds. map_of (db_content db) d \<noteq> None"
  using assms unfolding db_ok_def stored_def by blast

lemma stored_row: "stored x db i b \<Longrightarrow> map_of (db_content db) i \<noteq> None"
  by (auto simp: stored_def)

lemma db_ok_edge: "db_ok x db \<Longrightarrow> (p, c) \<in> set (db_edges db) \<Longrightarrow>
    map_of (db_content db) p \<noteq> None \<and> map_of (db_content db) c \<noteq> None"
  unfolding db_ok_def stored_def by fastforce

text \<open>The recursive query computes the reflexive transitive closure of the edge table.\<close>

lemma closure_loop_set:
  assumes "set edges `` set seen \<subseteq> set seen \<union> set pending"
  shows "set (closure_loop edges pending seen) = set seen \<union> (set edges)\<^sup>* `` set pending"
  using assms
proof (induction edges pending seen rule: closure_loop.induct)
  case (1 edges seen)
  then show ?case by (simp add: closure_loop.simps)
next
  case (2 edges i pending seen)
  show ?case
  proof (cases "i \<in> set seen")
    case True
    with 2 have IH: "set (closure_loop edges pending seen) = set seen \<union> (set edges)\<^sup>* `` set pending"
      by (auto simp: insert_absorb)
    have "set edges `` (set seen \<union> (set edges)\<^sup>* `` set pending) \<subseteq> set seen \<union> (set edges)\<^sup>* `` set pending"
      using "2.prems" True by (auto intro: rtrancl_into_rtrancl)
    from Image_closed_trancl [OF this] have "(set edges)\<^sup>* `` {i} \<subseteq> set seen \<union> (set edges)\<^sup>* `` set pending"
      using True by blast
    with True IH show ?thesis by (auto simp: closure_loop.simps)
  next
    case False
    let ?new = "map snd (filter (\<lambda>e. fst e = i) edges) @ pending"
    have new: "set ?new = set edges `` {i} \<union> set pending" by force
    have "set edges `` set (i # seen) \<subseteq> set (i # seen) \<union> set ?new" using "2.prems" new by auto
    with False "2.IH"(2) have "set (closure_loop edges ?new (i # seen)) =
        set (i # seen) \<union> (set edges)\<^sup>* `` (set edges `` {i} \<union> set pending)" using new by simp
    moreover have "(set edges)\<^sup>* `` {i} = insert i ((set edges)\<^sup>* `` (set edges `` {i}))"
      by (auto elim: converse_rtranclE intro: converse_rtrancl_into_rtrancl)
    ultimately show ?thesis using False by (auto simp: closure_loop.simps)
  qed
qed

lemma reach_rows:
  assumes "db_ok x db" and "map_of (db_content db) i \<noteq> None" and "(i, j) \<in> (set (db_edges db))\<^sup>*"
  shows "map_of (db_content db) j \<noteq> None"
  using assms(3,2) by (induction rule: rtrancl_induct) (auto dest: db_ok_edge [OF assms(1)])

lemma export_row_ok:
  assumes "db_ok x db" and "map_of (db_content db) i \<noteq> None"
  shows "\<exists>b. export_row x db i = Inr (i, b) \<and> stored x db i b"
proof -
  obtain b ds where "stored x db i b" "reference x b = i" "dependencies_of b = Inr ds"
    by (rule db_ok_row [OF assms])
  then show ?thesis by (auto simp: export_row_def stored_def)
qed

lemma export_blobs_ok:
  assumes ok: "db_ok x db" and i: "map_of (db_content db) i \<noteq> None"
  obtains found where "export_blobs x db [i] = Inr found" "bt_ok found"
    "\<forall>j b. map_of found j = Some b \<longleftrightarrow> (i, j) \<in> (set (db_edges db))\<^sup>* \<and> stored x db j b"
proof -
  let ?E = "(set (db_edges db))\<^sup>*" and ?cl = "closure_loop (db_edges db) [i] []"
  have cl: "set ?cl = ?E `` {i}" using closure_loop_set [of "db_edges db" "[]" "[i]"] by simp
  have row: "\<exists>b. export_row x db j = Inr (j, b) \<and> stored x db j b" if "j \<in> set ?cl" for j
    using that reach_rows [OF ok i] cl by (intro export_row_ok [OF ok]) auto
  then have "is_ok (collect_results (export_row x db) ?cl)"
    unfolding collect_results_err_iff by fastforce
  then obtain rows where rows: "collect_results (export_row x db) ?cl = Inr rows" by (auto simp: is_ok_iff)
  then have all2: "list_all2 (\<lambda>j r. export_row x db j = Inr r) ?cl rows"
    by (simp add: collect_results_ok_iff)
  have mem: "(j, b) \<in> set rows \<longleftrightarrow> (i, j) \<in> ?E \<and> stored x db j b" for j b
  proof
    assume "(j, b) \<in> set rows"
    then obtain k where "k \<in> set ?cl" "export_row x db k = Inr (j, b)"
      using list_all2_mem(1) [OF all2] by blast
    with row [of k] cl show "(i, j) \<in> ?E \<and> stored x db j b" by auto
  next
    assume j: "(i, j) \<in> ?E \<and> stored x db j b"
    then have "j \<in> set ?cl" using cl by simp
    with row [of j] j obtain b' where "export_row x db j = Inr (j, b')" "b' = b"
      using stored_det by blast
    with list_all2_mem(2) [OF all2 \<open>j \<in> set ?cl\<close>] show "(j, b) \<in> set rows" by auto
  qed
  have cons: "v = v'" if "(k, v) \<in> set rows" "(k, v') \<in> set rows" for k v v'
    using that mem stored_det by blast
  define found where "found = fold (\<lambda>(i, body). bt_insert i body) rows []"
  have found: "map_of found j = Some b \<longleftrightarrow> (i, j) \<in> ?E \<and> stored x db j b" for j b
    using fold_bt_insert_consistent [of rows "[]" j b, OF cons] mem by (simp add: found_def)
  have bt: "bt_ok found" unfolding found_def using fold_bt_insert_ok [of "[]" "\<lambda>k. k" rows] by simp
  have "check_children found b = Inr ()" if "(j, b) \<in> set found" for j b
  proof -
    from that have "map_of found j = Some b" using bt_ok_in_iff [OF bt] by simp
    then have j: "(i, j) \<in> ?E" "stored x db j b" using found by simp_all
    obtain b' ds where "stored x db j b'" and ds: "dependencies_of b' = Inr ds"
      "\<forall>d \<in> set ds. map_of (db_content db) d \<noteq> None"
      by (rule db_ok_row [OF ok stored_row [OF j(2)]])
    from stored_det [OF this(1) j(2)] have "b' = b" .
    note ds = ds [unfolded this]
    have "map_of found d \<noteq> None" if "d \<in> set ds" for d
    proof -
      have "(j, d) \<in> set (db_edges db)" using ok j(2) ds that unfolding db_ok_def by blast
      with j have "(i, d) \<in> ?E" by (simp add: rtrancl_into_rtrancl)
      moreover from ds(2) that obtain c where "stored x db d c"
        using db_ok_row [OF ok, of d] by blast
      ultimately have "map_of found d = Some c" using found by simp
      then show ?thesis by simp
    qed
    with ds show ?thesis by (simp add: check_children_def list_all_iff)
  qed
  then have "for_each (\<lambda>(i, body). check_children found body) found = Inr ()"
    unfolding for_each_ok_iff by auto
  then have "export_blobs x db [i] = Inr found"
    using rows by (simp add: export_blobs_def found_def Let_def eval_nat_numeral)
  from that [OF this bt] found show thesis by blast
qed

lemma resolve_missing:
  "map_of (db_content db) i = None \<Longrightarrow> \<exists>e. resolve_content x db i = Inl e"
proof -
  assume none: "map_of (db_content db) i = None"
  have "i \<in> set (closure_loop (db_edges db) [i] [])"
    using closure_loop_set [of "db_edges db" "[]" "[i]"] by simp
  moreover have "export_row x db i = Inl MissingInClosure" using none by (simp add: export_row_def)
  ultimately have "\<not> is_ok (collect_results (export_row x db) (closure_loop (db_edges db) [i] []))"
    unfolding collect_results_err_iff by force
  then show ?thesis
    by (auto simp: resolve_content_def export_blobs_def is_ok_def eval_nat_numeral split: sum.splits)
qed

lemma resolve_stored:
  assumes ok: "db_ok x db" and v: "value_stored x db v" "fits 0 v" "ordered_json v"
    and codec: "codec_ok x (set (blobs_of x v))"
  shows "resolve_content x db (ref_of x v) = Inr v"
proof -
  let ?S = "set (blobs_of x v)"
  have rooted: "rooted x (ref_of x v) ?S" using codec v(3) by (intro blobs_rooted) (auto simp: codec_ok_def)
  have deps: "dep_rel x ?S \<subseteq> set (db_edges db)"
    using ok v(1) unfolding dep_rel_def db_ok_def value_stored_def by blast
  obtain b where "b \<in> ?S" "ref_of x v = reference x b" using rooted by (auto simp: rooted_def)
  with v(1) have "stored x db (ref_of x v) b" by (simp add: value_stored_def)
  then have "map_of (db_content db) (ref_of x v) \<noteq> None" by (rule stored_row)
  from this obtain found where found: "export_blobs x db [ref_of x v] = Inr found" "bt_ok found"
    "\<forall>j b. map_of found j = Some b \<longleftrightarrow> (ref_of x v, j) \<in> (set (db_edges db))\<^sup>* \<and> stored x db j b"
    by (rule export_blobs_ok [OF ok])
  have "map_of found (reference x b) = Some b" if "b \<in> ?S" for b
  proof -
    have "(ref_of x v, reference x b) \<in> (dep_rel x ?S)\<^sup>*" using rooted that by (simp add: rooted_def)
    then have "(ref_of x v, reference x b) \<in> (set (db_edges db))\<^sup>*" using rtrancl_mono [OF deps] by blast
    with v(1) that found(3) show ?thesis by (simp add: value_stored_def)
  qed
  then have "holds_all x found ?S" by (simp add: holds_all_def)
  then have "decode found 0 (ref_of x v) = Inr v"
    using codec v(2,3) by (intro decode_ref) (auto simp: codec_ok_def)
  with found(1) show ?thesis by (simp add: resolve_content_def)
qed

text \<open>
  A value reads the same in any sound tables that hold the rows its reference reaches; in
  particular reading is stable under growth of the tables.
\<close>

lemma resolve_transfer:
  assumes ok: "db_ok x db" "db_ok x db'"
    and same: "\<forall>j b. (i, j) \<in> (set (db_edges db))\<^sup>* \<longrightarrow> stored x db j b \<longrightarrow> stored x db' j b"
    and v: "resolve_content x db i = Inr v"
  shows "resolve_content x db' i = Inr v"
proof -
  let ?E = "(set (db_edges db))\<^sup>*" and ?E' = "(set (db_edges db'))\<^sup>*"
  have i: "map_of (db_content db) i \<noteq> None" using resolve_missing [of db i x] v by auto
  have st: "stored x db' j b \<longleftrightarrow> stored x db j b" if j: "(i, j) \<in> ?E" for j b
  proof -
    obtain c where c: "stored x db j c" by (rule db_ok_row [OF ok(1) reach_rows [OF ok(1) i j]])
    with same j have "stored x db' j c" by blast
    with c stored_det show ?thesis by blast
  qed
  have edge: "(p, c) \<in> set (db_edges db') \<longleftrightarrow> (p, c) \<in> set (db_edges db)" if "(i, p) \<in> ?E" for p c
    using ok st [OF that] unfolding db_ok_def by blast
  have reach: "(i, j) \<in> ?E' \<longleftrightarrow> (i, j) \<in> ?E" for j
  proof
    assume "(i, j) \<in> ?E'"
    then show "(i, j) \<in> ?E"
      by (induction rule: rtrancl_induct) (auto simp: edge intro: rtrancl_into_rtrancl)
  next
    assume "(i, j) \<in> ?E"
    then show "(i, j) \<in> ?E'"
    proof (induction rule: rtrancl_induct)
      case (step y z)
      then show ?case using edge by (meson rtrancl_into_rtrancl)
    qed simp
  qed
  obtain b where "stored x db i b" by (rule db_ok_row [OF ok(1) i])
  with st [of i b] have "stored x db' i b" by simp
  then have i': "map_of (db_content db') i \<noteq> None" by (rule stored_row)
  obtain f where f: "export_blobs x db [i] = Inr f" "bt_ok f"
    "\<forall>j b. map_of f j = Some b \<longleftrightarrow> (i, j) \<in> ?E \<and> stored x db j b"
    by (rule export_blobs_ok [OF ok(1) i])
  obtain f' where f': "export_blobs x db' [i] = Inr f'" "bt_ok f'"
    "\<forall>j b. map_of f' j = Some b \<longleftrightarrow> (i, j) \<in> ?E' \<and> stored x db' j b"
    by (rule export_blobs_ok [OF ok(2) i'])
  have "map_of f' j = Some b \<longleftrightarrow> map_of f j = Some b" for j b
    using f(3) f'(3) reach [of j] st [of j b] by blast
  then have "map_of f' = map_of f" by (intro ext) (metis not_Some_eq)
  from bt_ok_ext [OF f'(2) f(2) this] have "f' = f" .
  with f(1) f'(1) v show ?thesis by (simp add: resolve_content_def)
qed

lemma resolve_mono:
  assumes "db_ok x db" "db_ok x db'" and le: "map_of (db_content db) \<subseteq>\<^sub>m map_of (db_content db')"
    and "resolve_content x db i = Inr v"
  shows "resolve_content x db' i = Inr v"
proof (rule resolve_transfer [OF assms(1,2) _ assms(4)])
  have "stored x db' j b" if "stored x db j b" for j b
    using that le unfolding stored_def map_le_def by (metis domI)
  then show "\<forall>j b. (i, j) \<in> (set (db_edges db))\<^sup>* \<longrightarrow> stored x db j b \<longrightarrow> stored x db' j b" by blast
qed

subsection \<open>Growing the tables\<close>

lemma fold_insert_set [simp]: "set (fold List.insert xs ys) = set xs \<union> set ys"
  by (induction xs arbitrary: ys) auto

lemma insert_or_ignore_fold:
  "map_of (fold (\<lambda>(i, raw). insert_or_ignore i raw) rows m) k =
     (case map_of m k of Some v \<Rightarrow> Some v | None \<Rightarrow> map_of rows k)"
proof (induction rows arbitrary: m)
  case (Cons r rows)
  obtain i raw where r: "r = (i, raw)" by fastforce
  have "map_of (insert_or_ignore i raw m) k =
      (case map_of m k of Some v \<Rightarrow> Some v | None \<Rightarrow> if k = i then Some raw else None)"
    by (simp add: insert_or_ignore_def split: option.splits)
  then show ?case by (simp add: r Cons split: option.splits)
qed (simp split: option.splits)

text \<open>Blobs that may be added to the tables.\<close>

definition pending_ok :: "codec \<Rightarrow> content_db \<Rightarrow> (string, json) btree \<Rightarrow> bool" where
  "pending_ok x db P \<longleftrightarrow>
     bt_ok P
     \<and> (\<forall>i b. map_of P i = Some b \<longrightarrow>
          reference x b = i \<and> cd_parse x (cd_print x b) = Some b
          \<and> (\<forall>b'. stored x db i b' \<longrightarrow> b' = b)
          \<and> (\<exists>ds. dependencies_of b = Inr ds
               \<and> (\<forall>d \<in> set ds. map_of P d \<noteq> None \<or> map_of (db_content db) d \<noteq> None)))"

lemma pending_okD:
  assumes "pending_ok x db P" and "map_of P i = Some b"
  obtains ds where "reference x b = i" "cd_parse x (cd_print x b) = Some b"
    "\<forall>b'. stored x db i b' \<longrightarrow> b' = b" "dependencies_of b = Inr ds"
    "\<forall>d \<in> set ds. map_of P d \<noteq> None \<or> map_of (db_content db) d \<noteq> None"
  using assms unfolding pending_ok_def by blast

lemma insert_blobs_result:
  assumes "pending_ok x db P"
  obtains db' where "insert_blobs x P db = Inr db'" "db_records db' = db_records db"
    "\<forall>k. map_of (db_content db') k =
       (case map_of (db_content db) k of Some v \<Rightarrow> Some v | None \<Rightarrow> map_option (cd_print x) (map_of P k))"
    "\<forall>p c. (p, c) \<in> set (db_edges db') \<longleftrightarrow> (p, c) \<in> set (db_edges db)
       \<or> (\<exists>b ds. map_of P p = Some b \<and> dependencies_of b = Inr ds \<and> c \<in> set ds)"
proof -
  let ?f = "\<lambda>(i, body). case dependencies_of body of Inl e \<Rightarrow> Inl e | Inr ds \<Rightarrow> Inr (map (\<lambda>child. (i, child)) ds)"
  have bt: "bt_ok P" using assms by (simp add: pending_ok_def)
  have "is_ok (?f e)" if "e \<in> set P" for e
  proof -
    obtain i b where e: "e = (i, b)" by fastforce
    with that have "map_of P i = Some b" using bt_ok_in_iff [OF bt] by simp
    with assms obtain ds where "dependencies_of b = Inr ds" by (rule pending_okD)
    with e show ?thesis by simp
  qed
  then have "is_ok (collect_results ?f P)" by (simp add: collect_results_err_iff)
  then obtain edges where edges: "collect_results ?f P = Inr edges" by (auto simp: is_ok_iff)
  then have all2: "list_all2 (\<lambda>e es. ?f e = Inr es) P edges" by (simp add: collect_results_ok_iff)
  have mem: "(p, c) \<in> set (concat edges) \<longleftrightarrow>
      (\<exists>b ds. map_of P p = Some b \<and> dependencies_of b = Inr ds \<and> c \<in> set ds)" for p c
  proof
    assume "(p, c) \<in> set (concat edges)"
    then obtain es where es: "es \<in> set edges" "(p, c) \<in> set es" by auto
    from list_all2_mem(1) [OF all2 es(1)] obtain i b where ib: "(i, b) \<in> set P" "?f (i, b) = Inr es" by auto
    then obtain ds where "dependencies_of b = Inr ds" "es = map (\<lambda>child. (i, child)) ds"
      by (auto split: sum.splits)
    moreover from ib(1) have "map_of P i = Some b" using bt_ok_in_iff [OF bt] by simp
    ultimately show "\<exists>b ds. map_of P p = Some b \<and> dependencies_of b = Inr ds \<and> c \<in> set ds"
      using es(2) by auto
  next
    assume "\<exists>b ds. map_of P p = Some b \<and> dependencies_of b = Inr ds \<and> c \<in> set ds"
    then obtain b ds where b: "map_of P p = Some b" "dependencies_of b = Inr ds" "c \<in> set ds" by blast
    then have "(p, b) \<in> set P" using bt_ok_in_iff [OF bt] by simp
    from list_all2_mem(2) [OF all2 this] b obtain es where "es \<in> set edges"
      "es = map (\<lambda>child. (p, child)) ds" by auto
    moreover from this(2) b(3) have "(p, c) \<in> set es" by simp
    ultimately show "(p, c) \<in> set (concat edges)" unfolding set_concat by blast
  qed
  have rows: "map_of (map (\<lambda>(i, body). (i, cd_print x body)) P) k = map_option (cd_print x) (map_of P k)" for k
    by (induction P) auto
  show thesis
  proof (rule that)
    show "insert_blobs x P db = Inr (db\<lparr>db_content := fold (\<lambda>(i, raw). insert_or_ignore i raw)
        (map (\<lambda>(i, body). (i, cd_print x body)) P) (db_content db),
      db_edges := fold List.insert (concat edges) (db_edges db)\<rparr>)"
      using edges by (simp add: insert_blobs_def)
  qed (use mem in \<open>auto simp: insert_or_ignore_fold rows split: option.splits\<close>)
qed

lemma insert_blobs_ok:
  assumes ok: "db_ok x db" and P: "pending_ok x db P"
  obtains db' where "insert_blobs x P db = Inr db'" "db_ok x db'" "db_records db' = db_records db"
    "map_of (db_content db) \<subseteq>\<^sub>m map_of (db_content db')"
    "\<forall>i b. map_of P i = Some b \<longrightarrow> stored x db' i b"
    "\<forall>i b. stored x db' i b \<longrightarrow> stored x db i b \<or> map_of P i = Some b"
proof -
  obtain db' where res: "insert_blobs x P db = Inr db'" and rec: "db_records db' = db_records db"
    and content: "\<forall>k. map_of (db_content db') k =
       (case map_of (db_content db) k of Some v \<Rightarrow> Some v | None \<Rightarrow> map_option (cd_print x) (map_of P k))"
    and edges: "\<forall>p c. (p, c) \<in> set (db_edges db') \<longleftrightarrow> (p, c) \<in> set (db_edges db)
       \<or> (\<exists>b ds. map_of P p = Some b \<and> dependencies_of b = Inr ds \<and> c \<in> set ds)"
    by (rule insert_blobs_result [OF P])
  have le: "map_of (db_content db) \<subseteq>\<^sub>m map_of (db_content db')"
    using content by (auto simp: map_le_def split: option.splits)
  have old: "stored x db' i b" if "stored x db i b" for i b
    using that content by (auto simp: stored_def)
  have new: "stored x db' i b" if b: "map_of P i = Some b" for i b
  proof (cases "map_of (db_content db) i")
    case None
    with b content P show ?thesis by (auto simp: stored_def elim: pending_okD)
  next
    case (Some raw)
    then obtain b' where "stored x db i b'" using db_ok_row [OF ok, of i] by blast
    moreover from this P b have "b' = b" by (auto elim!: pending_okD)
    ultimately show ?thesis using old by simp
  qed
  have inv: "stored x db i b \<or> map_of P i = Some b" if "stored x db' i b" for i b
  proof (cases "map_of (db_content db) i")
    case None
    with that content obtain b' where "map_of P i = Some b'" "cd_parse x (cd_print x b') = Some b"
      by (auto simp: stored_def)
    moreover from this(1) P have "cd_parse x (cd_print x b') = Some b'" by (auto elim: pending_okD)
    ultimately show ?thesis by simp
  next
    case (Some raw)
    with that content show ?thesis by (auto simp: stored_def)
  qed
  have row: "map_of (db_content db') d \<noteq> None" if "map_of P d \<noteq> None \<or> map_of (db_content db) d \<noteq> None" for d
    using that content by (auto split: option.splits)
  have body: "\<exists>ds. reference x b = i \<and> dependencies_of b = Inr ds \<and> (\<forall>d \<in> set ds. map_of (db_content db') d \<noteq> None)"
    if "stored x db' i b" for i b
    using inv [OF that]
  proof
    assume b: "stored x db i b"
    obtain b' ds where "stored x db i b'" "reference x b' = i" "dependencies_of b' = Inr ds"
      "\<forall>d \<in> set ds. map_of (db_content db) d \<noteq> None" by (rule db_ok_row [OF ok stored_row [OF b]])
    with stored_det [OF b] row show ?thesis by blast
  next
    assume "map_of P i = Some b"
    with P row show ?thesis by (auto elim!: pending_okD)
  qed
  have parse: "\<exists>b. cd_parse x raw = Some b" if "map_of (db_content db') i = Some raw" for i raw
  proof (cases "map_of (db_content db) i")
    case None
    with that content obtain b where "map_of P i = Some b" "raw = cd_print x b" by auto
    with P show ?thesis by (auto elim: pending_okD)
  next
    case (Some raw')
    with that content have "raw' = raw" by simp
    with Some ok show ?thesis unfolding db_ok_def by blast
  qed
  have "\<exists>b ds. cd_parse x raw = Some b \<and> reference x b = i \<and> dependencies_of b = Inr ds
      \<and> (\<forall>d \<in> set ds. map_of (db_content db') d \<noteq> None)" if "map_of (db_content db') i = Some raw" for i raw
  proof -
    from parse [OF that] obtain b where "cd_parse x raw = Some b" by blast
    moreover from this that have "stored x db' i b" by (simp add: stored_def)
    ultimately show ?thesis using body by blast
  qed
  moreover have "(p, c) \<in> set (db_edges db') \<longleftrightarrow>
      (\<exists>b ds. stored x db' p b \<and> dependencies_of b = Inr ds \<and> c \<in> set ds)" for p c
  proof -
    have "(p, c) \<in> set (db_edges db) \<longleftrightarrow>
        (\<exists>b ds. stored x db p b \<and> dependencies_of b = Inr ds \<and> c \<in> set ds)"
      using ok by (simp add: db_ok_def)
    then have "(p, c) \<in> set (db_edges db') \<longleftrightarrow>
        (\<exists>b ds. (stored x db p b \<or> map_of P p = Some b) \<and> dependencies_of b = Inr ds \<and> c \<in> set ds)"
      using edges by blast
    moreover have "stored x db p b \<or> map_of P p = Some b \<longleftrightarrow> stored x db' p b" for b
      using old [of p b] new [of p b] inv [of p b] by blast
    ultimately show ?thesis by simp
  qed
  moreover have "\<forall>(k, r) \<in> set (db_records db'). map_of (db_content db') r \<noteq> None"
    using ok row unfolding rec db_ok_def by blast
  ultimately have "db_ok x db'" unfolding db_ok_def by blast
  from that [OF res this rec le] new inv show thesis by blast
qed

subsection \<open>Interning\<close>

lemma adds_lookup:
  assumes "inj_on (reference x) (set bs)"
  shows "map_of (adds x bs p) i = Some b \<longleftrightarrow>
    map_of p i = Some b \<or> (map_of p i = None \<and> b \<in> set bs \<and> reference x b = i)"
  using assms
proof (induction bs arbitrary: p)
  case (Cons a bs)
  then have IH: "map_of (adds x bs (put_blob x a p)) i = Some b \<longleftrightarrow>
      map_of (put_blob x a p) i = Some b
      \<or> (map_of (put_blob x a p) i = None \<and> b \<in> set bs \<and> reference x b = i)" by simp
  have put: "map_of (put_blob x a p) i = (if map_of p i = None \<and> i = reference x a then Some a else map_of p i)"
    by (auto simp: put_blob_def)
  have "b = a" if "b \<in> set bs" "reference x b = reference x a"
    using Cons.prems that by (auto simp: inj_on_def)
  then show ?case by (auto simp: IH put)
qed simp

lemma adds_ok: "bt_ok p \<Longrightarrow> bt_ok (adds x bs p)"
  by (induction bs arbitrary: p) (auto simp: put_blob_def bt_insert_ok)

definition safe :: "codec \<Rightarrow> content_store \<Rightarrow> json \<Rightarrow> bool" where
  "safe x st v \<longleftrightarrow> ordered_json v \<and> codec_ok x (set (blobs_of x v) \<union> stored_bodies x (cs_db st))"

lemma map_of_filter_keys:
  "map_of (filter (\<lambda>(i, _). Q i) m) k = (if Q k then map_of m k else None)"
  by (induction m) auto

lemma bt_ok_filter: "bt_ok m \<Longrightarrow> bt_ok (filter P m)"
  unfolding bt_ok_def keys_def by (induction m) auto

lemma prepare_ok:
  assumes ok: "store_ok x st" and safe: "safe x st v" and prep: "prepare x st v = Inr prep"
  shows "prep_reference prep = ref_of x v" and "fits 0 v"
    and "pending_ok x (cs_db st) (prep_pending prep)"
    and "\<forall>b \<in> set (blobs_of x v). map_of (prep_pending prep) (reference x b) = Some b
           \<or> stored x (cs_db st) (reference x b) b"
    and "\<forall>i b. map_of (prep_pending prep) i = Some b \<longrightarrow> b \<in> set (blobs_of x v)"
proof -
  let ?S = "set (blobs_of x v)" and ?P = "prep_pending prep"
  from encode_refines [of x v "[]" 0] prep
  have p: "prep = \<lparr>prep_reference = ref_of x v,
      prep_pending = filter (\<lambda>(i, _). i \<notin> set (cs_committed st)) (adds x (blobs_of x v) [])\<rparr>"
    and f: "fits 0 v"
    by (auto simp: prepare_def yields_def split: sum.splits if_splits)
  from p show "prep_reference prep = ref_of x v" by simp
  show "fits 0 v" by (rule f)
  have codec: "codec_ok x (?S \<union> stored_bodies x (cs_db st))" and ord: "ordered_json v"
    using safe by (simp_all add: safe_def)
  then have inj: "inj_on (reference x) (?S \<union> stored_bodies x (cs_db st))" by (simp add: codec_ok_def)
  then have injS: "inj_on (reference x) ?S" by (rule inj_on_subset) simp
  have P: "map_of ?P i = Some b \<longleftrightarrow> i \<notin> set (cs_committed st) \<and> b \<in> ?S \<and> reference x b = i" for i b
    using adds_lookup [OF injS, of "[]" i b] by (auto simp: p map_of_filter_keys)
  then show "\<forall>i b. map_of ?P i = Some b \<longrightarrow> b \<in> ?S" by blast
  have same: "b' = b" if "b \<in> ?S" "stored x (cs_db st) (reference x b) b'" for b b'
  proof -
    have "db_ok x (cs_db st)" using ok by (simp add: store_ok_def)
    from this stored_row [OF that(2)] obtain c where "stored x (cs_db st) (reference x b) c"
      "reference x c = reference x b" by (rule db_ok_row)
    with stored_det [OF that(2)] have "reference x b' = reference x b" by blast
    moreover have "b' \<in> stored_bodies x (cs_db st)" using that(2) by (auto simp: stored_bodies_def)
    ultimately show ?thesis using inj that(1) by (auto simp: inj_on_def)
  qed
  show known: "\<forall>b \<in> ?S. map_of ?P (reference x b) = Some b \<or> stored x (cs_db st) (reference x b) b"
  proof
    fix b assume b: "b \<in> ?S"
    show "map_of ?P (reference x b) = Some b \<or> stored x (cs_db st) (reference x b) b"
    proof (cases "reference x b \<in> set (cs_committed st)")
      case True
      with ok have "db_ok x (cs_db st)" "map_of (db_content (cs_db st)) (reference x b) \<noteq> None"
        by (auto simp: store_ok_def)
      then obtain c where "stored x (cs_db st) (reference x b) c" by (rule db_ok_row)
      with same [OF b] show ?thesis by blast
    qed (simp add: P b)
  qed
  have rooted: "rooted x (ref_of x v) ?S" using codec ord by (intro blobs_rooted) (auto simp: codec_ok_def)
  have "\<exists>ds. dependencies_of b = Inr ds
      \<and> (\<forall>d \<in> set ds. map_of ?P d \<noteq> None \<or> map_of (db_content (cs_db st)) d \<noteq> None)"
    if "b \<in> ?S" for b
  proof -
    from rooted that obtain ds where ds: "dependencies_of b = Inr ds" "set ds \<subseteq> reference x ` ?S"
      by (auto simp: rooted_def)
    have "map_of ?P d \<noteq> None \<or> map_of (db_content (cs_db st)) d \<noteq> None" if "d \<in> set ds" for d
    proof -
      from ds(2) that obtain c where "c \<in> ?S" "d = reference x c" by auto
      with known show ?thesis using stored_row by fastforce
    qed
    with ds(1) show ?thesis by blast
  qed
  moreover have "bt_ok ?P" by (simp add: p bt_ok_filter adds_ok)
  moreover have "cd_parse x (cd_print x b) = Some b" if "b \<in> ?S" for b
    using codec that by (simp add: codec_ok_def)
  ultimately show "pending_ok x (cs_db st) ?P" unfolding pending_ok_def P using same by blast
qed

text \<open>What the rest of a transaction may do to the tables: rows and edges stay, new records
  point to the given references.\<close>

definition record_update :: "string set \<Rightarrow> (content_db \<Rightarrow> content_db) \<Rightarrow> bool" where
  "record_update R f \<longleftrightarrow>
     (\<forall>db. db_content (f db) = db_content db \<and> db_edges (f db) = db_edges db
        \<and> (\<forall>k r. (k, r) \<in> set (db_records (f db)) \<longrightarrow> (k, r) \<in> set (db_records db) \<or> r \<in> R))"

lemma record_updates:
  "record_update R (\<lambda>db. db)" "record_update (insert r R) (put_row k r)" "record_update (insert r R) (claim_row k r)"
  by (auto simp: record_update_def put_row_def claim_row_def)

lemma mark_committed_set:
  "set (mark_committed prep known) \<subseteq> insert (prep_reference prep) (set (keys (prep_pending prep)) \<union> set known)"
  by (auto simp: mark_committed_def Let_def dest: in_set_takeD split: if_splits)

lemma commit_ok:
  assumes ok: "store_ok x st" and P: "pending_ok x (cs_db st) (prep_pending prep)"
    and r: "map_of (prep_pending prep) (prep_reference prep) \<noteq> None
      \<or> map_of (db_content (cs_db st)) (prep_reference prep) \<noteq> None"
    and f: "record_update (insert (prep_reference prep) (dom (map_of (db_content (cs_db st))))) f"
  obtains st' db where "commit_content x st prep f = Inr st'" "store_ok x st'"
    "map_of (db_content (cs_db st)) \<subseteq>\<^sub>m map_of (db_content (cs_db st'))"
    "\<forall>i b. map_of (prep_pending prep) i = Some b \<longrightarrow> stored x (cs_db st') i b"
    "\<forall>i b. stored x (cs_db st') i b \<longrightarrow> stored x (cs_db st) i b \<or> map_of (prep_pending prep) i = Some b"
    "cs_db st' = f db" "db_records db = db_records (cs_db st)"
proof -
  from ok have dbok: "db_ok x (cs_db st)" by (simp add: store_ok_def)
  obtain db where db: "insert_blobs x (prep_pending prep) (cs_db st) = Inr db" "db_ok x db"
    "db_records db = db_records (cs_db st)"
    "map_of (db_content (cs_db st)) \<subseteq>\<^sub>m map_of (db_content db)"
    "\<forall>i b. map_of (prep_pending prep) i = Some b \<longrightarrow> stored x db i b"
    "\<forall>i b. stored x db i b \<longrightarrow> stored x (cs_db st) i b \<or> map_of (prep_pending prep) i = Some b"
    by (rule insert_blobs_ok [OF dbok P])
  have fs: "db_content (f db) = db_content db" "db_edges (f db) = db_edges db"
    using f by (simp_all add: record_update_def)
  have le: "map_of (db_content db) i \<noteq> None" if "map_of (db_content (cs_db st)) i \<noteq> None" for i
    using db(4) that by (metis domIff map_le_def)
  have pend: "map_of (db_content db) i \<noteq> None" if "map_of (prep_pending prep) i \<noteq> None" for i
  proof -
    from that obtain b where "map_of (prep_pending prep) i = Some b" by blast
    with db(5) have "stored x db i b" by blast
    then show ?thesis by (rule stored_row)
  qed
  have ref: "map_of (db_content db) (prep_reference prep) \<noteq> None" using r le pend by blast
  have "map_of (db_content db) i \<noteq> None" if "i \<in> set (mark_committed prep (cs_committed st))" for i
  proof -
    from that mark_committed_set [of prep "cs_committed st"]
    consider "i = prep_reference prep" | "i \<in> set (keys (prep_pending prep))" | "i \<in> set (cs_committed st)"
      by auto
    then show ?thesis
    proof cases
      case 2
      then have "map_of (prep_pending prep) i \<noteq> None" by (simp add: keys_iff)
      then show ?thesis by (rule pend)
    next
      case 3
      with ok have "map_of (db_content (cs_db st)) i \<noteq> None" unfolding store_ok_def by blast
      then show ?thesis by (rule le)
    qed (simp add: ref)
  qed
  moreover have "db_ok x (f db)"
  proof -
    have "map_of (db_content db) r' \<noteq> None" if "r' \<in> insert (prep_reference prep) (dom (map_of (db_content (cs_db st))))" for r'
    proof (cases "r' = prep_reference prep")
      case True
      show ?thesis unfolding True by (rule ref)
    next
      case False
      with that have "map_of (db_content (cs_db st)) r' \<noteq> None" by (simp add: domIff)
      then show ?thesis by (rule le)
    qed
    moreover have "(k, r') \<in> set (db_records db) \<Longrightarrow> map_of (db_content db) r' \<noteq> None" for k r'
      using db(2) unfolding db_ok_def by blast
    moreover have "(k, r') \<in> set (db_records db) \<or> r' \<in> insert (prep_reference prep) (dom (map_of (db_content (cs_db st))))"
      if "(k, r') \<in> set (db_records (f db))" for k r'
      using f that unfolding record_update_def by metis
    ultimately have "map_of (db_content db) r' \<noteq> None" if "(k, r') \<in> set (db_records (f db))" for k r'
      using that by metis
    then have "\<forall>(k, r') \<in> set (db_records (f db)). map_of (db_content db) r' \<noteq> None" by fastforce
    then show ?thesis using db(2) unfolding db_ok_def stored_def fs by blast
  qed
  ultimately have "store_ok x \<lparr>cs_db = f db, cs_committed = mark_committed prep (cs_committed st)\<rparr>"
    (is "store_ok x ?st") by (simp add: store_ok_def fs)
  moreover have "commit_content x st prep f = Inr ?st"
    using db(1) by (simp add: commit_content_def persist_in_def)
  moreover have "map_of (db_content (cs_db st)) \<subseteq>\<^sub>m map_of (db_content (cs_db ?st))"
    using db(4) by (simp add: fs)
  moreover have "\<forall>i b. map_of (prep_pending prep) i = Some b \<longrightarrow> stored x (cs_db ?st) i b"
    using db(5) by (simp add: fs stored_def)
  moreover have "\<forall>i b. stored x (cs_db ?st) i b \<longrightarrow> stored x (cs_db st) i b \<or> map_of (prep_pending prep) i = Some b"
    using db(6) by (simp add: fs stored_def)
  ultimately show thesis using that [of ?st db] db(3) by simp
qed

text \<open>Committing a prepared value: it becomes readable and everything readable stays so.\<close>

lemma commit_value:
  assumes ok: "store_ok x st" and safe: "safe x st v" and prep: "prepare x st v = Inr prep"
    and f: "record_update (insert (ref_of x v) (dom (map_of (db_content (cs_db st))))) f"
  obtains st' db where "commit_content x st prep f = Inr st'" "store_ok x st'"
    "prep_reference prep = ref_of x v" "resolve_content x (cs_db st') (ref_of x v) = Inr v"
    "\<forall>j w. resolve_content x (cs_db st) j = Inr w \<longrightarrow> resolve_content x (cs_db st') j = Inr w"
    "stored_bodies x (cs_db st') \<subseteq> stored_bodies x (cs_db st) \<union> set (blobs_of x v)"
    "cs_db st' = f db" "db_records db = db_records (cs_db st)"
    "value_stored x (cs_db st') v" "map_of (db_content (cs_db st)) \<subseteq>\<^sub>m map_of (db_content (cs_db st'))"
proof -
  note p = prepare_ok [OF ok safe prep]
  have codec: "codec_ok x (set (blobs_of x v))" and ord: "ordered_json v"
    using safe by (auto simp: safe_def intro: codec_ok_subset)
  then have "rooted x (ref_of x v) (set (blobs_of x v))" by (intro blobs_rooted) (auto simp: codec_ok_def)
  then obtain b where b: "b \<in> set (blobs_of x v)" "ref_of x v = reference x b" by (auto simp: rooted_def)
  have r: "map_of (prep_pending prep) (prep_reference prep) \<noteq> None
      \<or> map_of (db_content (cs_db st)) (prep_reference prep) \<noteq> None"
    using p(4) b stored_row unfolding p(1) by fastforce
  have "record_update (insert (prep_reference prep) (dom (map_of (db_content (cs_db st))))) f" using f p(1) by simp
  from commit_ok [OF ok p(3) r this] obtain st' db where
    st': "commit_content x st prep f = Inr st'" "store_ok x st'"
    "map_of (db_content (cs_db st)) \<subseteq>\<^sub>m map_of (db_content (cs_db st'))"
    "\<forall>i b. map_of (prep_pending prep) i = Some b \<longrightarrow> stored x (cs_db st') i b"
    "\<forall>i b. stored x (cs_db st') i b \<longrightarrow> stored x (cs_db st) i b \<or> map_of (prep_pending prep) i = Some b"
    "cs_db st' = f db" "db_records db = db_records (cs_db st)" by metis
  have dbs: "db_ok x (cs_db st)" "db_ok x (cs_db st')" using ok st'(2) by (simp_all add: store_ok_def)
  have keep: "stored x (cs_db st') i c" if "stored x (cs_db st) i c" for i c
    using that st'(3) unfolding stored_def map_le_def by (metis domI)
  have vs: "value_stored x (cs_db st') v"
    unfolding value_stored_def using p(4) st'(4) keep by blast
  from resolve_stored [OF dbs(2) this p(2) ord codec]
  have "resolve_content x (cs_db st') (ref_of x v) = Inr v" .
  moreover have "\<forall>j w. resolve_content x (cs_db st) j = Inr w \<longrightarrow> resolve_content x (cs_db st') j = Inr w"
    using resolve_mono [OF dbs st'(3)] by blast
  moreover have "stored_bodies x (cs_db st') \<subseteq> stored_bodies x (cs_db st) \<union> set (blobs_of x v)"
    unfolding stored_bodies_def using st'(5) p(5) by blast
  ultimately show thesis using that st'(1-3,6,7) p(1) vs by blast
qed

end
