(* ===== verification/Zf_Content_Text.thy ===== *)
theory Zf_Content_Text
  imports Zf_Content_Facts
begin

text \<open>
  Which values the encoder of \<open>zf-storage/src/content_store.rs\<close> accepts. Rust strings are UTF-8,
  so a chunk of at most 4096 bytes that ends on a character boundary is never empty and the
  chunking loop of \<open>encode\<close> ends; what remains is the limit on nesting.
\<close>

subsection \<open>UTF-8 texts can be cut\<close>

text \<open>The number of continuation bytes a lead byte announces, and texts with \<open>k\<close> more to come.\<close>

definition utf8_width :: "char \<Rightarrow> nat option" where
  "utf8_width c =
     (if c \<le> CHR 0x7F then Some 0
      else if CHR 0xC2 \<le> c \<and> c \<le> CHR 0xDF then Some 1
      else if CHR 0xE0 \<le> c \<and> c \<le> CHR 0xEF then Some 2
      else if CHR 0xF0 \<le> c \<and> c \<le> CHR 0xF4 then Some 3
      else None)"

fun utf8_from :: "nat \<Rightarrow> string \<Rightarrow> bool" where
  "utf8_from k [] = (k = 0)"
| "utf8_from 0 (c # s) = (case utf8_width c of None \<Rightarrow> False | Some w \<Rightarrow> utf8_from w s)"
| "utf8_from (Suc k) (c # s) = (is_continuation c \<and> utf8_from k s)"

definition utf8 :: "string \<Rightarrow> bool" where
  "utf8 s = utf8_from 0 s"

lemma utf8_width_lead: "utf8_width c = Some w \<Longrightarrow> \<not> is_continuation c \<and> w \<le> 3"
  by (auto simp: utf8_width_def is_continuation_def less_eq_char_def split: if_splits)

lemma utf8_cut:
  "utf8_from k s \<Longrightarrow> i < length s \<Longrightarrow> \<not> is_continuation (s ! i) \<Longrightarrow>
     utf8_from k (take i s) \<and> utf8_from 0 (drop i s)"
proof (induction k s arbitrary: i rule: utf8_from.induct)
  case (2 c s)
  then show ?case by (cases i) (auto split: option.splits)
next
  case (3 k c s)
  then show ?case by (cases i) auto
qed simp

lemma utf8_run: "utf8_from k s \<Longrightarrow> i \<le> length s \<Longrightarrow> k \<le> 3 \<Longrightarrow> \<exists>j \<le> 3. utf8_from j (drop i s)"
proof (induction k s arbitrary: i rule: utf8_from.induct)
  case (2 c s)
  then show ?case using utf8_width_lead by (cases i) (auto split: option.splits)
next
  case (3 k c s)
  show ?case
  proof (cases i)
    case 0
    with 3 show ?thesis by (intro exI [of _ "Suc k"]) simp
  next
    case (Suc j)
    with 3 show ?thesis by simp
  qed
qed auto

lemma utf8_lead: "utf8_from 0 s \<Longrightarrow> s \<noteq> [] \<Longrightarrow> \<not> is_continuation (hd s)"
  using utf8_width_lead by (cases s) (auto split: option.splits)

lemma utf8_run_bound:
  "utf8_from k s \<Longrightarrow> n \<le> length s \<Longrightarrow> \<forall>i < n. is_continuation (s ! i) \<Longrightarrow> n \<le> k"
proof (induction k s arbitrary: n rule: utf8_from.induct)
  case (2 c s)
  then show ?case using utf8_width_lead [of c] by (cases n) (auto split: option.splits)
next
  case (3 k c s)
  then show ?case by (cases n) fastforce+
qed simp

lemma floor_char_boundary_spec:
  fixes s n
  defines "r \<equiv> floor_char_boundary s n"
  shows "r \<le> n" and "r \<le> length s"
    and "r = 0 \<or> r = length s \<or> (r < length s \<and> \<not> is_continuation (s ! r))"
    and "length s \<le> n \<Longrightarrow> r = length s"
    and "n < length s \<Longrightarrow> \<forall>i. r < i \<and> i \<le> n \<longrightarrow> is_continuation (s ! i)"
  unfolding r_def by (induction n) (auto simp: le_Suc_eq)

lemma chunk_progress:
  assumes "utf8_from 0 s" and "s \<noteq> []"
  defines "r \<equiv> floor_char_boundary s (min (length s) 4096)"
  shows "0 < r" and "r \<le> 4096" and "r \<le> length s" and "utf8_from 0 (take r s)" and "utf8_from 0 (drop r s)"
proof -
  note spec = floor_char_boundary_spec [where s = s and n = "min (length s) 4096", folded r_def]
  show pos: "0 < r"
  proof (rule ccontr)
    assume "\<not> 0 < r"
    then have r: "r = 0" by simp
    with spec(4) assms(2) have long: "4096 < length s" by (cases "4096 < length s") auto
    with spec(5) r have cont: "\<forall>i. 0 < i \<and> i \<le> 4096 \<longrightarrow> is_continuation (s ! i)" by simp
    from utf8_run [OF assms(1), of 1] long obtain j where j: "j \<le> 3" "utf8_from j (drop 1 s)" by auto
    from utf8_run_bound [OF j(2), of 4] long cont have "4 \<le> j" by (auto simp: nth_drop)
    with j(1) show False by simp
  qed
  show "r \<le> 4096" "r \<le> length s" using spec(1,2) by simp_all
  show "utf8_from 0 (take r s)" "utf8_from 0 (drop r s)"
    using spec(3) pos assms(1) utf8_cut [of 0 s r] by auto
qed

lemma text_chunks_total:
  "utf8_from 0 s \<Longrightarrow> \<exists>cs. text_chunks s = Some cs
     \<and> (\<forall>c \<in> set cs. c \<noteq> [] \<and> length c \<le> 4096 \<and> utf8_from 0 c)"
proof (induction s rule: text_chunks.induct)
  case (1 s)
  show ?case
  proof (cases "s = []")
    case False
    let ?r = "floor_char_boundary s (min (length s) 4096)"
    note p = chunk_progress [OF 1(2) False]
    from 1(1) [OF False refl] p(1,5) obtain cs where "text_chunks (drop ?r s) = Some cs"
      "\<forall>c \<in> set cs. c \<noteq> [] \<and> length c \<le> 4096 \<and> utf8_from 0 c" by auto
    with p False show ?thesis by (subst text_chunks.simps) (auto simp: Let_def)
  qed (simp add: text_chunks.simps)
qed

text \<open>Nesting: the number of array or object levels around the deepest leaf.\<close>

fun nesting :: "json \<Rightarrow> nat" where
  "nesting (JArray vs) = Max (insert 0 (set (map (\<lambda>v. Suc (nesting v)) vs)))"
| "nesting (JObject m) = Max (insert 0 (set (map (\<lambda>e. Suc (nesting (snd e))) m)))"
| "nesting v = 0"

fun utf8_json :: "json \<Rightarrow> bool" where
  "utf8_json (JString s) = utf8 s"
| "utf8_json (JArray vs) = (\<forall>v \<in> set vs. utf8_json v)"
| "utf8_json (JObject m) = (\<forall>e \<in> set m. utf8_json (snd e))"
| "utf8_json v = True"

lemma Max_shift:
  fixes d n :: nat
  assumes "finite A"
  shows "d + Max (insert 0 A) \<le> n \<longleftrightarrow> d \<le> n \<and> (\<forall>a \<in> A. d + a \<le> n)"
proof -
  have "d + Max (insert 0 A) \<le> n \<longleftrightarrow> d \<le> n \<and> Max (insert 0 A) \<le> n - d" by auto
  also have "\<dots> \<longleftrightarrow> d \<le> n \<and> (\<forall>a \<in> A. a \<le> n - d)" using assms by simp
  also have "\<dots> \<longleftrightarrow> d \<le> n \<and> (\<forall>a \<in> A. d + a \<le> n)" by (auto simp: le_diff_conv2 add.commute)
  finally show ?thesis .
qed

lemma fits_nesting: "utf8_json v \<Longrightarrow> fits d v \<longleftrightarrow> d + nesting v \<le> 512"
proof (induction v arbitrary: d)
  case (JString s)
  then show ?case using text_chunks_total [of s] by (auto simp: utf8_def)
next
  case (JArray vs)
  have "fits (d + 1) v \<longleftrightarrow> d + 1 + nesting v \<le> 512" if "v \<in> set vs" for v
    using JArray that by auto
  then show ?case by (auto simp: Max_shift)
next
  case (JObject m)
  have "fits (d + 1) (snd e) \<longleftrightarrow> d + 1 + nesting (snd e) \<le> 512" if "e \<in> set m" for e
    using JObject.IH [of e "snd e"] JObject.prems that by (auto simp: snds.simps)
  then show ?case by (auto simp: Max_shift)
qed auto

lemma encode_error:
  "encode x v p d = Inl e \<Longrightarrow> utf8_json v \<Longrightarrow> e = ContentDepth"
  "encode_items x vs hp d = Inl e \<Longrightarrow> \<forall>v \<in> set vs. utf8_json v \<Longrightarrow> e = ContentDepth"
  "encode_entries x m ep d = Inl e \<Longrightarrow> \<forall>e \<in> set m. utf8_json (snd e) \<Longrightarrow> e = ContentDepth"
proof (induction x v p d and x vs hp d and x m ep d rule: encode_encode_items_encode_entries.induct)
  case (1 x v p d)
  then show ?case
    using text_chunks_total [of "the (as_str v)"]
    by (auto simp: encode.simps [of x v p d] utf8_def Let_def split: if_splits json.splits option.splits sum.splits prod.splits)
qed (auto split: sum.splits)

subsection \<open>Properties\<close>

text \<open>
  C17. The chunking loop of \<open>encode\<close> ends on every UTF-8 text: it cuts the text into nonempty
  chunks of at most 4096 bytes, each of them UTF-8 on its own, that concatenate to the text.
\<close>

theorem text_chunks_utf8:
  assumes "utf8 s"
  shows "\<exists>cs. text_chunks s = Some cs \<and> concat cs = s
    \<and> (\<forall>c \<in> set cs. c \<noteq> [] \<and> length c \<le> 4096 \<and> utf8 c)"
  using text_chunks_total [of s] text_chunks_concat [of s] assms by (auto simp: utf8_def)

theorem text_chunks_utf8_witness:
  "\<exists>cs. text_chunks (replicate 4095 CHR ''a'' @ [CHR 0xC3, CHR 0xA9]) = Some cs
     \<and> concat cs = replicate 4095 CHR ''a'' @ [CHR 0xC3, CHR 0xA9]
     \<and> (\<forall>c \<in> set cs. c \<noteq> [] \<and> length c \<le> 4096 \<and> utf8 c)"
proof (rule text_chunks_utf8)
  have "utf8_from 0 (replicate n CHR ''a'' @ s) = utf8_from 0 s" for n s
    by (induction n) (simp_all add: utf8_width_def less_eq_char_def)
  then show "utf8 (replicate 4095 CHR ''a'' @ [CHR 0xC3, CHR 0xA9])"
    by (simp add: utf8_def utf8_width_def is_continuation_def less_eq_char_def)
qed

text \<open>
  C18. The encoder accepts a value exactly when its nesting below the given depth stays within
  512 levels, and then produces the reference and the blobs of the specification: the blobs of
  the parts before the blob that refers to them, each stored once. The only error is the one
  about nesting.
\<close>

theorem encode_limits:
  assumes "utf8_json v"
  shows "encode x v pending d =
    (if d + nesting v \<le> 512 then Inr (ref_of x v, adds x (blobs_of x v) pending) else Inl ContentDepth)"
proof (cases "d + nesting v \<le> 512")
  case True
  then show ?thesis using encode_refines [of x v pending d] fits_nesting [OF assms] by (simp add: yields_def)
next
  case False
  then have "\<exists>e. encode x v pending d = Inl e"
    using encode_refines [of x v pending d] fits_nesting [OF assms] by (simp add: yields_def)
  then obtain e where "encode x v pending d = Inl e" by blast
  with encode_error(1) [OF this assms] False show ?thesis by simp
qed

theorem encode_limits_witness:
  "\<forall>x. encode x (JArray [JNull, JArray []]) [] 511 =
       Inr (ref_of x (JArray [JNull, JArray []]), adds x (blobs_of x (JArray [JNull, JArray []])) [])
     \<and> encode x (JArray [JNull, JArray []]) [] 512 = Inl ContentDepth"
  using encode_limits [of "JArray [JNull, JArray []]" _ "[]" 511]
    encode_limits [of "JArray [JNull, JArray []]" _ "[]" 512] by simp

end
