(* ===== verification/Zf_Content_Store.thy ===== *)
theory Zf_Content_Store
  imports Zf_Content_Text
begin

text \<open>
  What the content store promises its clients, \<open>zf-storage/src/content_store.rs\<close>: interning,
  records, claims, appends and the exchange of blobs between two databases.

  The promises hold for every universe of bodies on which the digest has no collision and the
  text format round-trips (\<open>codec_ok\<close>). Injectivity on all bodies cannot be asked for: there
  are infinitely many bodies and finitely many digests.
\<close>

subsection \<open>The invariant relative to a universe of bodies\<close>

definition store_in :: "codec \<Rightarrow> json set \<Rightarrow> content_store \<Rightarrow> bool" where
  "store_in x U st \<longleftrightarrow> codec_ok x U \<and> store_ok x st \<and> stored_bodies x (cs_db st) \<subseteq> U"

definition value_in :: "codec \<Rightarrow> json set \<Rightarrow> json \<Rightarrow> bool" where
  "value_in x U v \<longleftrightarrow> ordered_json v \<and> set (blobs_of x v) \<subseteq> U \<and> fits 0 v"

lemma store_in_safe: "store_in x U st \<Longrightarrow> value_in x U v \<Longrightarrow> safe x st v"
  unfolding store_in_def value_in_def safe_def by (blast intro: codec_ok_subset)

lemma empty_store_in: "codec_ok x U \<Longrightarrow> store_in x U empty_store"
  by (simp add: store_in_def store_ok_def db_ok_def empty_store_def stored_def stored_bodies_def)

lemma prepare_fits: "(\<exists>p. prepare x st v = Inr p) \<longleftrightarrow> fits 0 v"
  using encode_refines [of x v "[]" 0]
  by (auto simp: prepare_def yields_def split: sum.splits if_splits)

definition reads_kept :: "codec \<Rightarrow> content_store \<Rightarrow> content_store \<Rightarrow> bool" where
  "reads_kept x st st' \<longleftrightarrow>
     (\<forall>i w. resolve_content x (cs_db st) i = Inr w \<longrightarrow> resolve_content x (cs_db st') i = Inr w)"

lemma reads_kept_refl [simp]: "reads_kept x st st"
  by (simp add: reads_kept_def)

lemma reads_kept_trans: "reads_kept x a b \<Longrightarrow> reads_kept x b c \<Longrightarrow> reads_kept x a c"
  by (simp add: reads_kept_def)

lemma reads_keptD:
  "reads_kept x a b \<Longrightarrow> resolve_content x (cs_db a) i = Inr w \<Longrightarrow> resolve_content x (cs_db b) i = Inr w"
  by (simp add: reads_kept_def)

lemma commit_in:
  assumes st: "store_in x U st" and v: "value_in x U v"
    and f: "record_update (insert (ref_of x v) (dom (map_of (db_content (cs_db st))))) f"
  obtains prep st' db where "prepare x st v = Inr prep" "prep_reference prep = ref_of x v"
    "commit_content x st prep f = Inr st'" "store_in x U st'"
    "resolve_content x (cs_db st') (ref_of x v) = Inr v" "reads_kept x st st'"
    "cs_db st' = f db" "db_records db = db_records (cs_db st)"
    "value_stored x (cs_db st') v" "map_of (db_content (cs_db st)) \<subseteq>\<^sub>m map_of (db_content (cs_db st'))"
proof -
  from v have "fits 0 v" by (simp add: value_in_def)
  then obtain prep where prep: "prepare x st v = Inr prep" using prepare_fits [of x st v] by blast
  have ok: "store_ok x st" using st by (simp add: store_in_def)
  obtain st' db where
    st': "commit_content x st prep f = Inr st'" "store_ok x st'" "prep_reference prep = ref_of x v"
      "resolve_content x (cs_db st') (ref_of x v) = Inr v"
      "\<forall>j w. resolve_content x (cs_db st) j = Inr w \<longrightarrow> resolve_content x (cs_db st') j = Inr w"
      "stored_bodies x (cs_db st') \<subseteq> stored_bodies x (cs_db st) \<union> set (blobs_of x v)"
      "cs_db st' = f db" "db_records db = db_records (cs_db st)"
      "value_stored x (cs_db st') v" "map_of (db_content (cs_db st)) \<subseteq>\<^sub>m map_of (db_content (cs_db st'))"
    by (rule commit_value [OF ok store_in_safe [OF st v] prep f])
  have "store_in x U st'" using st v st'(2,6) by (auto simp: store_in_def value_in_def)
  moreover have "reads_kept x st st'" using st'(5) by (simp add: reads_kept_def)
  ultimately show thesis using that [OF prep st'(3,1)] st'(4,7-10) by blast
qed

lemma intern_in:
  assumes st: "store_in x U st" and v: "value_in x U v"
  obtains st' where "intern x st v = Inr (ref_of x v, st')" "store_in x U st'"
    "resolve_content x (cs_db st') (ref_of x v) = Inr v" "reads_kept x st st'"
    "db_records (cs_db st') = db_records (cs_db st)"
    "value_stored x (cs_db st') v" "map_of (db_content (cs_db st)) \<subseteq>\<^sub>m map_of (db_content (cs_db st'))"
proof -
  obtain prep st' db where c: "prepare x st v = Inr prep" "prep_reference prep = ref_of x v"
    "commit_content x st prep (\<lambda>db. db) = Inr st'" "store_in x U st'"
    "resolve_content x (cs_db st') (ref_of x v) = Inr v" "reads_kept x st st'"
    "cs_db st' = db" "db_records db = db_records (cs_db st)"
    "value_stored x (cs_db st') v" "map_of (db_content (cs_db st)) \<subseteq>\<^sub>m map_of (db_content (cs_db st'))"
    by (rule commit_in [OF st v record_updates(1)])
  show thesis
  proof (cases "prep_pending prep = []")
    case True
    have ok: "store_ok x st" and dbok: "db_ok x (cs_db st)" using st by (simp_all add: store_in_def store_ok_def)
    have stored: "value_stored x (cs_db st) v"
      using prepare_ok(4) [OF ok store_in_safe [OF st v] c(1)] True by (simp add: value_stored_def)
    moreover have "codec_ok x (set (blobs_of x v))" "fits 0 v" "ordered_json v"
      using st v by (auto simp: store_in_def value_in_def intro: codec_ok_subset)
    ultimately have "resolve_content x (cs_db st) (ref_of x v) = Inr v" using resolve_stored [OF dbok] by blast
    moreover have "intern x st v = Inr (ref_of x v, st)" using c(1,2) True by (simp add: intern_def)
    ultimately show thesis using that st stored by simp
  next
    case False
    then have "intern x st v = Inr (ref_of x v, st')" using c(1-3) by (simp add: intern_def)
    then show thesis using that c by simp
  qed
qed

subsection \<open>The interface of a store of values\<close>

text \<open>Storing a list of values one after the other.\<close>

fun put_all :: "('s \<Rightarrow> 'v \<Rightarrow> ('e, 'r \<times> 's) result) \<Rightarrow> 'v list \<Rightarrow> 's \<Rightarrow> ('e, 'r list \<times> 's) result" where
  "put_all put [] s = Inr ([], s)"
| "put_all put (v # vs) s =
     (case put s v of
        Inl e \<Rightarrow> Inl e
      | Inr (r, s') \<Rightarrow>
          (case put_all put vs s' of Inl e \<Rightarrow> Inl e | Inr (rs, s'') \<Rightarrow> Inr (r # rs, s'')))"

locale value_store =
  fixes ok :: "'s \<Rightarrow> bool" and fit :: "'v \<Rightarrow> bool" and name :: "'v \<Rightarrow> 'r"
    and put :: "'s \<Rightarrow> 'v \<Rightarrow> ('e, 'r \<times> 's) result" and get :: "'s \<Rightarrow> 'r \<Rightarrow> ('f, 'v) result"
  assumes put_ok: "ok s \<Longrightarrow> fit v \<Longrightarrow> \<exists>s'. put s v = Inr (name v, s') \<and> ok s'
        \<and> get s' (name v) = Inr v \<and> (\<forall>r w. get s r = Inr w \<longrightarrow> get s' r = Inr w)"
begin

lemma history:
  "ok s \<Longrightarrow> \<forall>v \<in> set vs. fit v \<Longrightarrow>
     \<exists>s'. put_all put vs s = Inr (map name vs, s') \<and> ok s'
       \<and> (\<forall>v \<in> set vs. get s' (name v) = Inr v)
       \<and> (\<forall>r w. get s r = Inr w \<longrightarrow> get s' r = Inr w)"
proof (induction vs arbitrary: s)
  case (Cons v vs)
  then obtain s1 where s1: "put s v = Inr (name v, s1)" "ok s1" "get s1 (name v) = Inr v"
    "\<forall>r w. get s r = Inr w \<longrightarrow> get s1 r = Inr w" using put_ok [of s v] by auto
  with Cons obtain s2 where "put_all put vs s1 = Inr (map name vs, s2)" "ok s2"
    "\<forall>v \<in> set vs. get s2 (name v) = Inr v" "\<forall>r w. get s1 r = Inr w \<longrightarrow> get s2 r = Inr w" by force
  with s1 show ?case by simp
qed simp

lemma names_apart:
  assumes "ok s" and "\<forall>v \<in> set vs. fit v" and "v \<in> set vs" and "w \<in> set vs"
  shows "name v = name w \<longleftrightarrow> v = w"
proof -
  from history [OF assms(1,2)] obtain s' where "\<forall>v \<in> set vs. get s' (name v) = Inr v" by blast
  with assms(3,4) have "get s' (name v) = Inr v" "get s' (name w) = Inr w" by blast+
  then show ?thesis by (metis sum.inject(2))
qed

end

interpretation content: value_store "store_in x U" "value_in x U" "ref_of x" "intern x"
  "\<lambda>st. resolve_content x (cs_db st)" for x :: codec and U :: "json set"
proof unfold_locales
  fix st v assume st: "store_in x U st" and v: "value_in x U v"
  obtain st' where "intern x st v = Inr (ref_of x v, st')" "store_in x U st'"
    "resolve_content x (cs_db st') (ref_of x v) = Inr v" "reads_kept x st st'"
    by (rule intern_in [OF st v])
  then show "\<exists>st'. intern x st v = Inr (ref_of x v, st') \<and> store_in x U st'
      \<and> resolve_content x (cs_db st') (ref_of x v) = Inr v
      \<and> (\<forall>r w. resolve_content x (cs_db st) r = Inr w \<longrightarrow> resolve_content x (cs_db st') r = Inr w)"
    unfolding reads_kept_def by blast
qed

subsection \<open>A codec for examples\<close>

text \<open>
  A digest and text format for a fixed table of at most 256 bodies, numbered by position. It
  shows that the hypotheses on the codec can hold and lets the theorems be run on examples.
\<close>

fun index_of :: "'a \<Rightarrow> 'a list \<Rightarrow> nat" where
  "index_of b [] = 0"
| "index_of b (c # cs) = (if b = c then 0 else Suc (index_of b cs))"

definition hex_char :: "nat \<Rightarrow> char" where
  "hex_char n = ''0123456789abcdef'' ! n"

definition table_hash :: "nat \<Rightarrow> string" where
  "table_hash n = replicate 62 CHR ''0'' @ [hex_char (n div 16), hex_char (n mod 16)]"

definition table_codec :: "json list \<Rightarrow> codec" where
  "table_codec bs = \<lparr>cd_hash = (\<lambda>b. table_hash (index_of b bs)),
     cd_print = (\<lambda>b. replicate (index_of b bs) CHR ''x''),
     cd_parse = (\<lambda>s. if length s < length bs then Some (bs ! length s) else None)\<rparr>"

lemma index_of_nth: "b \<in> set bs \<Longrightarrow> index_of b bs < length bs \<and> bs ! index_of b bs = b"
  by (induction bs) auto

lemma hex_char_inj: "m < 16 \<Longrightarrow> n < 16 \<Longrightarrow> hex_char m = hex_char n \<longleftrightarrow> m = n"
  unfolding hex_char_def by (rule nth_eq_iff_index_eq) (simp_all add: eval_nat_numeral)

lemma hex_char_digit: "n < 16 \<Longrightarrow> hex_digit (hex_char n)"
proof -
  assume "n < 16"
  then have "hex_char n \<in> set ''0123456789abcdef''" unfolding hex_char_def by (intro nth_mem) simp
  then show ?thesis by (auto simp: hex_digit_def less_eq_char_def)
qed

lemma table_hash_inj:
  assumes "m < 256" and "n < 256" and "table_hash m = table_hash n"
  shows "m = n"
proof -
  from assms have "hex_char (m div 16) = hex_char (n div 16)" "hex_char (m mod 16) = hex_char (n mod 16)"
    by (simp_all add: table_hash_def)
  then have "m div 16 = n div 16" "m mod 16 = n mod 16"
    using assms(1,2) hex_char_inj [of "m div 16" "n div 16"] hex_char_inj [of "m mod 16" "n mod 16"]
    by (simp_all add: less_mult_imp_div_less)
  then show ?thesis by (metis div_mult_mod_eq)
qed

lemma table_hash_valid: "n < 256 \<Longrightarrow> valid_reference (''sha256:'' @ table_hash n)"
  using hex_char_digit [of "n div 16"] hex_char_digit [of "n mod 16"] hex_char_digit [of 0]
  by (simp add: valid_reference_def table_hash_def less_mult_imp_div_less list_all_iff hex_char_def)

lemma table_codec_ok:
  assumes "length bs \<le> 256"
  shows "codec_ok (table_codec bs) (set bs)"
proof -
  have lt: "index_of b bs < 256" if "b \<in> set bs" for b using index_of_nth [OF that] assms by simp
  have "b = c" if "b \<in> set bs" "c \<in> set bs" "table_hash (index_of b bs) = table_hash (index_of c bs)" for b c
    using table_hash_inj [OF lt [OF that(1)] lt [OF that(2)] that(3)] index_of_nth [OF that(1)] index_of_nth [OF that(2)]
    by metis
  then have "inj_on (reference (table_codec bs)) (set bs)"
    by (auto simp: inj_on_def reference_def table_codec_def)
  moreover have "valid_reference (reference (table_codec bs) b)" if "b \<in> set bs" for b
    using table_hash_valid [OF lt [OF that]] by (simp add: reference_def table_codec_def)
  ultimately show ?thesis
    using index_of_nth [of _ bs] by (simp add: codec_ok_def table_codec_def)
qed

definition example_ref :: "nat \<Rightarrow> string" where
  "example_ref n = ''sha256:'' @ table_hash n"

definition example_bodies :: "json list" where
  "example_bodies = [array_body, scalar_body JNull, scalar_body (JBool True),
     sequence_body (example_ref 0) (example_ref 1), sequence_body (example_ref 3) (example_ref 2)]"

definition example_codec :: codec where
  "example_codec = table_codec example_bodies"

definition example_universe :: "json set" where
  "example_universe = set example_bodies"

lemma example_store_in: "store_in example_codec example_universe empty_store"
  unfolding example_codec_def example_universe_def
  by (intro empty_store_in table_codec_ok) (simp add: example_bodies_def)

definition value_in_table :: "json list \<Rightarrow> json \<Rightarrow> bool" where
  "value_in_table bs v \<longleftrightarrow>
     ordered_json v \<and> list_all (\<lambda>b. b \<in> set bs) (blobs_of (table_codec bs) v) \<and> fits 0 v"

lemma value_in_tableI: "value_in_table bs v \<Longrightarrow> value_in (table_codec bs) (set bs) v"
  by (auto simp: value_in_table_def value_in_def list_all_iff)

lemma example_values:
  "value_in example_codec example_universe JNull"
  "value_in example_codec example_universe (JBool True)"
  "value_in example_codec example_universe (JArray [JNull])"
  "value_in example_codec example_universe (JArray [JNull, JBool True])"
  unfolding example_codec_def example_universe_def by (rule value_in_tableI, code_simp)+

subsection \<open>Properties\<close>

text \<open>
  C19. Any sequence of values interned into a store can be read back at the end, each under the
  reference returned for it, equal references standing for equal values; whatever could be read
  before still reads the same, and the invariant of the tables is kept.
\<close>

theorem intern_history:
  assumes "store_in x U st" and "\<forall>v \<in> set vs. value_in x U v"
  shows "\<exists>rs st'. put_all (intern x) vs st = Inr (rs, st') \<and> store_in x U st'
    \<and> list_all2 (\<lambda>r v. resolve_content x (cs_db st') r = Inr v) rs vs
    \<and> (\<forall>i < length vs. \<forall>j < length vs. rs ! i = rs ! j \<longleftrightarrow> vs ! i = vs ! j)
    \<and> reads_kept x st st'"
proof -
  from content.history [OF assms] obtain st' where
    "put_all (intern x) vs st = Inr (map (ref_of x) vs, st')" "store_in x U st'"
    "\<forall>v \<in> set vs. resolve_content x (cs_db st') (ref_of x v) = Inr v" "reads_kept x st st'"
    unfolding reads_kept_def by blast
  moreover have "\<forall>i < length vs. \<forall>j < length vs. map (ref_of x) vs ! i = map (ref_of x) vs ! j \<longleftrightarrow> vs ! i = vs ! j"
    using content.names_apart [OF assms] by simp
  ultimately show ?thesis by (intro exI conjI) (auto simp: list_all2_conv_all_nth)
qed

theorem intern_history_witness:
  "\<exists>rs st'. put_all (intern example_codec) [JArray [JNull], JArray [JNull, JBool True]] empty_store = Inr (rs, st')
    \<and> store_in example_codec example_universe st'
    \<and> list_all2 (\<lambda>r v. resolve_content example_codec (cs_db st') r = Inr v) rs [JArray [JNull], JArray [JNull, JBool True]]
    \<and> (\<forall>i < length [JArray [JNull], JArray [JNull, JBool True]].
         \<forall>j < length [JArray [JNull], JArray [JNull, JBool True]].
           rs ! i = rs ! j \<longleftrightarrow> [JArray [JNull], JArray [JNull, JBool True]] ! i = [JArray [JNull], JArray [JNull, JBool True]] ! j)
    \<and> reads_kept example_codec empty_store st'"
  by (rule intern_history [OF example_store_in]) (simp add: example_values)

end
