(* ===== verification/Zf_Simulation.thy ===== *)
theory Zf_Simulation
  imports Zf_Prelude
begin

text \<open>
  Fallible operations on a state, and the interface between a component and its abstract
  specification: a locale for forward simulation, with the consequence for whole runs proved
  once.
\<close>

subsection \<open>Sequencing\<close>

text \<open>The question mark operator, and \<open>map_err\<close>.\<close>

definition and_then :: "('e, 'a) result \<Rightarrow> ('a \<Rightarrow> ('e, 'b) result) \<Rightarrow> ('e, 'b) result" where
  "and_then r f = (case r of Inl e \<Rightarrow> Inl e | Inr a \<Rightarrow> f a)"

definition map_err :: "('e \<Rightarrow> 'f) \<Rightarrow> ('e, 'a) result \<Rightarrow> ('f, 'a) result" where
  "map_err g r = (case r of Inl e \<Rightarrow> Inl (g e) | Inr a \<Rightarrow> Inr a)"

lemma and_then_simps [simp]:
  "and_then (Inr a) f = f a" "and_then (Inl e) f = Inl e"
  "map_err g (Inr a) = Inr a" "map_err g (Inl d) = Inl (g d)"
  by (simp_all add: and_then_def map_err_def)

lemma and_then_Inr: "and_then r f = Inr b \<longleftrightarrow> (\<exists>a. r = Inr a \<and> f a = Inr b)"
  by (cases r) simp_all

lemma map_err_Inr [simp]: "map_err g r = Inr a \<longleftrightarrow> r = Inr a"
  by (cases r) simp_all

lemma and_then_cong [fundef_cong]:
  "r = r' \<Longrightarrow> (\<And>a. r' = Inr a \<Longrightarrow> f a = g a) \<Longrightarrow> and_then r f = and_then r' g"
  by (cases r') (simp_all add: and_then_def)

subsection \<open>Runs\<close>

text \<open>A transaction that fails is rolled back: the state stays.\<close>

definition transact :: "('s \<Rightarrow> 'o \<Rightarrow> ('e, 'r \<times> 's) result) \<Rightarrow> 's \<Rightarrow> 'o \<Rightarrow> ('e, 'r) result \<times> 's" where
  "transact f s op = (case f s op of Inl e \<Rightarrow> (Inl e, s) | Inr (r, s') \<Rightarrow> (Inr r, s'))"

lemma transact_simps [simp]:
  "f s op = Inl e \<Longrightarrow> transact f s op = (Inl e, s)"
  "f s op = Inr (r, s') \<Longrightarrow> transact f s op = (Inr r, s')"
  by (simp_all add: transact_def)

fun trace :: "('s \<Rightarrow> 'o \<Rightarrow> 'r \<times> 's) \<Rightarrow> 's \<Rightarrow> 'o list \<Rightarrow> 'r list \<times> 's" where
  "trace step s [] = ([], s)"
| "trace step s (op # ops) =
     (let (r, s1) = step s op; (rs, s2) = trace step s1 ops in (r # rs, s2))"

text \<open>The condition holds of every operation of the run in the state it is applied to.\<close>

fun along :: "('s \<Rightarrow> 'o \<Rightarrow> bool) \<Rightarrow> ('s \<Rightarrow> 'o \<Rightarrow> 'r \<times> 's) \<Rightarrow> 's \<Rightarrow> 'o list \<Rightarrow> bool" where
  "along P step s [] = True"
| "along P step s (op # ops) = (P s op \<and> along P step (snd (step s op)) ops)"

lemma trace_Cons [simp]:
  "trace step s (op # ops) =
     (fst (step s op) # fst (trace step (snd (step s op)) ops), snd (trace step (snd (step s op)) ops))"
  by (simp add: case_prod_beta Let_def)

declare trace.simps(2) [simp del]

lemma trace_append:
  "snd (trace step s (ops @ ops')) = snd (trace step (snd (trace step s ops)) ops')"
  by (induction ops arbitrary: s) simp_all

lemma along_append:
  "along P step s (ops @ ops') \<longleftrightarrow> along P step s ops \<and> along P step (snd (trace step s ops)) ops'"
  by (induction ops arbitrary: s) simp_all

text \<open>An invariant of the steps is an invariant of the runs.\<close>

lemma trace_invariant:
  assumes "I s" and "\<And>s op. I s \<Longrightarrow> P s op \<Longrightarrow> I (snd (step s op))" and "along P step s ops"
  shows "I (snd (trace step s ops))"
  using assms(1,3) by (induction ops arbitrary: s) (auto intro: assms(2))

locale simulation =
  fixes R :: "'a \<Rightarrow> 's \<Rightarrow> bool" and adm :: "'a \<Rightarrow> 'o \<Rightarrow> bool"
    and spec :: "'a \<Rightarrow> 'o \<Rightarrow> 'r \<times> 'a" and impl :: "'s \<Rightarrow> 'o \<Rightarrow> 'r \<times> 's"
  assumes step: "R a s \<Longrightarrow> adm a op \<Longrightarrow>
      fst (impl s op) = fst (spec a op) \<and> R (snd (spec a op)) (snd (impl s op))"
begin

lemma refines:
  "R a s \<Longrightarrow> along adm spec a ops \<Longrightarrow>
     fst (trace impl s ops) = fst (trace spec a ops) \<and> R (snd (trace spec a ops)) (snd (trace impl s ops))"
proof (induction ops arbitrary: a s)
  case (Cons op ops)
  then have "fst (impl s op) = fst (spec a op)" "R (snd (spec a op)) (snd (impl s op))" using step by auto
  with Cons show ?case by simp
qed simp

end

end
