(* ===== verification/Zf_Registry.thy ===== *)
theory Zf_Registry
  imports Zf_Content_Store Zf_Simulation Zf_Types
begin

text \<open>
  The registry of persistent entities with immutable revisions and scoped aliases,
  \<open>DataRegistry\<close> of \<open>zf-storage/src/data.rs\<close>.

  The four SQLite tables are association lists under their primary keys; an \<open>INSERT\<close> that
  violates a primary key or the uniqueness of revisions is \<open>DatabaseError\<close>. Fresh UUIDs are
  arguments of the operations. The cache of resident values holds weak references: which of
  them are still alive, which slots are retained by a collection and the capacity of the hash
  table are the record \<open>resident_env\<close>, an argument of every operation that hydrates a snapshot.

  A transaction that fails leaves the tables as they were; hydration runs after the commit, so
  an operation returns its result and the state separately.
\<close>

subsection \<open>Data\<close>

record snapshot =
  snap_entity :: string
  snap_revision :: string
  snap_parent :: "string option"
  snap_content :: string
  snap_value :: json

datatype data_error =
    InvalidName string
  | NotFound
  | AliasExists
  | PermissionDenied
  | PublicationMismatch
  | Conflict string string
  | DatabaseError
  | ContentFailure content_error

record resident_env =
  re_alive :: "string \<Rightarrow> bool"
  re_held :: "string \<Rightarrow> bool"
  re_capacity :: nat

record resident_cache =
  rc_slots :: "(string \<times> json option) list"
  rc_insertions_until_collection :: nat

record publication =
  pub_scope_kind :: string
  pub_scope_id :: string
  pub_alias :: string
  pub_entity :: string
  pub_revision :: string
  pub_expected :: "string option"

record registry =
  rg_content :: content_store
  rg_entities :: "((string \<times> string) \<times> string) list"
  rg_revisions :: "((string \<times> string \<times> string) \<times> (string option \<times> string)) list"
  rg_aliases :: "((string \<times> string \<times> string \<times> string) \<times> (string \<times> permission)) list"
  rg_publications :: "((string \<times> string) \<times> publication) list"
  rg_resident :: resident_cache

definition empty_cache :: resident_cache where
  "empty_cache = \<lparr>rc_slots = [], rc_insertions_until_collection = 1024\<rparr>"

definition empty_registry :: "content_store \<Rightarrow> registry" where
  "empty_registry content =
     \<lparr>rg_content = content, rg_entities = [], rg_revisions = [], rg_aliases = [], rg_publications = [],
      rg_resident = empty_cache\<rparr>"

subsection \<open>Names and scopes\<close>

definition validate_name :: "string \<Rightarrow> string \<Rightarrow> (data_error, unit) result" where
  "validate_name v kind = (if blank v \<or> CHR 0x00 \<in> set v then Inl (InvalidName kind) else Inr ())"

fun scope_parts :: "scope \<Rightarrow> (data_error, string \<times> string) result" where
  "scope_parts (FlowScope i) = and_then (validate_name i ''flow scope'') (\<lambda>_. Inr (''flow'', i))"
| "scope_parts (BridgeScope i) = and_then (validate_name i ''bridge scope'') (\<lambda>_. Inr (''bridge'', i))"
| "scope_parts RuntimeScope = Inr (''runtime'', [])"

text \<open>\<open>DataRegistry::new\<close>: the checks before the tables are created.\<close>

definition new_registry :: "string \<Rightarrow> content_store \<Rightarrow> (data_error, registry) result" where
  "new_registry universe content =
     and_then (validate_name universe ''runtime universe'') (\<lambda>_. Inr (empty_registry content))"

subsection \<open>Resident values\<close>

text \<open>A collection when the budget of insertions is used up.\<close>

definition collect_slots :: "resident_env \<Rightarrow> resident_cache \<Rightarrow> resident_cache" where
  "collect_slots env cache =
     (if rc_insertions_until_collection cache = 0
      then \<lparr>rc_slots = filter (\<lambda>(r, _). re_held env r) (rc_slots cache),
            rc_insertions_until_collection = max (re_capacity env) 1024\<rparr>
      else cache)"

definition slot :: "resident_env \<Rightarrow> string \<Rightarrow> resident_cache \<Rightarrow> resident_cache" where
  "slot env content_ref cache =
     (if map_of (rc_slots cache) content_ref \<noteq> None then cache
      else (let cache = collect_slots env cache
            in cache\<lparr>rc_insertions_until_collection := rc_insertions_until_collection cache - 1,
                     rc_slots := (content_ref, None) # rc_slots cache\<rparr>))"

definition upgrade :: "resident_env \<Rightarrow> resident_cache \<Rightarrow> string \<Rightarrow> json option" where
  "upgrade env cache content_ref =
     (case map_of (rc_slots cache) content_ref of
        Some (Some v) \<Rightarrow> if re_alive env content_ref then Some v else None
      | _ \<Rightarrow> None)"

definition fill_slot :: "string \<Rightarrow> json \<Rightarrow> resident_cache \<Rightarrow> resident_cache" where
  "fill_slot content_ref v cache =
     cache\<lparr>rc_slots := map (\<lambda>(r, w). (r, if r = content_ref then Some v else w)) (rc_slots cache)\<rparr>"

definition hydrate :: "codec \<Rightarrow> resident_env \<Rightarrow> string \<Rightarrow> string \<Rightarrow> string option \<Rightarrow> string \<Rightarrow> registry \<Rightarrow>
    (data_error, snapshot) result \<times> registry" where
  "hydrate x env entity_id revision parent_revision content_ref st =
     (let cache = slot env content_ref (rg_resident st);
          snap = (\<lambda>v. \<lparr>snap_entity = entity_id, snap_revision = revision, snap_parent = parent_revision,
                       snap_content = content_ref, snap_value = v\<rparr>)
      in (case upgrade env cache content_ref of
            Some v \<Rightarrow> (Inr (snap v), st\<lparr>rg_resident := cache\<rparr>)
          | None \<Rightarrow>
              (case resolve_content x (cs_db (rg_content st)) content_ref of
                 Inl e \<Rightarrow> (Inl (ContentFailure e), st\<lparr>rg_resident := cache\<rparr>)
               | Inr v \<Rightarrow> (Inr (snap v), st\<lparr>rg_resident := fill_slot content_ref v cache\<rparr>))))"

subsection \<open>Queries\<close>

definition require_free_alias ::
  "string \<Rightarrow> registry \<Rightarrow> string \<Rightarrow> string \<Rightarrow> string \<Rightarrow> (data_error, unit) result" where
  "require_free_alias u st kind scope_id alias =
     (if map_of (rg_aliases st) (u, kind, scope_id, alias) \<noteq> None then Inl AliasExists else Inr ())"

text \<open>The alias joined with its entity, which must grant write permission.\<close>

definition writable_head ::
  "string \<Rightarrow> registry \<Rightarrow> string \<Rightarrow> string \<Rightarrow> string \<Rightarrow> (data_error, string \<times> string) result" where
  "writable_head u st kind scope_id alias =
     (case map_of (rg_aliases st) (u, kind, scope_id, alias) of
        None \<Rightarrow> Inl NotFound
      | Some (e, permission) \<Rightarrow>
          (case map_of (rg_entities st) (u, e) of
             None \<Rightarrow> Inl NotFound
           | Some head \<Rightarrow> if permission = Write then Inr (e, head) else Inl PermissionDenied))"

text \<open>The alias joined with its entity and the selected revision, by default the head.\<close>

definition select_revision ::
  "string \<Rightarrow> registry \<Rightarrow> string \<Rightarrow> string \<Rightarrow> string \<Rightarrow> string option \<Rightarrow>
   (data_error, string \<times> string \<times> string option \<times> string) result" where
  "select_revision u st kind scope_id alias revision =
     (case map_of (rg_aliases st) (u, kind, scope_id, alias) of
        None \<Rightarrow> Inl NotFound
      | Some (e, _) \<Rightarrow>
          (case map_of (rg_entities st) (u, e) of
             None \<Rightarrow> Inl NotFound
           | Some head \<Rightarrow>
               (let r = (case revision of None \<Rightarrow> head | Some r \<Rightarrow> r)
                in (case map_of (rg_revisions st) (u, e, r) of
                      None \<Rightarrow> Inl NotFound
                    | Some (parent, content_ref) \<Rightarrow> Inr (e, r, parent, content_ref)))))"

subsection \<open>Statements\<close>

definition insert_row :: "'k \<Rightarrow> 'v \<Rightarrow> ('k \<times> 'v) list \<Rightarrow> (data_error, ('k \<times> 'v) list) result" where
  "insert_row k v table = (if map_of table k \<noteq> None then Inl DatabaseError else Inr ((k, v) # table))"

definition insert_revision ::
  "string \<Rightarrow> string \<Rightarrow> string \<Rightarrow> string option \<Rightarrow> string \<Rightarrow>
   ((string \<times> string \<times> string) \<times> (string option \<times> string)) list \<Rightarrow>
   (data_error, ((string \<times> string \<times> string) \<times> (string option \<times> string)) list) result" where
  "insert_revision u e r parent content_ref table =
     (if list_ex (\<lambda>((u', _, r'), _). u' = u \<and> r' = r) table then Inl DatabaseError
      else insert_row (u, e, r) (parent, content_ref) table)"

text \<open>\<open>UPDATE ... SET head_revision\<close> and the number of rows it changes.\<close>

definition update_head ::
  "string \<Rightarrow> string \<Rightarrow> string \<Rightarrow> string \<Rightarrow> ((string \<times> string) \<times> string) list \<Rightarrow>
   nat \<times> ((string \<times> string) \<times> string) list" where
  "update_head u e expected nxt table =
     (let hit = (\<lambda>(k, head). k = (u, e) \<and> head = expected)
      in (length (filter hit table), map (\<lambda>row. if hit row then (fst row, nxt) else row) table))"

definition persist :: "codec \<Rightarrow> content_store \<Rightarrow> prepared_content \<Rightarrow> (data_error, content_store) result" where
  "persist x content prepared = map_err ContentFailure (commit_content x content prepared (\<lambda>db. db))"

subsection \<open>Operations\<close>

text \<open>The rows of the snapshot to hydrate once a transaction has committed.\<close>

type_synonym selected = "string \<times> string \<times> string option \<times> string"

definition finish :: "codec \<Rightarrow> resident_env \<Rightarrow> registry \<Rightarrow> (data_error, selected \<times> registry) result \<Rightarrow>
    (data_error, snapshot) result \<times> registry" where
  "finish x env st r =
     (case r of
        Inl e \<Rightarrow> (Inl e, st)
      | Inr ((entity_id, revision, parent, content_ref), st') \<Rightarrow>
          hydrate x env entity_id revision parent content_ref st')"

definition create_tx :: "codec \<Rightarrow> string \<Rightarrow> registry \<Rightarrow> scope \<Rightarrow> string \<Rightarrow> json \<Rightarrow> string \<Rightarrow> string \<Rightarrow>
    (data_error, selected \<times> registry) result" where
  "create_tx x u st scp alias v entity_id revision =
     and_then (scope_parts scp) (\<lambda>(kind, scope_id).
     and_then (validate_name alias ''alias'') (\<lambda>_.
     and_then (map_err ContentFailure (prepare x (rg_content st) v)) (\<lambda>prepared.
     and_then (require_free_alias u st kind scope_id alias) (\<lambda>_.
     and_then (persist x (rg_content st) prepared) (\<lambda>content.
     and_then (insert_row (u, entity_id) revision (rg_entities st)) (\<lambda>entities.
     and_then (insert_revision u entity_id revision None (prep_reference prepared) (rg_revisions st)) (\<lambda>revisions.
     and_then (insert_row (u, kind, scope_id, alias) (entity_id, Write) (rg_aliases st)) (\<lambda>aliases.
       Inr ((entity_id, revision, None, prep_reference prepared),
            st\<lparr>rg_content := content, rg_entities := entities, rg_revisions := revisions,
               rg_aliases := aliases\<rparr>)))))))))"

definition create :: "codec \<Rightarrow> string \<Rightarrow> resident_env \<Rightarrow> registry \<Rightarrow> scope \<Rightarrow> string \<Rightarrow> json \<Rightarrow> string \<Rightarrow> string \<Rightarrow>
    (data_error, snapshot) result \<times> registry" where
  "create x u env st scp alias v entity_id revision =
     finish x env st (create_tx x u st scp alias v entity_id revision)"

definition grant :: "string \<Rightarrow> registry \<Rightarrow> scope \<Rightarrow> string \<Rightarrow> scope \<Rightarrow> string \<Rightarrow> permission \<Rightarrow>
    (data_error, registry) result" where
  "grant u st source_scope source_alias target_scope target_alias permission =
     and_then (scope_parts source_scope) (\<lambda>(source_kind, source_id).
     and_then (scope_parts target_scope) (\<lambda>(target_kind, target_id).
     and_then (validate_name source_alias ''alias'') (\<lambda>_.
     and_then (validate_name target_alias ''alias'') (\<lambda>_.
     and_then (writable_head u st source_kind source_id source_alias) (\<lambda>(e, _).
     and_then (require_free_alias u st target_kind target_id target_alias) (\<lambda>_.
     and_then (insert_row (u, target_kind, target_id, target_alias) (e, permission) (rg_aliases st)) (\<lambda>aliases.
       Inr (st\<lparr>rg_aliases := aliases\<rparr>))))))))"

definition read_registry :: "codec \<Rightarrow> string \<Rightarrow> resident_env \<Rightarrow> registry \<Rightarrow> scope \<Rightarrow> string \<Rightarrow> string option \<Rightarrow>
    (data_error, snapshot) result \<times> registry" where
  "read_registry x u env st scp alias revision =
     finish x env st
      (and_then (scope_parts scp) (\<lambda>(kind, scope_id).
       and_then (validate_name alias ''alias'') (\<lambda>_.
       and_then (select_revision u st kind scope_id alias revision) (\<lambda>row. Inr (row, st)))))"

definition publish_tx :: "codec \<Rightarrow> string \<Rightarrow> registry \<Rightarrow> scope \<Rightarrow> string \<Rightarrow> string \<Rightarrow> json \<Rightarrow> string \<Rightarrow>
    (data_error, selected \<times> registry) result" where
  "publish_tx x u st scp alias expected v nxt =
     and_then (scope_parts scp) (\<lambda>(kind, scope_id).
     and_then (validate_name alias ''alias'') (\<lambda>_.
     and_then (map_err ContentFailure (prepare x (rg_content st) v)) (\<lambda>prepared.
     and_then (writable_head u st kind scope_id alias) (\<lambda>(e, actual).
       if actual \<noteq> expected then Inl (Conflict expected actual)
       else
         and_then (persist x (rg_content st) prepared) (\<lambda>content.
         and_then (insert_revision u e nxt (Some expected) (prep_reference prepared) (rg_revisions st)) (\<lambda>revisions.
           (case update_head u e expected nxt (rg_entities st) of (changed, entities) \<Rightarrow>
              if changed \<noteq> 1 then Inl (Conflict expected actual)
              else Inr ((e, nxt, Some expected, prep_reference prepared),
                     st\<lparr>rg_content := content, rg_entities := entities, rg_revisions := revisions\<rparr>))))))))"

definition publish :: "codec \<Rightarrow> string \<Rightarrow> resident_env \<Rightarrow> registry \<Rightarrow> scope \<Rightarrow> string \<Rightarrow> string \<Rightarrow> json \<Rightarrow> string \<Rightarrow>
    (data_error, snapshot) result \<times> registry" where
  "publish x u env st scp alias expected v nxt = finish x env st (publish_tx x u st scp alias expected v nxt)"

text \<open>The remembered publication joined with its revision.\<close>

definition prior_publication :: "string \<Rightarrow> registry \<Rightarrow> string \<Rightarrow> (publication \<times> string) option" where
  "prior_publication u st publication_id =
     (case map_of (rg_publications st) (u, publication_id) of
        None \<Rightarrow> None
      | Some p \<Rightarrow>
          (case map_of (rg_revisions st) (u, pub_entity p, pub_revision p) of
             None \<Rightarrow> None
           | Some (_, content_ref) \<Rightarrow> Some (p, content_ref)))"

definition replay_publication :: "string \<Rightarrow> registry \<Rightarrow> string \<Rightarrow> string \<Rightarrow> string \<Rightarrow> string option \<Rightarrow> string \<Rightarrow>
    publication \<times> string \<Rightarrow> (data_error, selected \<times> registry) result" where
  "replay_publication u st kind scope_id alias expected content_ref prior =
     (case prior of (p, prior_ref) \<Rightarrow>
        if pub_scope_kind p \<noteq> kind \<or> pub_scope_id p \<noteq> scope_id \<or> pub_alias p \<noteq> alias
           \<or> pub_expected p \<noteq> expected \<or> prior_ref \<noteq> content_ref
        then Inl PublicationMismatch
        else and_then (writable_head u st kind scope_id alias) (\<lambda>(current, _).
               if current \<noteq> pub_entity p then Inl PublicationMismatch
               else Inr ((pub_entity p, pub_revision p, expected, content_ref), st)))"

definition publication_entity :: "string \<Rightarrow> registry \<Rightarrow> string \<Rightarrow> string \<Rightarrow> string \<Rightarrow> string option \<Rightarrow> string \<Rightarrow>
    (data_error, string) result" where
  "publication_entity u st kind scope_id alias expected entity_id =
     (case expected of
        Some h \<Rightarrow>
          and_then (writable_head u st kind scope_id alias) (\<lambda>(e, actual).
            if actual \<noteq> h then Inl (Conflict h actual) else Inr e)
      | None \<Rightarrow>
          and_then (require_free_alias u st kind scope_id alias) (\<lambda>_. Inr entity_id))"

definition publish_unique_tx :: "codec \<Rightarrow> string \<Rightarrow> registry \<Rightarrow> scope \<Rightarrow> string \<Rightarrow> string option \<Rightarrow> json \<Rightarrow> string \<Rightarrow>
    string \<Rightarrow> string \<Rightarrow> (data_error, selected \<times> registry) result" where
  "publish_unique_tx x u st scp alias expected v publication_id entity_id nxt =
     and_then (scope_parts scp) (\<lambda>(kind, scope_id).
     and_then (validate_name alias ''alias'') (\<lambda>_.
     and_then (validate_name publication_id ''publication identity'') (\<lambda>_.
     and_then (map_err ContentFailure (prepare x (rg_content st) v)) (\<lambda>prepared.
       (case prior_publication u st publication_id of
          Some prior \<Rightarrow> replay_publication u st kind scope_id alias expected (prep_reference prepared) prior
        | None \<Rightarrow>
            and_then (publication_entity u st kind scope_id alias expected entity_id) (\<lambda>e.
            and_then (persist x (rg_content st) prepared) (\<lambda>content.
            and_then (case expected of
                        Some _ \<Rightarrow> Inr (rg_entities st, rg_aliases st)
                      | None \<Rightarrow>
                          and_then (insert_row (u, e) nxt (rg_entities st)) (\<lambda>entities.
                          and_then (insert_row (u, kind, scope_id, alias) (e, Write) (rg_aliases st)) (\<lambda>aliases.
                            Inr (entities, aliases)))) (\<lambda>(entities, aliases).
            and_then (insert_revision u e nxt expected (prep_reference prepared) (rg_revisions st)) (\<lambda>revisions.
            and_then (case expected of
                        None \<Rightarrow> Inr entities
                      | Some h \<Rightarrow>
                          (case update_head u e h nxt entities of (changed, entities') \<Rightarrow>
                             if changed \<noteq> 1 then Inl PublicationMismatch else Inr entities')) (\<lambda>entities.
            and_then (insert_row (u, publication_id)
                        \<lparr>pub_scope_kind = kind, pub_scope_id = scope_id, pub_alias = alias, pub_entity = e,
                         pub_revision = nxt, pub_expected = expected\<rparr> (rg_publications st)) (\<lambda>publications.
              Inr ((e, nxt, expected, prep_reference prepared),
                   st\<lparr>rg_content := content, rg_entities := entities, rg_revisions := revisions,
                      rg_aliases := aliases, rg_publications := publications\<rparr>))))))))))))"

definition publish_unique :: "codec \<Rightarrow> string \<Rightarrow> resident_env \<Rightarrow> registry \<Rightarrow> scope \<Rightarrow> string \<Rightarrow> string option \<Rightarrow> json \<Rightarrow>
    string \<Rightarrow> string \<Rightarrow> string \<Rightarrow> (data_error, snapshot) result \<times> registry" where
  "publish_unique x u env st scp alias expected v publication_id entity_id nxt =
     finish x env st (publish_unique_tx x u st scp alias expected v publication_id entity_id nxt)"

end
