(* ===== verification/Zf_Registry_Spec.thy ===== *)
theory Zf_Registry_Spec
  imports Zf_Registry
begin

text \<open>
  The specification of the data registry and its refinement: a registry is a versioned map,
  without content references, tables or cache. Every operation of \<open>Zf_Registry\<close> returns what
  the specification returns and keeps the tables in step with it.
\<close>

subsection \<open>The versioned map\<close>

record versions =
  v_alias :: "string \<times> string \<times> string \<times> string \<rightharpoonup> string \<times> permission"
  v_head :: "string \<times> string \<rightharpoonup> string"
  v_rev :: "string \<times> string \<times> string \<rightharpoonup> string option \<times> json"
  v_pub :: "string \<times> string \<rightharpoonup> publication"

definition no_versions :: versions where
  "no_versions = \<lparr>v_alias = Map.empty, v_head = Map.empty, v_rev = Map.empty, v_pub = Map.empty\<rparr>"

definition snap_of :: "codec \<Rightarrow> string \<Rightarrow> string \<Rightarrow> string option \<Rightarrow> json \<Rightarrow> snapshot" where
  "snap_of x e r p v = \<lparr>snap_entity = e, snap_revision = r, snap_parent = p, snap_content = ref_of x v, snap_value = v\<rparr>"

text \<open>An alias in a scope, with both names validated.\<close>

definition named :: "string \<Rightarrow> scope \<Rightarrow> string \<Rightarrow> (data_error, string \<times> string \<times> string \<times> string) result" where
  "named u scp alias =
     and_then (scope_parts scp) (\<lambda>(kind, scope_id).
     and_then (validate_name alias ''alias'') (\<lambda>_. Inr (u, kind, scope_id, alias)))"

definition spec_free :: "versions \<Rightarrow> string \<times> string \<times> string \<times> string \<Rightarrow> (data_error, unit) result" where
  "spec_free a k = (if v_alias a k \<noteq> None then Inl AliasExists else Inr ())"

definition spec_writable :: "versions \<Rightarrow> string \<times> string \<times> string \<times> string \<Rightarrow> (data_error, string \<times> string) result" where
  "spec_writable a k =
     (case v_alias a k of
        None \<Rightarrow> Inl NotFound
      | Some (e, p) \<Rightarrow>
          (case v_head a (fst k, e) of
             None \<Rightarrow> Inl NotFound
           | Some h \<Rightarrow> if p = Write then Inr (e, h) else Inl PermissionDenied))"

definition spec_read :: "codec \<Rightarrow> versions \<Rightarrow> string \<Rightarrow> scope \<Rightarrow> string \<Rightarrow> string option \<Rightarrow> (data_error, snapshot) result" where
  "spec_read x a u scp alias sel =
     and_then (named u scp alias) (\<lambda>k.
       (case v_alias a k of
          None \<Rightarrow> Inl NotFound
        | Some (e, _) \<Rightarrow>
            (case v_head a (u, e) of
               None \<Rightarrow> Inl NotFound
             | Some h \<Rightarrow>
                 (let r = (case sel of None \<Rightarrow> h | Some r \<Rightarrow> r)
                  in (case v_rev a (u, e, r) of None \<Rightarrow> Inl NotFound | Some (p, v) \<Rightarrow> Inr (snap_of x e r p v))))))"

text \<open>A new entity with its first revision, and a new revision on top of the head.\<close>

definition add_entity :: "string \<times> string \<times> string \<times> string \<Rightarrow> string \<Rightarrow> string \<Rightarrow> json \<Rightarrow> versions \<Rightarrow> versions" where
  "add_entity k e r v a =
     a\<lparr>v_alias := (v_alias a)(k \<mapsto> (e, Write)), v_head := (v_head a)((fst k, e) \<mapsto> r),
       v_rev := (v_rev a)((fst k, e, r) \<mapsto> (None, v))\<rparr>"

definition add_version :: "string \<Rightarrow> string \<Rightarrow> string \<Rightarrow> string \<Rightarrow> json \<Rightarrow> versions \<Rightarrow> versions" where
  "add_version u e h r v a =
     a\<lparr>v_head := (v_head a)((u, e) \<mapsto> r), v_rev := (v_rev a)((u, e, r) \<mapsto> (Some h, v))\<rparr>"

definition spec_create :: "codec \<Rightarrow> versions \<Rightarrow> string \<Rightarrow> scope \<Rightarrow> string \<Rightarrow> json \<Rightarrow> string \<Rightarrow> string \<Rightarrow>
    (data_error, snapshot \<times> versions) result" where
  "spec_create x a u scp alias v e r =
     and_then (named u scp alias) (\<lambda>k.
     and_then (spec_free a k) (\<lambda>_. Inr (snap_of x e r None v, add_entity k e r v a)))"

definition spec_grant :: "versions \<Rightarrow> string \<Rightarrow> scope \<Rightarrow> string \<Rightarrow> scope \<Rightarrow> string \<Rightarrow> permission \<Rightarrow> (data_error, versions) result" where
  "spec_grant a u source_scope source_alias target_scope target_alias permission =
     and_then (scope_parts source_scope) (\<lambda>(source_kind, source_id).
     and_then (scope_parts target_scope) (\<lambda>(target_kind, target_id).
     and_then (validate_name source_alias ''alias'') (\<lambda>_.
     and_then (validate_name target_alias ''alias'') (\<lambda>_.
     and_then (spec_writable a (u, source_kind, source_id, source_alias)) (\<lambda>(e, _).
     and_then (spec_free a (u, target_kind, target_id, target_alias)) (\<lambda>_.
       Inr (a\<lparr>v_alias := (v_alias a)((u, target_kind, target_id, target_alias) \<mapsto> (e, permission))\<rparr>)))))))"

definition spec_publish :: "codec \<Rightarrow> versions \<Rightarrow> string \<Rightarrow> scope \<Rightarrow> string \<Rightarrow> string \<Rightarrow> json \<Rightarrow> string \<Rightarrow>
    (data_error, snapshot \<times> versions) result" where
  "spec_publish x a u scp alias expected v r =
     and_then (named u scp alias) (\<lambda>k.
     and_then (spec_writable a k) (\<lambda>(e, actual).
       if actual \<noteq> expected then Inl (Conflict expected actual)
       else Inr (snap_of x e r (Some expected) v, add_version u e expected r v a)))"

definition remember :: "string \<Rightarrow> string \<times> string \<times> string \<times> string \<Rightarrow> string \<Rightarrow> string \<Rightarrow> string option \<Rightarrow> versions \<Rightarrow> versions" where
  "remember pid k e r expected a =
     (case k of (u, kind, scope_id, alias) \<Rightarrow>
        a\<lparr>v_pub := (v_pub a)((u, pid) \<mapsto>
            \<lparr>pub_scope_kind = kind, pub_scope_id = scope_id, pub_alias = alias, pub_entity = e,
             pub_revision = r, pub_expected = expected\<rparr>)\<rparr>)"

text \<open>A retry: the same arguments as the remembered publication, through an alias of its entity.\<close>

definition spec_replay :: "codec \<Rightarrow> versions \<Rightarrow> string \<times> string \<times> string \<times> string \<Rightarrow> string option \<Rightarrow> json \<Rightarrow> publication \<Rightarrow>
    (data_error, snapshot \<times> versions) result" where
  "spec_replay x a k expected v p =
     (if snd k \<noteq> (pub_scope_kind p, pub_scope_id p, pub_alias p) \<or> pub_expected p \<noteq> expected
         \<or> map_option snd (v_rev a (fst k, pub_entity p, pub_revision p)) \<noteq> Some v
      then Inl PublicationMismatch
      else and_then (spec_writable a k) (\<lambda>(e, _).
             if e \<noteq> pub_entity p then Inl PublicationMismatch
             else Inr (snap_of x e (pub_revision p) expected v, a)))"

definition spec_publish_unique :: "codec \<Rightarrow> versions \<Rightarrow> string \<Rightarrow> scope \<Rightarrow> string \<Rightarrow> string option \<Rightarrow> json \<Rightarrow> string \<Rightarrow> string \<Rightarrow> string \<Rightarrow>
    (data_error, snapshot \<times> versions) result" where
  "spec_publish_unique x a u scp alias expected v pid e r =
     and_then (named u scp alias) (\<lambda>k.
     and_then (validate_name pid ''publication identity'') (\<lambda>_.
       (case v_pub a (u, pid) of
          Some p \<Rightarrow> spec_replay x a k expected v p
        | None \<Rightarrow>
            (case expected of
               None \<Rightarrow>
                 and_then (spec_free a k) (\<lambda>_.
                   Inr (snap_of x e r None v, remember pid k e r None (add_entity k e r v a)))
             | Some h \<Rightarrow>
                 and_then (spec_writable a k) (\<lambda>(e, actual).
                   if actual \<noteq> h then Inl (Conflict h actual)
                   else Inr (snap_of x e r (Some h) v, remember pid k e r (Some h) (add_version u e h r v a)))))))"

subsection \<open>Well-formed versions\<close>

text \<open>
  Aliases name entities, entities have a head, heads and parents are revisions of the same
  entity, a revision belongs to one entity; the history of an entity is linear: no two
  revisions have the same parent and the head is the parent of none. Remembered publications
  name revisions with the parent they expected.
\<close>

definition alias_entities :: "versions \<Rightarrow> bool" where
  "alias_entities a \<longleftrightarrow> (\<forall>u s e p. v_alias a (u, s) = Some (e, p) \<longrightarrow> v_head a (u, e) \<noteq> None)"

definition head_revisions :: "versions \<Rightarrow> bool" where
  "head_revisions a \<longleftrightarrow> (\<forall>u e h. v_head a (u, e) = Some h \<longrightarrow> v_rev a (u, e, h) \<noteq> None)"

definition revision_entities :: "versions \<Rightarrow> bool" where
  "revision_entities a \<longleftrightarrow> (\<forall>u e r. v_rev a (u, e, r) \<noteq> None \<longrightarrow> v_head a (u, e) \<noteq> None)"

definition revisions_apart :: "versions \<Rightarrow> bool" where
  "revisions_apart a \<longleftrightarrow> (\<forall>u e e' r. v_rev a (u, e, r) \<noteq> None \<longrightarrow> v_rev a (u, e', r) \<noteq> None \<longrightarrow> e = e')"

definition linear_history :: "versions \<Rightarrow> bool" where
  "linear_history a \<longleftrightarrow>
     (\<forall>u e r p v. v_rev a (u, e, r) = Some (Some p, v) \<longrightarrow>
        v_rev a (u, e, p) \<noteq> None \<and> v_head a (u, e) \<noteq> Some p
        \<and> (\<forall>r' v'. v_rev a (u, e, r') = Some (Some p, v') \<longrightarrow> r' = r))"

definition publications_kept :: "versions \<Rightarrow> bool" where
  "publications_kept a \<longleftrightarrow>
     (\<forall>u pid p. v_pub a (u, pid) = Some p \<longrightarrow>
        (\<exists>v. v_rev a (u, pub_entity p, pub_revision p) = Some (pub_expected p, v)))"

definition versions_ok :: "versions \<Rightarrow> bool" where
  "versions_ok a \<longleftrightarrow> alias_entities a \<and> head_revisions a \<and> revision_entities a \<and> revisions_apart a
     \<and> linear_history a \<and> publications_kept a"

definition fresh_entity :: "versions \<Rightarrow> string \<Rightarrow> string \<Rightarrow> bool" where
  "fresh_entity a u e \<longleftrightarrow> v_head a (u, e) = None"

definition fresh_revision :: "versions \<Rightarrow> string \<Rightarrow> string \<Rightarrow> bool" where
  "fresh_revision a u r \<longleftrightarrow> (\<forall>e. v_rev a (u, e, r) = None)"

lemmas versions_ok_defs = versions_ok_def alias_entities_def head_revisions_def revision_entities_def
  revisions_apart_def linear_history_def publications_kept_def

lemma no_versions_ok: "versions_ok no_versions"
  by (simp add: versions_ok_defs no_versions_def)

lemma versions_ok_alias: "versions_ok a \<Longrightarrow> v_alias a (u, s) = Some (e, p) \<Longrightarrow> v_head a (u, e) \<noteq> None"
  unfolding versions_ok_def alias_entities_def by blast

lemma versions_ok_head: "versions_ok a \<Longrightarrow> v_head a (u, e) = Some h \<Longrightarrow> v_rev a (u, e, h) \<noteq> None"
  unfolding versions_ok_def head_revisions_def by blast

lemma versions_ok_entity: "versions_ok a \<Longrightarrow> v_rev a (u, e, r) \<noteq> None \<Longrightarrow> v_head a (u, e) \<noteq> None"
  unfolding versions_ok_def revision_entities_def by blast

lemma versions_ok_leaf: "versions_ok a \<Longrightarrow> v_rev a (u, e, r) = Some (Some p, v) \<Longrightarrow> v_head a (u, e) \<noteq> Some p"
  unfolding versions_ok_def linear_history_def by blast

lemma versions_ok_pub: "versions_ok a \<Longrightarrow> v_pub a (u, pid) = Some p \<Longrightarrow>
    \<exists>v. v_rev a (u, pub_entity p, pub_revision p) = Some (pub_expected p, v)"
  unfolding versions_ok_def publications_kept_def by blast

text \<open>Revisions are never changed.\<close>

lemma add_entity_revs: "fresh_revision a (fst k) r \<Longrightarrow> v_rev a \<subseteq>\<^sub>m v_rev (add_entity k e r v a)"
  by (auto simp: map_le_def add_entity_def fresh_revision_def)

lemma add_version_revs: "fresh_revision a u r \<Longrightarrow> v_rev a \<subseteq>\<^sub>m v_rev (add_version u e h r v a)"
  by (auto simp: map_le_def add_version_def fresh_revision_def)

lemma publications_kept_mono:
  assumes "publications_kept a" and "v_pub a' = v_pub a" and "v_rev a \<subseteq>\<^sub>m v_rev a'"
  shows "publications_kept a'"
proof -
  have "v_rev a' k = Some q" if "v_rev a k = Some q" for k q using that assms(3) by (metis domI map_le_def)
  then show ?thesis using assms(1,2) unfolding publications_kept_def by metis
qed

lemma add_entity_ok:
  assumes a: "versions_ok a" and e: "fresh_entity a (fst k) e" and r: "fresh_revision a (fst k) r"
  shows "versions_ok (add_entity k e r v a)"
proof -
  have norev: "v_rev a (fst k, e, q) = None" for q
    using e versions_ok_entity [OF a, of "fst k" e q] unfolding fresh_entity_def by blast
  have "alias_entities (add_entity k e r v a)" "head_revisions (add_entity k e r v a)"
    using a unfolding versions_ok_def alias_entities_def head_revisions_def add_entity_def by auto
  moreover have "revision_entities (add_entity k e r v a)"
    using a unfolding versions_ok_def revision_entities_def add_entity_def by (auto, blast+)
  moreover have "revisions_apart (add_entity k e r v a)"
    using a r unfolding versions_ok_def revisions_apart_def add_entity_def fresh_revision_def by auto
  moreover have "linear_history (add_entity k e r v a)"
    using a r norev unfolding versions_ok_def linear_history_def add_entity_def fresh_revision_def by auto
  moreover have "publications_kept (add_entity k e r v a)"
    using a by (intro publications_kept_mono [OF _ _ add_entity_revs [OF r]]) (simp_all add: versions_ok_def add_entity_def)
  ultimately show ?thesis by (simp add: versions_ok_def)
qed

lemma add_version_ok:
  assumes a: "versions_ok a" and h: "v_head a (u, e) = Some h" and r: "fresh_revision a u r"
  shows "versions_ok (add_version u e h r v a)"
proof -
  have hr: "v_rev a (u, e, h) \<noteq> None" by (rule versions_ok_head [OF a h])
  have nochild: "v_rev a (u, e, q) \<noteq> Some (Some h, w)" for q w using versions_ok_leaf [OF a, of u e q h w] h by blast
  have noparent: "v_rev a (u, e, q) \<noteq> Some (Some r, w)" for q w
    using a r unfolding versions_ok_def linear_history_def fresh_revision_def by blast
  have "alias_entities (add_version u e h r v a)" "head_revisions (add_version u e h r v a)"
    using a unfolding versions_ok_def alias_entities_def head_revisions_def add_version_def by auto
  moreover have "revision_entities (add_version u e h r v a)"
    using a unfolding versions_ok_def revision_entities_def add_version_def by (auto, blast+)
  moreover have "revisions_apart (add_version u e h r v a)"
    using a r unfolding versions_ok_def revisions_apart_def add_version_def fresh_revision_def by auto
  moreover have "linear_history (add_version u e h r v a)"
    using a r hr nochild noparent unfolding versions_ok_def linear_history_def add_version_def fresh_revision_def
    by auto
  moreover have "publications_kept (add_version u e h r v a)"
    using a by (intro publications_kept_mono [OF _ _ add_version_revs [OF r]]) (simp_all add: versions_ok_def add_version_def)
  ultimately show ?thesis by (simp add: versions_ok_def)
qed

subsection \<open>Successful operations\<close>

lemma named_Inr:
  "named u scp alias = Inr k \<longleftrightarrow>
     (\<exists>kind i. scope_parts scp = Inr (kind, i) \<and> validate_name alias ''alias'' = Inr () \<and> k = (u, kind, i, alias))"
  by (auto simp: named_def and_then_Inr)

lemma spec_free_Inr [simp]: "spec_free a k = Inr z \<longleftrightarrow> v_alias a k = None"
  by (cases "v_alias a k") (simp_all add: spec_free_def)

lemma spec_writable_Inr:
  "spec_writable a k = Inr (e, h) \<longleftrightarrow> v_alias a k = Some (e, Write) \<and> v_head a (fst k, e) = Some h"
  by (auto simp: spec_writable_def split: option.splits)

lemma spec_read_cases:
  assumes "spec_read x a u scp alias sel = Inr s"
  obtains k e perm h p v where "named u scp alias = Inr k" "v_alias a k = Some (e, perm)" "v_head a (u, e) = Some h"
    "v_rev a (u, e, case sel of None \<Rightarrow> h | Some r \<Rightarrow> r) = Some (p, v)"
    "s = snap_of x e (case sel of None \<Rightarrow> h | Some r \<Rightarrow> r) p v"
proof -
  from assms obtain k where k: "named u scp alias = Inr k" by (auto simp: spec_read_def and_then_Inr)
  with assms obtain e perm where e: "v_alias a k = Some (e, perm)"
    by (auto simp: spec_read_def split: option.split_asm)
  with assms k obtain h where h: "v_head a (u, e) = Some h"
    by (auto simp: spec_read_def split: option.split_asm)
  let ?r = "case sel of None \<Rightarrow> h | Some r \<Rightarrow> r"
  obtain p v where v: "v_rev a (u, e, ?r) = Some (p, v)"
    using assms k e h by (cases "v_rev a (u, e, ?r)") (auto simp: spec_read_def Let_def)
  with assms k e h have "s = snap_of x e ?r p v" by (simp add: spec_read_def Let_def)
  with k e h v show thesis by (rule that)
qed

lemma spec_create_cases:
  assumes "spec_create x a u scp alias v e r = Inr (s, a')"
  obtains k where "named u scp alias = Inr k" "v_alias a k = None" "s = snap_of x e r None v" "a' = add_entity k e r v a"
  using assms by (auto simp: spec_create_def and_then_Inr)

lemma spec_grant_cases:
  assumes "spec_grant a u s1 n1 s2 n2 perm = Inr a'"
  obtains k1 k2 e h where "named u s1 n1 = Inr k1" "named u s2 n2 = Inr k2" "v_alias a k1 = Some (e, Write)"
    "v_head a (u, e) = Some h" "v_alias a k2 = None" "a' = a\<lparr>v_alias := (v_alias a)(k2 \<mapsto> (e, perm))\<rparr>"
  using assms by (auto simp: spec_grant_def and_then_Inr spec_writable_Inr named_Inr)

lemma spec_publish_cases:
  assumes "spec_publish x a u scp alias expected v r = Inr (s, a')"
  obtains k e where "named u scp alias = Inr k" "v_alias a k = Some (e, Write)" "v_head a (u, e) = Some expected"
    "s = snap_of x e r (Some expected) v" "a' = add_version u e expected r v a"
  using assms by (auto simp: spec_publish_def and_then_Inr spec_writable_Inr named_Inr split: if_splits)

lemma spec_replay_cases:
  assumes "spec_replay x a k expected v p = Inr (s, a')"
  obtains q h where "snd k = (pub_scope_kind p, pub_scope_id p, pub_alias p)" "pub_expected p = expected"
    "v_rev a (fst k, pub_entity p, pub_revision p) = Some (q, v)" "v_alias a k = Some (pub_entity p, Write)"
    "v_head a (fst k, pub_entity p) = Some h"
    "s = snap_of x (pub_entity p) (pub_revision p) expected v" "a' = a"
proof -
  from assms have same: "snd k = (pub_scope_kind p, pub_scope_id p, pub_alias p)" "pub_expected p = expected"
    and rev: "map_option snd (v_rev a (fst k, pub_entity p, pub_revision p)) = Some v"
    by (auto simp: spec_replay_def split: if_splits)
  have w0: "and_then (spec_writable a k) (\<lambda>(e, _). if e \<noteq> pub_entity p then Inl PublicationMismatch
      else Inr (snap_of x e (pub_revision p) expected v, a)) = Inr (s, a')"
    using assms unfolding spec_replay_def if_not_P [of "_ \<or> _"] using same rev by simp
  then obtain q where q: "spec_writable a k = Inr q" by (cases "spec_writable a k") simp_all
  obtain e h where qe: "q = (e, h)" by (cases q)
  have eh: "spec_writable a k = Inr (e, h)" unfolding q qe ..
  have then_branch: "(if e \<noteq> pub_entity p then Inl PublicationMismatch
      else Inr (snap_of x e (pub_revision p) expected v, a)) = Inr (s, a')"
    using w0 unfolding eh and_then_simps case_prod_conv .
  from then_branch have e: "e = pub_entity p" by (rule contrapos_pp) simp
  from then_branch eh have w: "spec_writable a k = Inr (pub_entity p, h)"
    "s = snap_of x (pub_entity p) (pub_revision p) expected v" "a' = a"
    unfolding e by simp_all
  from rev obtain q where q: "v_rev a (fst k, pub_entity p, pub_revision p) = Some (q, v)" by auto
  from w(1) have "v_alias a k = Some (pub_entity p, Write)" "v_head a (fst k, pub_entity p) = Some h"
    by (simp_all add: spec_writable_Inr)
  from that [OF same q this w(2,3)] show thesis .
qed

end
