(* ===== verification/Zf_Records.thy ===== *)
theory Zf_Records
  imports Zf_Content_Store Zf_Simulation
begin

text \<open>
  The records of the content store, \<open>zf-storage/src/content_store.rs\<close>: named references that
  are set (\<open>put_record\<close>), claimed once (\<open>claim_record\<close>) or extended by one item without
  rewriting the array they point to (\<open>append_record_item\<close>). Their specification is a map from
  names to values; appending to the stored chain refines appending to the array.
\<close>

subsection \<open>The specification\<close>

type_synonym record_key = "string \<times> string \<times> string"

datatype record_op = PutOp record_key json | ClaimOp record_key json | AppendOp record_key json

datatype record_out = RefOut string | FlagOut bool

definition appended :: "json option \<Rightarrow> json \<Rightarrow> json option" where
  "appended old v =
     (case old of None \<Rightarrow> Some (JArray [v])
      | Some w \<Rightarrow> (case w of JArray vs \<Rightarrow> Some (JArray (vs @ [v])) | _ \<Rightarrow> None))"

fun spec_op :: "codec \<Rightarrow> (record_key \<rightharpoonup> json) \<Rightarrow> record_op \<Rightarrow>
    (content_error, record_out \<times> (record_key \<rightharpoonup> json)) result" where
  "spec_op x m (PutOp k v) = Inr (RefOut (ref_of x v), m(k \<mapsto> v))"
| "spec_op x m (ClaimOp k v) =
     Inr (FlagOut (m k = None), if m k = None then m(k \<mapsto> v) else m)"
| "spec_op x m (AppendOp k v) =
     (case appended (m k) v of
        None \<Rightarrow> Inl AppendTarget
      | Some w \<Rightarrow> Inr (RefOut (ref_of x w), m(k \<mapsto> w)))"

subsection \<open>The operations of the store\<close>

fun run_op :: "codec \<Rightarrow> content_store \<Rightarrow> record_op \<Rightarrow> (content_error, record_out \<times> content_store) result" where
  "run_op x st (PutOp (scp, kind, key) v) =
     (case put_record x st scp kind key v of Inl e \<Rightarrow> Inl e | Inr (r, st') \<Rightarrow> Inr (RefOut r, st'))"
| "run_op x st (ClaimOp (scp, kind, key) v) =
     (case claim_record x st scp kind key v of Inl e \<Rightarrow> Inl e | Inr (b, st') \<Rightarrow> Inr (FlagOut b, st'))"
| "run_op x st (AppendOp (scp, kind, key) v) =
     (case append_record_item x st scp kind key v of Inl e \<Rightarrow> Inl e | Inr (r, st') \<Rightarrow> Inr (RefOut r, st'))"

text \<open>The stored records are those of the map, each under the reference of its value.\<close>

definition records_are :: "codec \<Rightarrow> json set \<Rightarrow> (record_key \<rightharpoonup> json) \<Rightarrow> content_store \<Rightarrow> bool" where
  "records_are x U m st \<longleftrightarrow> store_in x U st
     \<and> (\<forall>k. map_of (db_records (cs_db st)) k = map_option (ref_of x) (m k))
     \<and> (\<forall>k v. m k = Some v \<longrightarrow> value_in x U v \<and> value_stored x (cs_db st) v)"

text \<open>The values an operation handles stay within the universe.\<close>

fun op_in :: "codec \<Rightarrow> json set \<Rightarrow> (record_key \<rightharpoonup> json) \<Rightarrow> record_op \<Rightarrow> bool" where
  "op_in x U m (PutOp k v) = value_in x U v"
| "op_in x U m (ClaimOp k v) = value_in x U v"
| "op_in x U m (AppendOp k v) =
     (value_in x U v \<and> (case appended (m k) v of None \<Rightarrow> True | Some w \<Rightarrow> value_in x U w))"

subsection \<open>Simulation\<close>

lemma records_are_get:
  assumes "records_are x U m st"
  shows "get_record x st scp kind key = Inr (m (scp, kind, key))"
proof (cases "m (scp, kind, key)")
  case (Some v)
  with assms have v: "value_in x U v" "value_stored x (cs_db st) v" and st: "store_in x U st"
    by (auto simp: records_are_def)
  then have "resolve_content x (cs_db st) (ref_of x v) = Inr v"
    by (intro resolve_stored) (auto simp: store_in_def store_ok_def value_in_def intro: codec_ok_subset)
  with assms Some show ?thesis by (simp add: get_record_def records_are_def)
qed (use assms in \<open>simp add: get_record_def records_are_def\<close>)

lemma value_stored_mono:
  assumes "map_of (db_content db) \<subseteq>\<^sub>m map_of (db_content db')" and "value_stored x db v"
  shows "value_stored x db' v"
proof -
  have "stored x db' i b" if "stored x db i b" for i b
    using that assms(1) unfolding stored_def map_le_def by (metis domI)
  with assms(2) show ?thesis by (simp add: value_stored_def)
qed

lemma map_of_filter_neq: "map_of (filter (\<lambda>(k', _). k' \<noteq> k) rs) k' = (if k' = k then None else map_of rs k')"
  by (induction rs) auto

lemma put_row_records:
  "map_of (db_records (put_row k r db)) k' = (if k' = k then Some r else map_of (db_records db) k')"
  by (simp add: put_row_def map_of_filter_neq)

lemma claim_row_records:
  "map_of (db_records (claim_row k r db)) k' =
     (if k' = k \<and> map_of (db_records db) k = None then Some r else map_of (db_records db) k')"
  by (auto simp: claim_row_def)

text \<open>A commit that changes one record of the map to a stored value.\<close>

lemma records_are_step:
  assumes st: "records_are x U m st" and st': "store_in x U st'"
    and le: "map_of (db_content (cs_db st)) \<subseteq>\<^sub>m map_of (db_content (cs_db st'))"
    and rows: "\<forall>k'. map_of (db_records (cs_db st')) k' =
      (if k' = k then Some (ref_of x v) else map_of (db_records (cs_db st)) k')"
    and v: "value_in x U v" "value_stored x (cs_db st') v"
  shows "records_are x U (m(k \<mapsto> v)) st'"
  using assms value_stored_mono [OF le] by (auto simp: records_are_def)

lemma put_sim:
  assumes st: "records_are x U m st" and v: "value_in x U v"
  obtains st' where "put_record x st scp kind key v = Inr (ref_of x v, st')"
    "records_are x U (m((scp, kind, key) \<mapsto> v)) st'"
proof -
  have sin: "store_in x U st" using st by (simp add: records_are_def)
  obtain prep st' db where c: "prepare x st v = Inr prep" "prep_reference prep = ref_of x v"
    "commit_content x st prep (put_row (scp, kind, key) (ref_of x v)) = Inr st'" "store_in x U st'"
    "cs_db st' = put_row (scp, kind, key) (ref_of x v) db" "db_records db = db_records (cs_db st)"
    "value_stored x (cs_db st') v" "map_of (db_content (cs_db st)) \<subseteq>\<^sub>m map_of (db_content (cs_db st'))"
    by (rule commit_in [OF sin v record_updates(2)])
  have "records_are x U (m((scp, kind, key) \<mapsto> v)) st'"
    using c by (intro records_are_step [OF st]) (simp_all add: put_row_records v)
  moreover have "put_record x st scp kind key v = Inr (ref_of x v, st')"
    using c(1-3) by (simp add: put_record_def)
  ultimately show thesis using that by blast
qed

lemma claim_sim:
  fixes scp kind key :: string
  assumes st: "records_are x U m st" and v: "value_in x U v"
  defines "k \<equiv> (scp, kind, key)"
  obtains st' where "claim_record x st scp kind key v = Inr (m k = None, st')"
    "records_are x U (if m k = None then m(k \<mapsto> v) else m) st'"
proof -
  have sin: "store_in x U st" and rows: "map_of (db_records (cs_db st)) k = map_option (ref_of x) (m k)"
    using st unfolding records_are_def by blast+
  obtain prep st' db where c: "prepare x st v = Inr prep" "prep_reference prep = ref_of x v"
    "commit_content x st prep (claim_row k (ref_of x v)) = Inr st'" "store_in x U st'"
    "cs_db st' = claim_row k (ref_of x v) db" "db_records db = db_records (cs_db st)"
    "value_stored x (cs_db st') v" "map_of (db_content (cs_db st)) \<subseteq>\<^sub>m map_of (db_content (cs_db st'))"
    by (rule commit_in [OF sin v record_updates(3)])
  have "records_are x U (if m k = None then m(k \<mapsto> v) else m) st'"
  proof (cases "m k = None")
    case True
    with c rows have "records_are x U (m(k \<mapsto> v)) st'"
      by (intro records_are_step [OF st]) (simp_all add: claim_row_records v)
    with True show ?thesis by simp
  next
    case False
    with c rows have "db_records (cs_db st') = db_records (cs_db st)" by (auto simp: claim_row_def)
    with st c(4) value_stored_mono [OF c(8)] have "records_are x U m st'"
      unfolding records_are_def by metis
    with False show ?thesis by auto
  qed
  moreover have "claim_record x st scp kind key v = Inr (m k = None, st')"
    using c(1-3) rows by (simp add: claim_record_def k_def)
  ultimately show thesis using that by blast
qed

text \<open>Adding one more body to the pending ones.\<close>

lemma pending_ok_put:
  assumes P: "pending_ok x db P" "\<forall>i c. map_of P i = Some c \<longrightarrow> c \<in> U"
    and U: "codec_ok x U" "db_ok x db" "stored_bodies x db \<subseteq> U" "b \<in> U"
    and ds: "dependencies_of b = Inr ds" "\<forall>d \<in> set ds. map_of P d \<noteq> None \<or> map_of (db_content db) d \<noteq> None"
  shows "pending_ok x db (put_blob x b P)" and "map_of (put_blob x b P) (reference x b) = Some b"
    and "\<forall>i c. map_of (put_blob x b P) i = Some c \<longrightarrow> c \<in> U"
    and "\<forall>i c. map_of P i = Some c \<longrightarrow> map_of (put_blob x b P) i = Some c"
proof -
  have inj: "c = b" if "c \<in> U" "reference x c = reference x b" for c
    using that U(1,4) by (auto simp: codec_ok_def inj_on_def)
  have dup: "c = b" if "map_of P (reference x b) = Some c" for c
    using P that inj by (auto simp: pending_ok_def)
  have old: "c = b" if s: "stored x db (reference x b) c" for c
  proof -
    from U(2) stored_row [OF s] obtain c' where "stored x db (reference x b) c'" "reference x c' = reference x b"
      by (rule db_ok_row)
    with stored_det [OF s] have "reference x c = reference x b" by blast
    moreover have "c \<in> U" using U(3) s by (auto simp: stored_bodies_def)
    ultimately show ?thesis using inj by blast
  qed
  have look: "map_of (put_blob x b P) i = (if i = reference x b then Some b else map_of P i)" for i
  proof (cases "map_of P (reference x b)")
    case (Some c)
    with dup have "c = b" by blast
    with Some show ?thesis by (auto simp: put_blob_def)
  qed (simp add: put_blob_def)
  then show "map_of (put_blob x b P) (reference x b) = Some b" by simp
  show "\<forall>i c. map_of (put_blob x b P) i = Some c \<longrightarrow> c \<in> U"
  proof (intro allI impI)
    fix i c assume c: "map_of (put_blob x b P) i = Some c"
    show "c \<in> U"
    proof (cases "i = reference x b")
      case True
      with c U(4) show ?thesis by (simp add: look)
    next
      case False
      with c have "map_of P i = Some c" by (simp add: look)
      with P(2) show ?thesis by blast
    qed
  qed
  show "\<forall>i c. map_of P i = Some c \<longrightarrow> map_of (put_blob x b P) i = Some c"
  proof (intro allI impI)
    fix i c assume c: "map_of P i = Some c"
    show "map_of (put_blob x b P) i = Some c"
    proof (cases "i = reference x b")
      case True
      with c dup have "c = b" by simp
      with True show ?thesis by (simp add: look)
    qed (simp add: look c)
  qed
  have keep: "map_of (put_blob x b P) d \<noteq> None" if "map_of P d \<noteq> None" for d using that by (simp add: look)
  have parse: "cd_parse x (cd_print x b) = Some b" using U(1,4) by (simp add: codec_ok_def)
  show "pending_ok x db (put_blob x b P)"
    unfolding pending_ok_def
  proof (intro conjI allI impI)
    show "bt_ok (put_blob x b P)" using P(1) by (simp add: put_blob_def pending_ok_def bt_insert_ok)
    fix i c assume c: "map_of (put_blob x b P) i = Some c"
    have "i = reference x b \<and> c = b \<or> map_of P i = Some c"
      using c by (cases "i = reference x b") (simp_all add: look)
    then consider "i = reference x b" "c = b" | "map_of P i = Some c" by blast
    then have "reference x c = i \<and> cd_parse x (cd_print x c) = Some c \<and> (\<forall>b'. stored x db i b' \<longrightarrow> b' = c)
      \<and> (\<exists>ds. dependencies_of c = Inr ds
           \<and> (\<forall>d \<in> set ds. map_of P d \<noteq> None \<or> map_of (db_content db) d \<noteq> None))"
    proof cases
      case 1
      with parse old ds show ?thesis by blast
    next
      case 2
      with P(1) show ?thesis unfolding pending_ok_def by blast
    qed
    then show "reference x c = i" "cd_parse x (cd_print x c) = Some c" "\<And>b'. stored x db i b' \<Longrightarrow> b' = c"
      "\<exists>ds. dependencies_of c = Inr ds
         \<and> (\<forall>d \<in> set ds. map_of (put_blob x b P) d \<noteq> None \<or> map_of (db_content db) d \<noteq> None)"
      using keep by blast+
  qed
qed

lemma blobs_append:
  "blobs_of x (JArray (vs @ [v])) =
     blobs_of x (JArray vs) @ blobs_of x v @ [sequence_body (ref_of x (JArray vs)) (ref_of x v)]"
  by (simp add: chain_append head_of_def comp_def)

lemma ref_append:
  "ref_of x (JArray (vs @ [v])) = reference x (sequence_body (ref_of x (JArray vs)) (ref_of x v))"
  by (simp add: head_of_def link_def)

text \<open>The body a reference of a value points to, and whether it is an array or a chain cell.\<close>

definition array_like :: "json \<Rightarrow> bool" where
  "array_like b \<longleftrightarrow> kind_of b = Some ''array'' \<or> kind_of b = Some ''sequence''"

lemma array_like_simps [simp]:
  "array_like array_body" "array_like (sequence_body h i)" "\<not> array_like (scalar_body v)"
  "\<not> array_like (string_body h)" "\<not> array_like (object_body m)"
  by (simp_all add: array_like_def)

lemma root_body:
  obtains b where "b \<in> set (blobs_of x v)" "ref_of x v = reference x b" "array_like b \<longleftrightarrow> is_array v"
proof (cases v)
  case (JString s)
  show thesis
  proof (cases "4096 < length s")
    case True
    with JString show thesis by (intro that [of "string_body (head_of x (map (chunk_ref x) (chunk_list s)))"]) simp_all
  next
    case False
    with JString show thesis by (intro that [of "scalar_body v"]) simp_all
  qed
next
  case (JArray vs)
  show thesis
  proof (cases vs rule: rev_cases)
    case Nil
    with JArray show thesis by (intro that [of array_body]) simp_all
  next
    case (snoc ws w)
    let ?b = "sequence_body (ref_of x (JArray ws)) (ref_of x w)"
    have "?b \<in> set (blobs_of x v)" unfolding JArray snoc blobs_append by simp
    moreover have "ref_of x v = reference x ?b" unfolding JArray snoc by (rule ref_append)
    ultimately show thesis using that [of ?b] JArray by simp
  qed
next
  case (JObject m)
  then show thesis
    by (intro that [of "object_body (fold (\<lambda>(k, r). bt_insert k r) (map (\<lambda>e. (fst e, ref_of x (snd e))) m) [])"])
      simp_all
qed (use that [of "scalar_body v"] in simp_all)

lemma append_parent_stored:
  assumes ok: "db_ok x db" and u: "value_stored x db u"
  shows "append_parent x db (Some (ref_of x u)) pending =
    (if is_array u then Inr (ref_of x u, pending) else Inl AppendTarget)"
proof -
  obtain b where b: "b \<in> set (blobs_of x u)" "ref_of x u = reference x b" "array_like b \<longleftrightarrow> is_array u"
    by (rule root_body)
  with u have "stored x db (ref_of x u) b" by (simp add: value_stored_def)
  then obtain raw where "map_of (db_content db) (ref_of x u) = Some raw" "cd_parse x raw = Some b"
    by (auto simp: stored_def)
  with b(2,3) show ?thesis by (simp add: append_parent_def array_like_def)
qed

lemma append_error_sim:
  assumes st: "records_are x U m st" and v: "value_in x U v"
    and none: "appended (m (scp, kind, key)) v = None"
  shows "append_record_item x st scp kind key v = Inl AppendTarget"
proof -
  from none obtain u where u: "m (scp, kind, key) = Some u" "\<not> is_array u"
    by (auto simp: appended_def split: option.splits json.splits)
  have db: "db_ok x (cs_db st)" "value_stored x (cs_db st) u"
    "map_of (db_records (cs_db st)) (scp, kind, key) = Some (ref_of x u)"
    using st u(1) by (auto simp: records_are_def store_in_def store_ok_def)
  have "fits 0 v" using v by (simp add: value_in_def)
  then obtain prep where "prepare x st v = Inr prep" using prepare_fits [of x st v] by blast
  with db append_parent_stored [OF db(1,2)] u(2) show ?thesis by (simp add: append_record_item_def)
qed

text \<open>The parent cell of an append, with the bodies that are pending by then.\<close>

lemma append_parent_ok:
  assumes st: "records_are x U m st" and P: "pending_ok x (cs_db st) P" "\<forall>i c. map_of P i = Some c \<longrightarrow> c \<in> U"
    and w: "appended (m k) v = Some w" "value_in x U w"
  obtains vs P' where "w = JArray (vs @ [v])"
    "append_parent x (cs_db st) (map_of (db_records (cs_db st)) k) P = Inr (ref_of x (JArray vs), P')"
    "pending_ok x (cs_db st) P'" "\<forall>i c. map_of P' i = Some c \<longrightarrow> c \<in> U"
    "\<forall>i c. map_of P i = Some c \<longrightarrow> map_of P' i = Some c"
    "\<forall>b \<in> set (blobs_of x (JArray vs)). map_of P' (reference x b) = Some b \<or> stored x (cs_db st) (reference x b) b"
proof -
  have db: "db_ok x (cs_db st)" "codec_ok x U" "stored_bodies x (cs_db st) \<subseteq> U"
    and rows: "map_of (db_records (cs_db st)) k = map_option (ref_of x) (m k)"
    using st unfolding records_are_def store_in_def store_ok_def by blast+
  show thesis
  proof (cases "m k")
    case None
    with w have wv: "w = JArray ([] @ [v])" by (simp add: appended_def)
    with w(2) have U: "array_body \<in> U" by (simp add: value_in_def)
    note put = pending_ok_put [OF P db(2,1,3) U dependencies_simps(2)]
    show thesis
    proof (rule that [OF wv])
      show "append_parent x (cs_db st) (map_of (db_records (cs_db st)) k) P =
          Inr (ref_of x (JArray []), put_blob x array_body P)"
        using rows None by (simp add: append_parent_def add_blob_eq)
    qed (use put in simp_all)
  next
    case (Some u)
    with w(1) obtain vs where vs: "u = JArray vs" "w = JArray (vs @ [v])"
      by (auto simp: appended_def split: json.splits)
    have sv: "value_stored x (cs_db st) (JArray vs)" using st Some vs(1) unfolding records_are_def by blast
    show thesis
    proof (rule that [OF vs(2) _ P])
      show "append_parent x (cs_db st) (map_of (db_records (cs_db st)) k) P = Inr (ref_of x (JArray vs), P)"
        using append_parent_stored [OF db(1) sv, of P] rows Some vs(1) by simp
    qed (use sv in \<open>simp_all add: value_stored_def\<close>)
  qed
qed

lemma append_sim:
  fixes scp kind key :: string
  assumes st: "records_are x U m st" and v: "value_in x U v"
  defines "k \<equiv> (scp, kind, key)"
  assumes w: "appended (m k) v = Some w" "value_in x U w"
  obtains st' where "append_record_item x st scp kind key v = Inr (ref_of x w, st')"
    "records_are x U (m(k \<mapsto> w)) st'"
proof -
  have sin: "store_in x U st" using st unfolding records_are_def by blast
  then have ok: "store_ok x st" and db: "db_ok x (cs_db st)" "codec_ok x U" "stored_bodies x (cs_db st) \<subseteq> U"
    by (simp_all add: store_in_def store_ok_def)
  have "fits 0 v" using v by (simp add: value_in_def)
  then obtain prep where prep: "prepare x st v = Inr prep" using prepare_fits [of x st v] by blast
  note p = prepare_ok [OF ok store_in_safe [OF sin v] prep]
  have pU: "\<forall>i c. map_of (prep_pending prep) i = Some c \<longrightarrow> c \<in> U"
    using p(5) v unfolding value_in_def by blast
  obtain vs P where wv: "w = JArray (vs @ [v])"
    and parent: "append_parent x (cs_db st) (map_of (db_records (cs_db st)) k) (prep_pending prep) =
      Inr (ref_of x (JArray vs), P)"
    and P: "pending_ok x (cs_db st) P" "\<forall>i c. map_of P i = Some c \<longrightarrow> c \<in> U"
    and keep: "\<forall>i c. map_of (prep_pending prep) i = Some c \<longrightarrow> map_of P i = Some c"
    and old: "\<forall>b \<in> set (blobs_of x (JArray vs)).
      map_of P (reference x b) = Some b \<or> stored x (cs_db st) (reference x b) b"
    by (rule append_parent_ok [OF st p(3) pU w])
  let ?b = "sequence_body (ref_of x (JArray vs)) (ref_of x v)"
  let ?known = "\<lambda>u. \<forall>b \<in> set (blobs_of x u). map_of P (reference x b) = Some b \<or> stored x (cs_db st) (reference x b) b"
  have item: "?known v" using p(4) keep by blast
  have wb: "set (blobs_of x w) = set (blobs_of x (JArray vs)) \<union> set (blobs_of x v) \<union> {?b}"
    unfolding wv blobs_append by auto
  then have U: "set (blobs_of x (JArray vs)) \<subseteq> U" "set (blobs_of x v) \<subseteq> U" "?b \<in> U"
    using w(2) by (auto simp: value_in_def)
  have there: "valid_reference (ref_of x u) \<and> (map_of P (ref_of x u) \<noteq> None \<or> map_of (db_content (cs_db st)) (ref_of x u) \<noteq> None)"
    if known: "?known u" and sub: "set (blobs_of x u) \<subseteq> U" for u
  proof -
    obtain b where b: "b \<in> set (blobs_of x u)" "ref_of x u = reference x b" by (rule root_body)
    have "valid_reference (reference x b)" using b(1) sub db(2) by (auto simp: codec_ok_def)
    with b known stored_row [of x "cs_db st" "reference x b" b] show ?thesis by auto
  qed
  note parent_there = there [OF old U(1)] and item_there = there [OF item U(2)]
  have deps: "dependencies_of ?b = Inr [ref_of x (JArray vs), ref_of x v]"
    using parent_there item_there by (simp add: dependencies_simps)
  have "\<forall>d \<in> set [ref_of x (JArray vs), ref_of x v]. map_of P d \<noteq> None \<or> map_of (db_content (cs_db st)) d \<noteq> None"
    using parent_there item_there by simp
  note put = pending_ok_put [OF P db(2,1,3) U(3) deps this]
  let ?p = "\<lparr>prep_reference = ref_of x w, prep_pending = put_blob x ?b P\<rparr>"
  have rb: "reference x ?b = ref_of x w" unfolding wv by (rule ref_append [symmetric])
  have "map_of (prep_pending ?p) (prep_reference ?p) \<noteq> None" using put(2) rb by simp
  then have "map_of (prep_pending ?p) (prep_reference ?p) \<noteq> None
      \<or> map_of (db_content (cs_db st)) (prep_reference ?p) \<noteq> None" by blast
  moreover have "pending_ok x (cs_db st) (prep_pending ?p)" using put(1) by simp
  moreover have "record_update (insert (prep_reference ?p) (dom (map_of (db_content (cs_db st))))) (put_row k (ref_of x w))"
    by (simp add: record_updates)
  ultimately obtain st' db' where st': "commit_content x st ?p (put_row k (ref_of x w)) = Inr st'" "store_ok x st'"
    "map_of (db_content (cs_db st)) \<subseteq>\<^sub>m map_of (db_content (cs_db st'))"
    "\<forall>i b. map_of (prep_pending ?p) i = Some b \<longrightarrow> stored x (cs_db st') i b"
    "\<forall>i b. stored x (cs_db st') i b \<longrightarrow> stored x (cs_db st) i b \<or> map_of (prep_pending ?p) i = Some b"
    "cs_db st' = put_row k (ref_of x w) db'" "db_records db' = db_records (cs_db st)"
    using commit_ok [OF ok, of ?p "put_row k (ref_of x w)"] by blast
  have stays: "stored x (cs_db st') i c" if "stored x (cs_db st) i c" for i c
    using that st'(3) unfolding stored_def map_le_def by (metis domI)
  have new: "stored x (cs_db st') i c" if "map_of P i = Some c" for i c
    using that put(4) st'(4) by simp
  have "stored x (cs_db st') (reference x ?b) ?b" using st'(4) put(2) by simp
  then have "value_stored x (cs_db st') w"
    unfolding value_stored_def wb using old item stays new by blast
  moreover have "c \<in> U" if "stored x (cs_db st') i c" for i c
  proof -
    from that st'(5) consider "stored x (cs_db st) i c" | "map_of (put_blob x ?b P) i = Some c" by auto
    then show ?thesis
    proof cases
      case 1
      with db(3) show ?thesis unfolding stored_bodies_def by blast
    next
      case 2
      with put(3) show ?thesis by blast
    qed
  qed
  then have "stored_bodies x (cs_db st') \<subseteq> U" unfolding stored_bodies_def by blast
  then have "store_in x U st'" using st'(2) db(2) by (simp add: store_in_def)
  ultimately have "records_are x U (m(k \<mapsto> w)) st'"
    using st'(3,6,7) w(2) by (intro records_are_step [OF st]) (simp_all add: put_row_records)
  moreover have "append_record_item x st scp kind key v = Inr (ref_of x w, st')"
    using prep parent st'(1) p(1) rb by (simp add: append_record_item_def k_def add_blob_eq)
  ultimately show thesis using that by blast
qed

lemma record_step:
  assumes st: "records_are x U m st" and adm: "op_in x U m op"
  shows "spec_op x m op = Inr (r, m') \<Longrightarrow> \<exists>st'. run_op x st op = Inr (r, st') \<and> records_are x U m' st'"
    and "spec_op x m op = Inl e \<Longrightarrow> run_op x st op = Inl e"
proof -
  assume spec: "spec_op x m op = Inr (r, m')"
  show "\<exists>st'. run_op x st op = Inr (r, st') \<and> records_are x U m' st'"
  proof (cases op)
    case (PutOp k v)
    obtain a b c where k: "k = (a, b, c)" using prod_cases3 by blast
    from adm PutOp have "value_in x U v" by simp
    from put_sim [OF st this, of a b c] obtain st' where
      "put_record x st a b c v = Inr (ref_of x v, st')" "records_are x U (m(k \<mapsto> v)) st'" unfolding k by blast
    with spec show ?thesis unfolding PutOp k by auto
  next
    case (ClaimOp k v)
    obtain a b c where k: "k = (a, b, c)" using prod_cases3 by blast
    from adm ClaimOp have "value_in x U v" by simp
    from claim_sim [OF st this, of a b c] obtain st' where
      "claim_record x st a b c v = Inr (m k = None, st')"
      "records_are x U (if m k = None then m(k \<mapsto> v) else m) st'" unfolding k by blast
    with spec show ?thesis unfolding ClaimOp k by auto
  next
    case (AppendOp k v)
    obtain a b c where k: "k = (a, b, c)" using prod_cases3 by blast
    from spec AppendOp obtain w where w: "appended (m k) v = Some w" and r: "r = RefOut (ref_of x w)"
      "m' = m(k \<mapsto> w)" by (auto split: option.splits)
    from adm AppendOp w have v: "value_in x U v" and win: "value_in x U w" by auto
    obtain st' where "append_record_item x st a b c v = Inr (ref_of x w, st')" "records_are x U (m(k \<mapsto> w)) st'"
      using append_sim [OF st v w [unfolded k] win] unfolding k by blast
    with r show ?thesis unfolding AppendOp k by auto
  qed
next
  assume "spec_op x m op = Inl e"
  then obtain a b c v where op: "op = AppendOp (a, b, c) v" "appended (m (a, b, c)) v = None" "e = AppendTarget"
    by (cases op) (auto split: option.splits)
  moreover have "value_in x U v" using adm op(1) by simp
  ultimately show "run_op x st op = Inl e" using append_error_sim [OF st] by simp
qed

interpretation records: simulation "records_are x U" "op_in x U" "transact (spec_op x)" "transact (run_op x)"
  for x :: codec and U :: "json set"
proof unfold_locales
  fix m st op assume st: "records_are x U m st" "op_in x U m op"
  show "fst (transact (run_op x) st op) = fst (transact (spec_op x) m op)
    \<and> records_are x U (snd (transact (spec_op x) m op)) (snd (transact (run_op x) st op))"
  proof (cases "spec_op x m op")
    case (Inl e)
    with record_step(2) [OF st] st(1) show ?thesis by simp
  next
    case (Inr p)
    obtain r m' where p: "p = (r, m')" by fastforce
    with Inr record_step(1) [OF st] obtain st' where "run_op x st op = Inr (r, st')" "records_are x U m' st'" by blast
    with Inr p show ?thesis by simp
  qed
qed

subsection \<open>Moving content between stores\<close>

lemma export_import_pending:
  assumes a: "store_in x U a" and b: "store_in x U b"
    and found: "bt_ok found"
      "\<forall>j c. map_of found j = Some c \<longleftrightarrow> (i, j) \<in> (set (db_edges (cs_db a)))\<^sup>* \<and> stored x (cs_db a) j c"
  shows "pending_ok x (cs_db b) found"
    and "\<forall>(j, c) \<in> set found. reference x c = j \<and> (\<exists>ds. dependencies_of c = Inr ds)"
    and "\<forall>j c. map_of found j = Some c \<longrightarrow> c \<in> U"
proof -
  have aok: "db_ok x (cs_db a)" "stored_bodies x (cs_db a) \<subseteq> U" and codec: "codec_ok x U"
    and bok: "db_ok x (cs_db b)" "stored_bodies x (cs_db b) \<subseteq> U"
    using a b by (simp_all add: store_in_def store_ok_def)
  have inU: "c \<in> U" if "map_of found j = Some c" for j c
    using that found(2) aok(2) unfolding stored_bodies_def by blast
  then show "\<forall>j c. map_of found j = Some c \<longrightarrow> c \<in> U" by blast
  have row: "reference x c = j \<and> (\<exists>ds. dependencies_of c = Inr ds \<and> (\<forall>d \<in> set ds. map_of found d \<noteq> None))"
    if j: "map_of found j = Some c" for j c
  proof -
    have r: "(i, j) \<in> (set (db_edges (cs_db a)))\<^sup>*" and s: "stored x (cs_db a) j c" using found(2) j by simp_all
    obtain c' ds where c': "stored x (cs_db a) j c'" "reference x c' = j" "dependencies_of c' = Inr ds"
      "\<forall>d \<in> set ds. map_of (db_content (cs_db a)) d \<noteq> None"
      by (rule db_ok_row [OF aok(1) stored_row [OF s]])
    have eq: "c' = c" by (rule stored_det [OF c'(1) s])
    have "map_of found d \<noteq> None" if d: "d \<in> set ds" for d
    proof -
      have "(j, d) \<in> set (db_edges (cs_db a))" using aok(1) c' d unfolding db_ok_def by blast
      with r have "(i, d) \<in> (set (db_edges (cs_db a)))\<^sup>*" by simp
      moreover obtain e where "stored x (cs_db a) d e" using c'(4) d db_ok_row [OF aok(1), of d] by blast
      ultimately have "map_of found d = Some e" using found(2) by simp
      then show ?thesis by simp
    qed
    with c'(2,3) eq show ?thesis by blast
  qed
  show "\<forall>(j, c) \<in> set found. reference x c = j \<and> (\<exists>ds. dependencies_of c = Inr ds)"
  proof (intro ballI, clarify)
    fix j c assume "(j, c) \<in> set found"
    then have "map_of found j = Some c" using bt_ok_in_iff [OF found(1)] by simp
    from row [OF this] show "reference x c = j \<and> (\<exists>ds. dependencies_of c = Inr ds)" by blast
  qed
  have same: "c' = c" if j: "map_of found j = Some c" and s: "stored x (cs_db b) j c'" for j c c'
  proof -
    obtain d where "stored x (cs_db b) j d" "reference x d = j" by (rule db_ok_row [OF bok(1) stored_row [OF s]])
    with stored_det [OF s] row [OF j] have "reference x c' = reference x c" by blast
    moreover have "c' \<in> U" using s bok(2) unfolding stored_bodies_def by blast
    ultimately show ?thesis using inU [OF j] codec by (simp add: codec_ok_def inj_on_def)
  qed
  have parse: "cd_parse x (cd_print x c) = Some c" if "map_of found j = Some c" for j c
    using inU [OF that] codec by (simp add: codec_ok_def)
  show "pending_ok x (cs_db b) found"
    unfolding pending_ok_def
  proof (intro conjI allI impI)
    fix j c assume j: "map_of found j = Some c"
    from row [OF j] show "reference x c = j" by blast
    show "cd_parse x (cd_print x c) = Some c" by (rule parse [OF j])
    show "c' = c" if "stored x (cs_db b) j c'" for c' by (rule same [OF j that])
    from row [OF j] show "\<exists>ds. dependencies_of c = Inr ds
        \<and> (\<forall>d \<in> set ds. map_of found d \<noteq> None \<or> map_of (db_content (cs_db b)) d \<noteq> None)" by blast
  qed (rule found(1))
qed

lemma import_blobs_ok:
  assumes b: "store_in x U b" and blobs: "bt_ok blobs" "pending_ok x (cs_db b) blobs"
    "\<forall>(j, c) \<in> set blobs. reference x c = j \<and> (\<exists>ds. dependencies_of c = Inr ds)"
    "\<forall>j c. map_of blobs j = Some c \<longrightarrow> c \<in> U"
  obtains b' where "import_blobs x b blobs = Inr b'" "store_in x U b'" "reads_kept x b b'"
    "\<forall>j c. map_of blobs j = Some c \<longrightarrow> stored x (cs_db b') j c"
    "db_records (cs_db b') = db_records (cs_db b)"
proof -
  have ok: "db_ok x (cs_db b)" "stored_bodies x (cs_db b) \<subseteq> U" and codec: "codec_ok x U"
    and known: "\<forall>i \<in> set (cs_committed b). map_of (db_content (cs_db b)) i \<noteq> None"
    using b by (simp_all add: store_in_def store_ok_def)
  obtain db where db: "insert_blobs x blobs (cs_db b) = Inr db" "db_ok x db" "db_records db = db_records (cs_db b)"
    "map_of (db_content (cs_db b)) \<subseteq>\<^sub>m map_of (db_content db)"
    "\<forall>i c. map_of blobs i = Some c \<longrightarrow> stored x db i c"
    "\<forall>i c. stored x db i c \<longrightarrow> stored x (cs_db b) i c \<or> map_of blobs i = Some c"
    by (rule insert_blobs_ok [OF ok(1) blobs(2)])
  have "for_each (\<lambda>(i, body). if reference x body \<noteq> i then Inl (HashMismatch i)
      else (case dependencies_of body of Inl e \<Rightarrow> Inl e | Inr _ \<Rightarrow> Inr ())) blobs = Inr ()"
    unfolding for_each_ok_iff using blobs(3) by auto
  moreover have "list_all (\<lambda>e. map_of (db_content db) (snd e) \<noteq> None) (db_edges db)"
    unfolding list_all_iff using db_ok_edge [OF db(2)] by (metis prod.collapse)
  ultimately have "import_blobs x b blobs = Inr (b\<lparr>cs_db := db\<rparr>)"
    using db(1) by (simp add: import_blobs_def fold_bt_insert_id [OF blobs(1)])
  moreover have "stored_bodies x db \<subseteq> U"
    unfolding stored_bodies_def using db(6) blobs(4) ok(2) [unfolded stored_bodies_def] by blast
  moreover have "\<forall>i \<in> set (cs_committed b). map_of (db_content db) i \<noteq> None"
    using known db(4) unfolding map_le_def by (metis domIff)
  ultimately show thesis
    using that [of "b\<lparr>cs_db := db\<rparr>"] db(2,3,5) codec resolve_mono [OF ok(1) db(2,4)]
    by (simp add: store_in_def store_ok_def reads_kept_def)
qed

subsection \<open>Properties\<close>

text \<open>
  C20. The record operations refine a map from names to values: on every sequence of puts,
  claims and appends the store returns what the map returns (the reference of the new value,
  whether a claim came first, or that an append target is not an array), and afterwards every
  record reads as the value of the map. In particular of several claims of a name only the
  first succeeds, and appending item by item gives the reference of the whole array.
\<close>

theorem record_runs:
  assumes "records_are x U m st" and "along (op_in x U) (transact (spec_op x)) m ops"
  shows "fst (trace (transact (run_op x)) st ops) = fst (trace (transact (spec_op x)) m ops)
    \<and> (\<forall>scp kind key. get_record x (snd (trace (transact (run_op x)) st ops)) scp kind key =
         Inr (snd (trace (transact (spec_op x)) m ops) (scp, kind, key)))"
  using records.refines [OF assms] records_are_get by blast

theorem record_runs_witness:
  "fst (trace (transact (run_op example_codec)) empty_store
      [AppendOp (''s'', ''k'', ''a'') JNull, AppendOp (''s'', ''k'', ''a'') (JBool True),
       ClaimOp (''s'', ''k'', ''a'') JNull]) =
    fst (trace (transact (spec_op example_codec)) Map.empty
      [AppendOp (''s'', ''k'', ''a'') JNull, AppendOp (''s'', ''k'', ''a'') (JBool True),
       ClaimOp (''s'', ''k'', ''a'') JNull])
   \<and> (\<forall>scp kind key. get_record example_codec (snd (trace (transact (run_op example_codec)) empty_store
      [AppendOp (''s'', ''k'', ''a'') JNull, AppendOp (''s'', ''k'', ''a'') (JBool True),
       ClaimOp (''s'', ''k'', ''a'') JNull])) scp kind key =
     Inr (snd (trace (transact (spec_op example_codec)) Map.empty
      [AppendOp (''s'', ''k'', ''a'') JNull, AppendOp (''s'', ''k'', ''a'') (JBool True),
       ClaimOp (''s'', ''k'', ''a'') JNull]) (scp, kind, key)))"
proof (rule record_runs)
  show "records_are example_codec example_universe Map.empty empty_store"
    using example_store_in by (simp add: records_are_def) (simp add: empty_store_def)
qed (simp add: appended_def example_values transact_def)

text \<open>
  C21. Exporting what a reference reaches and importing it into another store succeeds, makes
  the same value readable there under the same reference, keeps the invariant of that store and
  everything that could be read from it before.
\<close>

theorem export_import:
  assumes a: "store_in x U a" and b: "store_in x U b" and v: "resolve_content x (cs_db a) i = Inr v"
  shows "\<exists>blobs b'. export_blobs x (cs_db a) [i] = Inr blobs \<and> import_blobs x b blobs = Inr b'
    \<and> store_in x U b' \<and> resolve_content x (cs_db b') i = Inr v \<and> reads_kept x b b'"
proof -
  have ok: "db_ok x (cs_db a)" using a by (simp add: store_in_def store_ok_def)
  have i: "map_of (db_content (cs_db a)) i \<noteq> None" using resolve_missing [of "cs_db a" i x] v by auto
  obtain found where f: "export_blobs x (cs_db a) [i] = Inr found" "bt_ok found"
    "\<forall>j c. map_of found j = Some c \<longleftrightarrow> (i, j) \<in> (set (db_edges (cs_db a)))\<^sup>* \<and> stored x (cs_db a) j c"
    by (rule export_blobs_ok [OF ok i])
  obtain b' where b': "import_blobs x b found = Inr b'" "store_in x U b'" "reads_kept x b b'"
    "\<forall>j c. map_of found j = Some c \<longrightarrow> stored x (cs_db b') j c"
    by (rule import_blobs_ok [OF b f(2) export_import_pending [OF a b f(2,3)]])
  have "db_ok x (cs_db b')" using b'(2) by (simp add: store_in_def store_ok_def)
  from resolve_transfer [OF ok this _ v] have "resolve_content x (cs_db b') i = Inr v"
    using f(3) b'(4) by blast
  with f(1) b' show ?thesis by blast
qed

theorem export_import_witness:
  "\<exists>st. intern example_codec empty_store (JArray [JNull]) = Inr (ref_of example_codec (JArray [JNull]), st)
    \<and> (\<exists>blobs b'. export_blobs example_codec (cs_db st) [ref_of example_codec (JArray [JNull])] = Inr blobs
        \<and> import_blobs example_codec empty_store blobs = Inr b' \<and> store_in example_codec example_universe b'
        \<and> resolve_content example_codec (cs_db b') (ref_of example_codec (JArray [JNull])) = Inr (JArray [JNull])
        \<and> reads_kept example_codec empty_store b')"
proof -
  obtain st where st: "intern example_codec empty_store (JArray [JNull]) = Inr (ref_of example_codec (JArray [JNull]), st)"
    "store_in example_codec example_universe st"
    "resolve_content example_codec (cs_db st) (ref_of example_codec (JArray [JNull])) = Inr (JArray [JNull])"
    by (rule intern_in [OF example_store_in example_values(3)])
  from export_import [OF st(2) example_store_in st(3)] st(1) show ?thesis by blast
qed

end
