(* ===== verification/Zf_Registry_Sim.thy ===== *)
theory Zf_Registry_Sim
  imports Zf_Registry_Spec Zf_Records
begin

text \<open>
  The data registry refines its specification: the tables, the content store and the cache of
  resident values together implement the versioned map.
\<close>

subsection \<open>Resident values\<close>

definition cache_fits :: "codec \<Rightarrow> content_db \<Rightarrow> resident_cache \<Rightarrow> bool" where
  "cache_fits x db c \<longleftrightarrow> (\<forall>r v. map_of (rc_slots c) r = Some (Some v) \<longrightarrow> resolve_content x db r = Inr v)"

lemma slot_fits: "cache_fits x db c \<Longrightarrow> cache_fits x db (slot env r c)"
  by (auto simp: cache_fits_def slot_def collect_slots_def Let_def map_of_filter_keys)

lemma fill_slot_fits:
  assumes "cache_fits x db c" and "resolve_content x db r = Inr v"
  shows "cache_fits x db (fill_slot r v c)"
proof -
  have "map_of (map (\<lambda>(q, w). (q, if q = r then Some v else w)) ss) q =
      map_option (\<lambda>w. if q = r then Some v else w) (map_of ss q)" for ss q
    by (induction ss) auto
  with assms show ?thesis by (auto simp: cache_fits_def fill_slot_def split: if_splits)
qed

lemma upgrade_fits: "cache_fits x db c \<Longrightarrow> upgrade env c r = Some v \<Longrightarrow> resolve_content x db r = Inr v"
  by (auto simp: cache_fits_def upgrade_def split: option.splits if_splits)

text \<open>The budget of insertions never underflows: it is positive once a collection was due.\<close>

lemma collect_slots_budget: "0 < rc_insertions_until_collection (collect_slots env c)"
  by (auto simp: collect_slots_def max_def)

lemma hydrate_resolved:
  assumes fits: "cache_fits x (cs_db (rg_content st)) (rg_resident st)"
    and v: "resolve_content x (cs_db (rg_content st)) r = Inr v"
  obtains c where "cache_fits x (cs_db (rg_content st)) c"
    "hydrate x env e q p r st =
       (Inr \<lparr>snap_entity = e, snap_revision = q, snap_parent = p, snap_content = r, snap_value = v\<rparr>, st\<lparr>rg_resident := c\<rparr>)"
proof (cases "upgrade env (slot env r (rg_resident st)) r")
  case None
  show thesis
    by (rule that [OF fill_slot_fits [OF slot_fits [OF fits, of env r] v]]) (simp add: hydrate_def None v)
next
  case (Some w)
  with upgrade_fits [OF slot_fits [OF fits, of env r] Some] v have "w = v" by simp
  with Some show thesis by (intro that [OF slot_fits [OF fits, of env r]]) (simp add: hydrate_def)
qed

subsection \<open>The relation\<close>

definition tables_are :: "codec \<Rightarrow> versions \<Rightarrow> registry \<Rightarrow> bool" where
  "tables_are x a st \<longleftrightarrow>
     map_of (rg_aliases st) = v_alias a \<and> map_of (rg_entities st) = v_head a
     \<and> distinct (map fst (rg_entities st)) \<and> map_of (rg_publications st) = v_pub a
     \<and> map_of (rg_revisions st) = (\<lambda>k. map_option (\<lambda>(p, v). (p, ref_of x v)) (v_rev a k))"

definition values_are :: "codec \<Rightarrow> json set \<Rightarrow> versions \<Rightarrow> content_store \<Rightarrow> bool" where
  "values_are x U a content \<longleftrightarrow> store_in x U content
     \<and> (\<forall>k p v. v_rev a k = Some (p, v) \<longrightarrow> value_in x U v \<and> value_stored x (cs_db content) v)"

definition registry_is :: "codec \<Rightarrow> json set \<Rightarrow> versions \<Rightarrow> registry \<Rightarrow> bool" where
  "registry_is x U a st \<longleftrightarrow> versions_ok a \<and> tables_are x a st \<and> values_are x U a (rg_content st)
     \<and> cache_fits x (cs_db (rg_content st)) (rg_resident st)"

lemma stored_resolves:
  assumes "store_in x U content" and "value_in x U v" and "value_stored x (cs_db content) v"
  shows "resolve_content x (cs_db content) (ref_of x v) = Inr v"
  using assms by (intro resolve_stored)
    (auto simp: store_in_def store_ok_def value_in_def intro: codec_ok_subset)

lemma hydrate_sim:
  assumes R: "registry_is x U a st" and v: "value_in x U v" "value_stored x (cs_db (rg_content st)) v"
  shows "\<exists>st'. hydrate x env e q p (ref_of x v) st = (Inr (snap_of x e q p v), st') \<and> registry_is x U a st'"
proof -
  have fits: "cache_fits x (cs_db (rg_content st)) (rg_resident st)" and st: "store_in x U (rg_content st)"
    using R by (simp_all add: registry_is_def values_are_def)
  obtain c where "cache_fits x (cs_db (rg_content st)) c"
    "hydrate x env e q p (ref_of x v) st =
       (Inr \<lparr>snap_entity = e, snap_revision = q, snap_parent = p, snap_content = ref_of x v, snap_value = v\<rparr>,
        st\<lparr>rg_resident := c\<rparr>)"
    by (rule hydrate_resolved [OF fits stored_resolves [OF st v]])
  with R show ?thesis by (simp add: snap_of_def registry_is_def tables_are_def)
qed

text \<open>Persisting a value keeps what the registry knows and stores the value.\<close>

lemma persist_sim:
  assumes R: "registry_is x U a st" and v: "value_in x U v"
  obtains prep content where "prepare x (rg_content st) v = Inr prep" "prep_reference prep = ref_of x v"
    "persist x (rg_content st) prep = Inr content" "values_are x U a content"
    "value_stored x (cs_db content) v" "cache_fits x (cs_db content) (rg_resident st)"
proof -
  have st: "store_in x U (rg_content st)" using R by (simp add: registry_is_def values_are_def)
  obtain prep content where c: "prepare x (rg_content st) v = Inr prep" "prep_reference prep = ref_of x v"
    "commit_content x (rg_content st) prep (\<lambda>db. db) = Inr content" "store_in x U content"
    "reads_kept x (rg_content st) content" "value_stored x (cs_db content) v"
    "map_of (db_content (cs_db (rg_content st))) \<subseteq>\<^sub>m map_of (db_content (cs_db content))"
    by (rule commit_in [OF st v record_updates(1)])
  have "persist x (rg_content st) prep = Inr content" using c(3) by (simp add: persist_def)
  moreover have "values_are x U a content"
    using R c(4) value_stored_mono [OF c(7)] unfolding registry_is_def values_are_def by blast
  moreover have "cache_fits x (cs_db content) (rg_resident st)"
    using R reads_keptD [OF c(5)] unfolding registry_is_def cache_fits_def by blast
  ultimately show thesis using that c(1,2,6) by blast
qed

subsection \<open>Queries\<close>

lemma query_sim:
  assumes "tables_are x a st"
  shows "require_free_alias u st kind i nm = spec_free a (u, kind, i, nm)"
    and "writable_head u st kind i nm = spec_writable a (u, kind, i, nm)"
  using assms by (simp_all add: tables_are_def require_free_alias_def spec_free_def writable_head_def
      spec_writable_def split: option.splits prod.splits)

lemma insert_revision_fresh:
  assumes "tables_are x a st" and "fresh_revision a u r"
  shows "insert_revision u e r p c (rg_revisions st) = Inr (((u, e, r), (p, c)) # rg_revisions st)"
proof -
  have none: "map_of (rg_revisions st) (u, e', r) = None" for e'
    using assms by (simp add: tables_are_def fresh_revision_def)
  have "\<not> list_ex (\<lambda>((u', _, r'), _). u' = u \<and> r' = r) (rg_revisions st)"
  proof
    assume "list_ex (\<lambda>((u', _, r'), _). u' = u \<and> r' = r) (rg_revisions st)"
    then obtain e' q where "((u, e', r), q) \<in> set (rg_revisions st)" by (auto simp: list_ex_iff)
    with none [of e'] show False by (force simp: map_of_eq_None_iff)
  qed
  with none show ?thesis by (simp add: insert_revision_def insert_row_def)
qed

lemma update_head_hit:
  assumes "distinct (map fst t)" and "map_of t (u, e) = Some h"
  shows "fst (update_head u e h r t) = 1"
    and "map_of (snd (update_head u e h r t)) = (map_of t)((u, e) \<mapsto> r)"
    and "map fst (snd (update_head u e h r t)) = map fst t"
proof -
  let ?hit = "\<lambda>(k, head). k = (u, e) \<and> head = h"
  have "filter ?hit t = [((u, e), h)] \<and> map_of (map (\<lambda>row. if ?hit row then (fst row, r) else row) t) = (map_of t)((u, e) \<mapsto> r)"
    using assms
  proof (induction t)
    case (Cons row t)
    obtain k g where row: "row = (k, g)" by fastforce
    show ?case
    proof (cases "k = (u, e)")
      case True
      with Cons.prems row have nin: "(u, e) \<notin> fst ` set t" and g: "g = h" by auto
      have none: "filter ?hit t = []" using nin by (force simp: filter_empty_conv)
      have same: "map (\<lambda>row. if ?hit row then (fst row, r) else row) t = t"
        using nin by (intro map_idI) force
      show ?thesis unfolding row by (auto simp: True g none same)
    next
      case False
      with Cons row show ?thesis by auto
    qed
  qed simp
  then show "fst (update_head u e h r t) = 1" "map_of (snd (update_head u e h r t)) = (map_of t)((u, e) \<mapsto> r)"
    by (simp_all add: update_head_def Let_def)
  show "map fst (snd (update_head u e h r t)) = map fst t" by (auto simp: update_head_def Let_def)
qed

subsection \<open>Operations\<close>

lemma finish_sim:
  assumes "registry_is x U a st'" and "value_in x U v" "value_stored x (cs_db (rg_content st')) v"
  shows "fst (finish x env st (Inr ((e, q, p, ref_of x v), st'))) = Inr (snap_of x e q p v)
    \<and> registry_is x U a (snd (finish x env st (Inr ((e, q, p, ref_of x v), st'))))"
  using hydrate_sim [OF assms, of env e q p] by (auto simp: finish_def)

lemma finish_rev_sim:
  assumes "registry_is x U a st" and "v_rev a k = Some (p', v)"
  shows "fst (finish x env st0 (Inr ((e, q, p, ref_of x v), st))) = Inr (snap_of x e q p v)
    \<and> registry_is x U a (snd (finish x env st0 (Inr ((e, q, p, ref_of x v), st))))"
proof -
  have "value_in x U v" "value_stored x (cs_db (rg_content st)) v"
    using assms unfolding registry_is_def values_are_def by blast+
  then show ?thesis by (intro finish_sim [OF assms(1)])
qed

lemma finish_Inl [simp]: "finish x env st (Inl e) = (Inl e, st)"
  by (simp add: finish_def)

text \<open>The new state after a transaction that adds at most one revision.\<close>

lemma registry_is_next:
  assumes R: "values_are x U a content" "cache_fits x (cs_db content) (rg_resident st')"
    and a': "versions_ok a'" "tables_are x a' st'" and c: "rg_content st' = content"
    and new: "\<forall>k p w. v_rev a' k = Some (p, w) \<longrightarrow> v_rev a k = Some (p, w) \<or> w = v"
    and v: "value_in x U v" "value_stored x (cs_db content) v"
  shows "registry_is x U a' st'"
  using assms unfolding registry_is_def values_are_def by metis

lemma add_entity_tables:
  assumes "tables_are x a st" and "v_head a (fst k, e) = None"
  shows "tables_are x (add_entity k e r v a)
    (st\<lparr>rg_content := content, rg_entities := ((fst k, e), r) # rg_entities st,
        rg_revisions := ((fst k, e, r), (None, ref_of x v)) # rg_revisions st,
        rg_aliases := (k, (e, Write)) # rg_aliases st\<rparr>)"
proof -
  have "(fst k, e) \<notin> fst ` set (rg_entities st)" using assms by (metis map_of_eq_None_iff tables_are_def)
  with assms show ?thesis by (auto simp: tables_are_def add_entity_def)
qed

lemma add_version_tables:
  assumes "tables_are x a st" and "v_head a (u, e) = Some h"
  shows "fst (update_head u e h r (rg_entities st)) = 1"
    and "tables_are x (add_version u e h r v a)
      (st\<lparr>rg_content := content, rg_entities := snd (update_head u e h r (rg_entities st)),
          rg_revisions := ((u, e, r), (Some h, ref_of x v)) # rg_revisions st\<rparr>)"
proof -
  from assms have hit: "distinct (map fst (rg_entities st))" "map_of (rg_entities st) (u, e) = Some h"
    by (simp_all add: tables_are_def)
  note up = update_head_hit [OF hit, of r]
  show "fst (update_head u e h r (rg_entities st)) = 1" by (rule up(1))
  show "tables_are x (add_version u e h r v a)
      (st\<lparr>rg_content := content, rg_entities := snd (update_head u e h r (rg_entities st)),
          rg_revisions := ((u, e, r), (Some h, ref_of x v)) # rg_revisions st\<rparr>)"
    using assms up(2,3) by (auto simp: tables_are_def add_version_def)
qed

lemma create_sim:
  assumes R: "registry_is x U a st" and v: "value_in x U v"
    and fresh: "fresh_entity a u e" "fresh_revision a u r"
  shows "(case spec_create x a u scp nm v e r of
      Inl err \<Rightarrow> create x u env st scp nm v e r = (Inl err, st)
    | Inr (s, a') \<Rightarrow> fst (create x u env st scp nm v e r) = Inr s
        \<and> registry_is x U a' (snd (create x u env st scp nm v e r)))"
proof -
  have T: "tables_are x a st" and ok: "versions_ok a" using R by (simp_all add: registry_is_def)
  obtain prep content where p: "prepare x (rg_content st) v = Inr prep" "prep_reference prep = ref_of x v"
    "persist x (rg_content st) prep = Inr content" "values_are x U a content"
    "value_stored x (cs_db content) v" "cache_fits x (cs_db content) (rg_resident st)"
    by (rule persist_sim [OF R v])
  show ?thesis
  proof (cases "named u scp nm")
    case (Inl err)
    then show ?thesis
      by (auto simp: spec_create_def create_def create_tx_def named_def and_then_def split: sum.splits prod.splits)
  next
    case (Inr k)
    then obtain kind i where scp: "scope_parts scp = Inr (kind, i)" "validate_name nm ''alias'' = Inr ()"
      and k: "k = (u, kind, i, nm)" by (auto simp: named_def and_then_Inr)
    show ?thesis
    proof (cases "v_alias a k")
      case (Some q)
      with Inr scp k p(1) show ?thesis
        by (simp add: spec_create_def create_def create_tx_def query_sim [OF T] spec_free_def)
    next
      case None
      let ?st = "st\<lparr>rg_content := content, rg_entities := ((u, e), r) # rg_entities st,
        rg_revisions := ((u, e, r), (None, ref_of x v)) # rg_revisions st, rg_aliases := (k, (e, Write)) # rg_aliases st\<rparr>"
      have rows: "map_of (rg_entities st) (u, e) = None" "map_of (rg_aliases st) k = None"
        using T fresh(1) None by (simp_all add: tables_are_def fresh_entity_def)
      have "create_tx x u st scp nm v e r = Inr ((e, r, None, ref_of x v), ?st)"
        using scp p(1-3) None rows
        by (simp add: create_tx_def query_sim [OF T] spec_free_def k insert_row_def insert_revision_fresh [OF T fresh(2)])
      moreover have "registry_is x U (add_entity k e r v a) ?st"
      proof (rule registry_is_next [OF p(4) _ _ _ _ _ v p(5)])
        show "versions_ok (add_entity k e r v a)" using fresh k by (intro add_entity_ok [OF ok]) simp_all
        show "tables_are x (add_entity k e r v a) ?st"
          using add_entity_tables [OF T, of k e r v content] fresh(1) k by (simp add: fresh_entity_def)
      qed (use p(6) in \<open>auto simp: add_entity_def split: if_splits\<close>)
      ultimately show ?thesis
        using Inr None finish_sim [of x U "add_entity k e r v a" ?st v env st e r None] v p(5)
        by (simp add: spec_create_def spec_free_def create_def)
    qed
  qed
qed

lemma grant_sim:
  assumes R: "registry_is x U a st"
  shows "(case spec_grant a u s1 n1 s2 n2 perm of
      Inl err \<Rightarrow> grant u st s1 n1 s2 n2 perm = Inl err
    | Inr a' \<Rightarrow> \<exists>st'. grant u st s1 n1 s2 n2 perm = Inr st' \<and> registry_is x U a' st')"
proof -
  have T: "tables_are x a st" and ok: "versions_ok a" using R by (simp_all add: registry_is_def)
  show ?thesis
  proof (cases "spec_grant a u s1 n1 s2 n2 perm")
    case (Inl err)
    then show ?thesis
      by (auto simp: spec_grant_def grant_def query_sim [OF T] and_then_def spec_free_def split: sum.splits prod.splits if_splits)
  next
    case (Inr a')
    then obtain k1 k2 e h where named: "named u s1 n1 = Inr k1" "named u s2 n2 = Inr k2"
      and w: "v_alias a k1 = Some (e, Write)" and head: "v_head a (u, e) = Some h" and free: "v_alias a k2 = None"
      and a': "a' = a\<lparr>v_alias := (v_alias a)(k2 \<mapsto> (e, perm))\<rparr>"
      by (rule spec_grant_cases)
    then obtain p1 i1 p2 i2 where parts: "scope_parts s1 = Inr (p1, i1)" "scope_parts s2 = Inr (p2, i2)"
      "validate_name n1 ''alias'' = Inr ()" "validate_name n2 ''alias'' = Inr ()"
      and k: "k1 = (u, p1, i1, n1)" "k2 = (u, p2, i2, n2)" by (auto simp: named_Inr)
    let ?st = "st\<lparr>rg_aliases := (k2, (e, perm)) # rg_aliases st\<rparr>"
    have row: "map_of (rg_aliases st) (u, p2, i2, n2) = None" using T free by (simp add: tables_are_def k)
    have wr: "writable_head u st p1 i1 n1 = Inr (e, h)"
      using w head by (simp add: query_sim [OF T] spec_writable_Inr k)
    have "require_free_alias u st p2 i2 n2 = Inr ()" using free by (simp add: query_sim [OF T] k)
    then have "grant u st s1 n1 s2 n2 perm = Inr ?st"
      using parts wr row by (simp add: grant_def insert_row_def k)
    moreover have "versions_ok a'"
    proof -
      have "alias_entities a'" using ok head unfolding versions_ok_def alias_entities_def a' k by auto
      then show ?thesis using ok
        by (simp add: versions_ok_def a' head_revisions_def revision_entities_def revisions_apart_def linear_history_def
            publications_kept_def)
    qed
    moreover have "tables_are x a' ?st" using T by (auto simp: tables_are_def a')
    ultimately show ?thesis using Inr R by (simp add: registry_is_def values_are_def a')
  qed
qed

lemma read_sim:
  assumes R: "registry_is x U a st"
  shows "(case spec_read x a u scp nm sel of
      Inl err \<Rightarrow> read_registry x u env st scp nm sel = (Inl err, st)
    | Inr s \<Rightarrow> fst (read_registry x u env st scp nm sel) = Inr s
        \<and> registry_is x U a (snd (read_registry x u env st scp nm sel)))"
proof -
  have T: "tables_are x a st" using R by (simp add: registry_is_def)
  show ?thesis
  proof (cases "spec_read x a u scp nm sel")
    case (Inl err)
    with T show ?thesis
      by (auto simp: spec_read_def read_registry_def named_def select_revision_def tables_are_def and_then_def Let_def
          split: sum.splits prod.splits option.splits)
  next
    case (Inr s)
    then obtain k e perm h p v where k: "named u scp nm = Inr k"
      and rows: "v_alias a k = Some (e, perm)" "v_head a (u, e) = Some h"
        "v_rev a (u, e, case sel of None \<Rightarrow> h | Some r \<Rightarrow> r) = Some (p, v)"
      and s: "s = snap_of x e (case sel of None \<Rightarrow> h | Some r \<Rightarrow> r) p v"
      by (rule spec_read_cases)
    from k obtain kind i where parts: "scope_parts scp = Inr (kind, i)" "validate_name nm ''alias'' = Inr ()"
      "k = (u, kind, i, nm)" by (auto simp: named_Inr)
    have "read_registry x u env st scp nm sel =
        finish x env st (Inr ((e, case sel of None \<Rightarrow> h | Some r \<Rightarrow> r, p, ref_of x v), st))"
      using T parts rows by (simp add: read_registry_def select_revision_def tables_are_def)
    with Inr s finish_rev_sim [OF R rows(3), of env st e "case sel of None \<Rightarrow> h | Some r \<Rightarrow> r" p]
    show ?thesis by simp
  qed
qed

lemma publish_sim:
  assumes R: "registry_is x U a st" and v: "value_in x U v" and fresh: "fresh_revision a u r"
  shows "(case spec_publish x a u scp nm expected v r of
      Inl err \<Rightarrow> publish x u env st scp nm expected v r = (Inl err, st)
    | Inr (s, a') \<Rightarrow> fst (publish x u env st scp nm expected v r) = Inr s
        \<and> registry_is x U a' (snd (publish x u env st scp nm expected v r)))"
proof -
  have T: "tables_are x a st" and ok: "versions_ok a" using R by (simp_all add: registry_is_def)
  obtain prep content where p: "prepare x (rg_content st) v = Inr prep" "prep_reference prep = ref_of x v"
    "persist x (rg_content st) prep = Inr content" "values_are x U a content"
    "value_stored x (cs_db content) v" "cache_fits x (cs_db content) (rg_resident st)"
    by (rule persist_sim [OF R v])
  show ?thesis
  proof (cases "spec_publish x a u scp nm expected v r")
    case (Inl err)
    with p(1) show ?thesis
      by (auto simp: spec_publish_def publish_def publish_tx_def named_def query_sim [OF T] and_then_def
          split: sum.splits prod.splits if_splits)
  next
    case (Inr q)
    obtain s a' where q: "q = (s, a')" by fastforce
    from Inr [unfolded q] obtain k e where k: "named u scp nm = Inr k" and w: "v_alias a k = Some (e, Write)"
      and head: "v_head a (u, e) = Some expected" and q': "s = snap_of x e r (Some expected) v"
        "a' = add_version u e expected r v a"
      by (rule spec_publish_cases)
    from k obtain kind i where parts: "scope_parts scp = Inr (kind, i)" "validate_name nm ''alias'' = Inr ()"
      "k = (u, kind, i, nm)" by (auto simp: named_Inr)
    have wr: "writable_head u st kind i nm = Inr (e, expected)"
      using w head parts(3) by (simp add: query_sim [OF T] spec_writable_Inr)
    note t = add_version_tables(1) [OF T head, of r] add_version_tables(2) [OF T head, of r v content]
    let ?st = "st\<lparr>rg_content := content, rg_entities := snd (update_head u e expected r (rg_entities st)),
          rg_revisions := ((u, e, r), (Some expected, ref_of x v)) # rg_revisions st\<rparr>"
    have "publish_tx x u st scp nm expected v r = Inr ((e, r, Some expected, ref_of x v), ?st)"
      using parts p(1-3) wr t(1)
      by (simp add: publish_tx_def insert_revision_fresh [OF T fresh] case_prod_beta)
    moreover have "registry_is x U (add_version u e expected r v a) ?st"
      by (rule registry_is_next [OF p(4) _ add_version_ok [OF ok head fresh] t(2) _ _ v p(5)])
        (use p(6) in \<open>auto simp: add_version_def split: if_splits\<close>)
    ultimately show ?thesis
      using Inr q q' finish_sim [of x U "add_version u e expected r v a" ?st v env st e r "Some expected"] v p(5)
      by (simp add: publish_def)
  qed
qed

lemma refs_apart:
  assumes "store_in x U content" and "value_in x U v" and "value_in x U w"
  shows "ref_of x v = ref_of x w \<longleftrightarrow> v = w"
  using content.names_apart [OF assms(1), of "[v, w]" v w] assms(2,3) by simp

lemma remember_ok:
  assumes "versions_ok a" and "v_rev a (fst k, e, r) = Some (expected, v)"
  shows "versions_ok (remember pid k e r expected a)"
proof -
  obtain u kind i n where k: "k = (u, kind, i, n)" by (cases k)
  have "publications_kept (remember pid k e r expected a)"
    using assms unfolding versions_ok_def publications_kept_def remember_def k by auto
  then show ?thesis using assms(1)
    by (simp add: versions_ok_def remember_def k alias_entities_def head_revisions_def revision_entities_def
        revisions_apart_def linear_history_def)
qed

lemma remember_tables:
  assumes "tables_are x a st"
  shows "tables_are x (remember pid (u, kind, i, n) e r expected a)
    (st\<lparr>rg_publications := ((u, pid), \<lparr>pub_scope_kind = kind, pub_scope_id = i, pub_alias = n, pub_entity = e,
       pub_revision = r, pub_expected = expected\<rparr>) # rg_publications st\<rparr>)"
  using assms by (auto simp: tables_are_def remember_def)

lemma prior_sim:
  assumes R: "registry_is x U a st"
  shows "prior_publication u st pid =
    map_option (\<lambda>p. (p, ref_of x (snd (the (v_rev a (u, pub_entity p, pub_revision p)))))) (v_pub a (u, pid))"
proof (cases "v_pub a (u, pid)")
  case (Some p)
  from R have "versions_ok a" by (simp add: registry_is_def)
  from versions_ok_pub [OF this Some] obtain v where "v_rev a (u, pub_entity p, pub_revision p) = Some (pub_expected p, v)"
    by blast
  with Some R show ?thesis by (simp add: prior_publication_def registry_is_def tables_are_def)
qed (use R in \<open>simp add: prior_publication_def registry_is_def tables_are_def\<close>)

lemma replay_sim:
  assumes R: "registry_is x U a st" and v: "value_in x U v" and p: "v_pub a (u, pid) = Some p"
  defines "prior \<equiv> (p, ref_of x (snd (the (v_rev a (u, pub_entity p, pub_revision p)))))"
  shows "(case spec_replay x a (u, kind, i, nm) expected v p of
      Inl err \<Rightarrow> replay_publication u st kind i nm expected (ref_of x v) prior = Inl err
    | Inr (s, a') \<Rightarrow> a' = a \<and> s = snap_of x (pub_entity p) (pub_revision p) expected v
        \<and> v_rev a (u, pub_entity p, pub_revision p) \<noteq> None
        \<and> map_option snd (v_rev a (u, pub_entity p, pub_revision p)) = Some v
        \<and> replay_publication u st kind i nm expected (ref_of x v) prior =
            Inr ((pub_entity p, pub_revision p, expected, ref_of x v), st))"
proof -
  have T: "tables_are x a st" and ok: "versions_ok a" and st: "store_in x U (rg_content st)"
    using R by (simp_all add: registry_is_def values_are_def)
  obtain w where w: "v_rev a (u, pub_entity p, pub_revision p) = Some (pub_expected p, w)"
    using versions_ok_pub [OF ok p] by blast
  then have "value_in x U w" using R unfolding registry_is_def values_are_def by blast
  note apart = refs_apart [OF st this v]
  let ?same = "(kind, i, nm) = (pub_scope_kind p, pub_scope_id p, pub_alias p) \<and> pub_expected p = expected \<and> w = v"
  have c: "replay_publication u st kind i nm expected (ref_of x v) prior =
      (if \<not> ?same then Inl PublicationMismatch
       else and_then (spec_writable a (u, kind, i, nm)) (\<lambda>(current, _).
         if current \<noteq> pub_entity p then Inl PublicationMismatch
         else Inr ((pub_entity p, pub_revision p, expected, ref_of x v), st)))"
    by (simp add: replay_publication_def prior_def w apart query_sim [OF T])
  have a: "spec_replay x a (u, kind, i, nm) expected v p =
      (if \<not> ?same then Inl PublicationMismatch
       else and_then (spec_writable a (u, kind, i, nm)) (\<lambda>(e, _).
         if e \<noteq> pub_entity p then Inl PublicationMismatch else Inr (snap_of x e (pub_revision p) expected v, a)))"
    by (simp add: spec_replay_def w)
  show ?thesis
  proof (cases ?same)
    case True
    then have "w = v" by blast
    with True w show ?thesis unfolding c a
      by (cases "spec_writable a (u, kind, i, nm)") (auto split: prod.splits)
  qed (unfold c a, simp)
qed

lemma publish_unique_new_sim:
  assumes R: "registry_is x U a st" and v: "value_in x U v"
    and parts: "scope_parts scp = Inr (kind, i)" "validate_name nm ''alias'' = Inr ()"
      "validate_name pid ''publication identity'' = Inr ()"
    and new: "v_pub a (u, pid) = None" and free: "v_alias a (u, kind, i, nm) = None"
    and fresh: "fresh_entity a u e" "fresh_revision a u r"
  defines "a' \<equiv> remember pid (u, kind, i, nm) e r None (add_entity (u, kind, i, nm) e r v a)"
  obtains st' where "publish_unique_tx x u st scp nm None v pid e r = Inr ((e, r, None, ref_of x v), st')"
    "registry_is x U a' st'" "value_stored x (cs_db (rg_content st')) v"
proof -
  let ?k = "(u, kind, i, nm)"
  have T: "tables_are x a st" and ok: "versions_ok a" using R by (simp_all add: registry_is_def)
  obtain prep content where p: "prepare x (rg_content st) v = Inr prep" "prep_reference prep = ref_of x v"
    "persist x (rg_content st) prep = Inr content" "values_are x U a content"
    "value_stored x (cs_db content) v" "cache_fits x (cs_db content) (rg_resident st)"
    by (rule persist_sim [OF R v])
  have prior: "prior_publication u st pid = None" by (simp add: prior_sim [OF R] new)
  have rows: "map_of (rg_entities st) (u, e) = None" "map_of (rg_aliases st) ?k = None"
    "map_of (rg_publications st) (u, pid) = None"
    using T fresh(1) free new by (simp_all add: tables_are_def fresh_entity_def)
  let ?st = "st\<lparr>rg_content := content, rg_entities := ((u, e), r) # rg_entities st,
      rg_revisions := ((u, e, r), (None, ref_of x v)) # rg_revisions st, rg_aliases := (?k, (e, Write)) # rg_aliases st\<rparr>"
  let ?st' = "?st\<lparr>rg_publications := ((u, pid), \<lparr>pub_scope_kind = kind, pub_scope_id = i, pub_alias = nm, pub_entity = e,
       pub_revision = r, pub_expected = None\<rparr>) # rg_publications ?st\<rparr>"
  have "publish_unique_tx x u st scp nm None v pid e r = Inr ((e, r, None, ref_of x v), ?st')"
    using parts p(1-3) prior rows free
    by (simp add: publish_unique_tx_def publication_entity_def query_sim [OF T] spec_free_def insert_row_def
        insert_revision_fresh [OF T fresh(2)])
  moreover have "registry_is x U a' ?st'"
  proof (rule registry_is_next [OF p(4) _ _ _ _ _ v p(5)])
    have "versions_ok (add_entity ?k e r v a)" using fresh by (intro add_entity_ok [OF ok]) simp_all
    then show "versions_ok a'" unfolding a'_def by (rule remember_ok) (simp add: add_entity_def)
    have "tables_are x (add_entity ?k e r v a) ?st"
      using add_entity_tables [OF T, of ?k e r v content] fresh(1) by (simp add: fresh_entity_def)
    from remember_tables [OF this] show "tables_are x a' ?st'" unfolding a'_def by simp
  qed (use p(6) in \<open>auto simp: a'_def remember_def add_entity_def split: if_splits\<close>)
  moreover have "value_stored x (cs_db (rg_content ?st')) v" using p(5) by simp
  ultimately show thesis using that by blast
qed

lemma publish_unique_next_sim:
  assumes R: "registry_is x U a st" and v: "value_in x U v"
    and parts: "scope_parts scp = Inr (kind, i)" "validate_name nm ''alias'' = Inr ()"
      "validate_name pid ''publication identity'' = Inr ()"
    and new: "v_pub a (u, pid) = None" and w: "v_alias a (u, kind, i, nm) = Some (e, Write)"
    and head: "v_head a (u, e) = Some h" and fresh: "fresh_revision a u r"
  defines "a' \<equiv> remember pid (u, kind, i, nm) e r (Some h) (add_version u e h r v a)"
  obtains st' where "publish_unique_tx x u st scp nm (Some h) v pid e' r = Inr ((e, r, Some h, ref_of x v), st')"
    "registry_is x U a' st'" "value_stored x (cs_db (rg_content st')) v"
proof -
  have T: "tables_are x a st" and ok: "versions_ok a" using R by (simp_all add: registry_is_def)
  obtain prep content where p: "prepare x (rg_content st) v = Inr prep" "prep_reference prep = ref_of x v"
    "persist x (rg_content st) prep = Inr content" "values_are x U a content"
    "value_stored x (cs_db content) v" "cache_fits x (cs_db content) (rg_resident st)"
    by (rule persist_sim [OF R v])
  have prior: "prior_publication u st pid = None" by (simp add: prior_sim [OF R] new)
  have rows: "map_of (rg_publications st) (u, pid) = None" using T new by (simp add: tables_are_def)
  have wr: "writable_head u st kind i nm = Inr (e, h)" using w head by (simp add: query_sim [OF T] spec_writable_Inr)
  note t = add_version_tables(1) [OF T head, of r] add_version_tables(2) [OF T head, of r v content]
  let ?st = "st\<lparr>rg_content := content, rg_entities := snd (update_head u e h r (rg_entities st)),
      rg_revisions := ((u, e, r), (Some h, ref_of x v)) # rg_revisions st\<rparr>"
  let ?st' = "?st\<lparr>rg_publications := ((u, pid), \<lparr>pub_scope_kind = kind, pub_scope_id = i, pub_alias = nm, pub_entity = e,
       pub_revision = r, pub_expected = Some h\<rparr>) # rg_publications ?st\<rparr>"
  have "publish_unique_tx x u st scp nm (Some h) v pid e' r = Inr ((e, r, Some h, ref_of x v), ?st')"
    using parts p(1-3) prior rows wr t(1)
    by (simp add: publish_unique_tx_def publication_entity_def insert_row_def insert_revision_fresh [OF T fresh] case_prod_beta)
  moreover have "registry_is x U a' ?st'"
  proof (rule registry_is_next [OF p(4) _ _ _ _ _ v p(5)])
    show "versions_ok a'" unfolding a'_def
      by (rule remember_ok [OF add_version_ok [OF ok head fresh]]) (simp add: add_version_def)
    from remember_tables [OF t(2)] show "tables_are x a' ?st'" unfolding a'_def by simp
  qed (use p(6) in \<open>auto simp: a'_def remember_def add_version_def split: if_splits\<close>)
  moreover have "value_stored x (cs_db (rg_content ?st')) v" using p(5) by simp
  ultimately show thesis using that by blast
qed

lemma publish_unique_sim:
  assumes R: "registry_is x U a st" and v: "value_in x U v"
    and fresh: "fresh_entity a u e" "fresh_revision a u r"
  shows "(case spec_publish_unique x a u scp nm expected v pid e r of
      Inl err \<Rightarrow> publish_unique x u env st scp nm expected v pid e r = (Inl err, st)
    | Inr (s, a') \<Rightarrow> fst (publish_unique x u env st scp nm expected v pid e r) = Inr s
        \<and> registry_is x U a' (snd (publish_unique x u env st scp nm expected v pid e r)))"
proof -
  have T: "tables_are x a st" using R by (simp add: registry_is_def)
  obtain prep where p: "prepare x (rg_content st) v = Inr prep" "prep_reference prep = ref_of x v"
    by (rule persist_sim [OF R v])
  show ?thesis
  proof (cases "and_then (named u scp nm) (\<lambda>k. and_then (validate_name pid ''publication identity'') (\<lambda>_. Inr k))")
    case (Inl err)
    then show ?thesis
      by (auto simp: spec_publish_unique_def publish_unique_def publish_unique_tx_def named_def and_then_def
          split: sum.splits prod.splits)
  next
    case (Inr k)
    then have k: "named u scp nm = Inr k" and pid: "validate_name pid ''publication identity'' = Inr ()"
      by (auto simp: and_then_Inr)
    from k obtain kind i where parts: "scope_parts scp = Inr (kind, i)" "validate_name nm ''alias'' = Inr ()"
      and kk: "k = (u, kind, i, nm)" by (auto simp: named_Inr)
    show ?thesis
    proof (cases "v_pub a (u, pid)")
      case (Some pb)
      let ?prior = "(pb, ref_of x (snd (the (v_rev a (u, pub_entity pb, pub_revision pb)))))"
      have spec: "spec_publish_unique x a u scp nm expected v pid e r = spec_replay x a k expected v pb"
        using k pid Some by (simp add: spec_publish_unique_def)
      have impl: "publish_unique x u env st scp nm expected v pid e r =
          finish x env st (replay_publication u st kind i nm expected (ref_of x v) ?prior)"
        using parts pid p Some by (simp add: publish_unique_def publish_unique_tx_def prior_sim [OF R])
      note rply = replay_sim [OF R v Some, of kind i nm expected]
      show ?thesis
      proof (cases "spec_replay x a k expected v pb")
        case (Inl err)
        with rply show ?thesis unfolding spec impl by (simp add: kk)
      next
        case (Inr q)
        obtain s a' where q: "q = (s, a')" by fastforce
        with Inr rply have a': "a' = a" "s = snap_of x (pub_entity pb) (pub_revision pb) expected v"
          "map_option snd (v_rev a (u, pub_entity pb, pub_revision pb)) = Some v"
          "replay_publication u st kind i nm expected (ref_of x v) ?prior =
            Inr ((pub_entity pb, pub_revision pb, expected, ref_of x v), st)" by (simp_all add: kk)
        then obtain p' where "v_rev a (u, pub_entity pb, pub_revision pb) = Some (p', v)" by auto
        from finish_rev_sim [OF R this] Inr q a' show ?thesis unfolding spec impl by simp
      qed
    next
      case None
      note new = None
      have prior: "prior_publication u st pid = None" by (simp add: prior_sim [OF R] None)
      show ?thesis
      proof (cases expected)
        case None
        show ?thesis
        proof (cases "v_alias a k")
          case None
          then obtain st' where "publish_unique_tx x u st scp nm None v pid e r = Inr ((e, r, None, ref_of x v), st')"
            "registry_is x U (remember pid k e r None (add_entity k e r v a)) st'"
            "value_stored x (cs_db (rg_content st')) v"
            using publish_unique_new_sim [OF R v parts pid new _ fresh] unfolding kk by blast
          with finish_sim [of x U _ st' v env st e r None] v k pid new \<open>expected = None\<close> None show ?thesis
            by (simp add: spec_publish_unique_def publish_unique_def spec_free_def)
        next
          case (Some q)
          with k kk pid new \<open>expected = None\<close> parts p prior show ?thesis
            by (simp add: spec_publish_unique_def publish_unique_def publish_unique_tx_def publication_entity_def
                query_sim [OF T] spec_free_def)
        qed
      next
        case (Some h)
        show ?thesis
        proof (cases "\<exists>e0. spec_writable a k = Inr (e0, h)")
          case True
          then obtain e0 where e0: "v_alias a k = Some (e0, Write)" "v_head a (u, e0) = Some h"
            "spec_writable a k = Inr (e0, h)" by (auto simp: spec_writable_Inr kk)
          then obtain st' where "publish_unique_tx x u st scp nm (Some h) v pid e r = Inr ((e0, r, Some h, ref_of x v), st')"
            "registry_is x U (remember pid k e0 r (Some h) (add_version u e0 h r v a)) st'"
            "value_stored x (cs_db (rg_content st')) v"
            using publish_unique_next_sim [OF R v parts pid new _ e0(2) fresh(2)] unfolding kk by blast
          with finish_sim [of x U _ st' v env st e0 r "Some h"] v k pid new Some e0(3) show ?thesis
            by (simp add: spec_publish_unique_def publish_unique_def)
        next
          case False
          with k kk pid new Some parts p prior show ?thesis
            by (cases "spec_writable a k") (auto simp: spec_publish_unique_def publish_unique_def publish_unique_tx_def
                publication_entity_def query_sim [OF T])
        qed
      qed
    qed
  qed
qed

subsection \<open>Steps\<close>

text \<open>
  The operations as one step relation on states. An operation carries the identifiers its UUIDs
  will be and, for the hydration, the state of the weak references at that time.
\<close>

datatype registry_op =
    CreateOp string scope string json string string
  | GrantOp string scope string scope string permission
  | ReadOp string scope string "string option"
  | PublishOp string scope string string json string
  | PublishUniqueOp string scope string "string option" json string string string

fun registry_step :: "codec \<Rightarrow> registry \<Rightarrow> resident_env \<times> registry_op \<Rightarrow>
    (data_error, snapshot option) result \<times> registry" where
  "registry_step x st (env, CreateOp u scp nm v e r) =
     map_prod (map_sum id Some) id (create x u env st scp nm v e r)"
| "registry_step x st (env, GrantOp u s1 n1 s2 n2 perm) =
     (case grant u st s1 n1 s2 n2 perm of Inl err \<Rightarrow> (Inl err, st) | Inr st' \<Rightarrow> (Inr None, st'))"
| "registry_step x st (env, ReadOp u scp nm sel) =
     map_prod (map_sum id Some) id (read_registry x u env st scp nm sel)"
| "registry_step x st (env, PublishOp u scp nm expected v r) =
     map_prod (map_sum id Some) id (publish x u env st scp nm expected v r)"
| "registry_step x st (env, PublishUniqueOp u scp nm expected v pid e r) =
     map_prod (map_sum id Some) id (publish_unique x u env st scp nm expected v pid e r)"

definition outcome :: "versions \<Rightarrow> (data_error, snapshot \<times> versions) result \<Rightarrow>
    (data_error, snapshot option) result \<times> versions" where
  "outcome a r = (case r of Inl e \<Rightarrow> (Inl e, a) | Inr (s, a') \<Rightarrow> (Inr (Some s), a'))"

fun spec_step :: "codec \<Rightarrow> versions \<Rightarrow> resident_env \<times> registry_op \<Rightarrow>
    (data_error, snapshot option) result \<times> versions" where
  "spec_step x a (env, CreateOp u scp nm v e r) = outcome a (spec_create x a u scp nm v e r)"
| "spec_step x a (env, GrantOp u s1 n1 s2 n2 perm) =
     (case spec_grant a u s1 n1 s2 n2 perm of Inl err \<Rightarrow> (Inl err, a) | Inr a' \<Rightarrow> (Inr None, a'))"
| "spec_step x a (env, ReadOp u scp nm sel) = (map_sum id Some (spec_read x a u scp nm sel), a)"
| "spec_step x a (env, PublishOp u scp nm expected v r) = outcome a (spec_publish x a u scp nm expected v r)"
| "spec_step x a (env, PublishUniqueOp u scp nm expected v pid e r) =
     outcome a (spec_publish_unique x a u scp nm expected v pid e r)"

text \<open>UUIDs are fresh and values stay within the universe of bodies.\<close>

fun op_fresh :: "versions \<Rightarrow> registry_op \<Rightarrow> bool" where
  "op_fresh a (CreateOp u scp nm v e r) = (fresh_entity a u e \<and> fresh_revision a u r)"
| "op_fresh a (PublishOp u scp nm expected v r) = fresh_revision a u r"
| "op_fresh a (PublishUniqueOp u scp nm expected v pid e r) = (fresh_entity a u e \<and> fresh_revision a u r)"
| "op_fresh a op = True"

fun op_value :: "registry_op \<Rightarrow> json option" where
  "op_value (CreateOp u scp nm v e r) = Some v"
| "op_value (PublishOp u scp nm expected v r) = Some v"
| "op_value (PublishUniqueOp u scp nm expected v pid e r) = Some v"
| "op_value op = None"

definition op_ok :: "codec \<Rightarrow> json set \<Rightarrow> versions \<Rightarrow> resident_env \<times> registry_op \<Rightarrow> bool" where
  "op_ok x U a op \<longleftrightarrow> op_fresh a (snd op) \<and> (\<forall>v. op_value (snd op) = Some v \<longrightarrow> value_in x U v)"

lemma outcome_sim:
  assumes "case r of Inl err \<Rightarrow> c = (Inl err, st)
    | Inr (s, a') \<Rightarrow> fst c = Inr s \<and> registry_is x U a' (snd c)" and "registry_is x U a st"
  shows "fst (map_prod (map_sum id Some) id c) = fst (outcome a r)
    \<and> registry_is x U (snd (outcome a r)) (snd (map_prod (map_sum id Some) id c))"
  using assms by (auto simp: outcome_def split: sum.splits prod.splits)

interpretation registry: simulation "registry_is x U" "op_ok x U" "spec_step x" "registry_step x"
  for x :: codec and U :: "json set"
proof unfold_locales
  fix a st eop assume R: "registry_is x U a st" and adm: "op_ok x U a eop"
  obtain env op where eop: "eop = (env, op)" by fastforce
  show "fst (registry_step x st eop) = fst (spec_step x a eop)
    \<and> registry_is x U (snd (spec_step x a eop)) (snd (registry_step x st eop))"
  proof (cases op)
    case (CreateOp u scp n v e r)
    with adm eop have "value_in x U v" "fresh_entity a u e" "fresh_revision a u r" by (simp_all add: op_ok_def)
    from outcome_sim [OF create_sim [OF R this, where scp = scp and nm = n and env = env] R] show ?thesis by (simp add: eop CreateOp)
  next
    case (GrantOp u s1 n1 s2 n2 perm)
    then show ?thesis using grant_sim [OF R, of u s1 n1 s2 n2 perm] R by (auto simp: eop split: sum.splits)
  next
    case (ReadOp u scp n sel)
    then show ?thesis using read_sim [OF R, where u = u and scp = scp and nm = n and sel = sel and env = env] R by (auto simp: eop split: sum.splits)
  next
    case (PublishOp u scp n expected v r)
    with adm eop have "value_in x U v" "fresh_revision a u r" by (simp_all add: op_ok_def)
    from outcome_sim [OF publish_sim [OF R this, where scp = scp and nm = n and expected = expected and env = env] R] show ?thesis by (simp add: eop PublishOp)
  next
    case (PublishUniqueOp u scp n expected v pid e r)
    with adm eop have "value_in x U v" "fresh_entity a u e" "fresh_revision a u r" by (simp_all add: op_ok_def)
    from outcome_sim [OF publish_unique_sim [OF R this, where scp = scp and nm = n and expected = expected and pid = pid and env = env] R]
    show ?thesis by (simp add: eop PublishUniqueOp)
  qed
qed

end
