(* ===== verification/Zf_Registry_Props.thy ===== *)
theory Zf_Registry_Props
  imports Zf_Registry_Sim
begin

text \<open>
  What the data registry of \<open>zf-storage/src/data.rs\<close> guarantees over whole runs: referential
  integrity, immutable revisions, compare-and-swap publication, idempotent retries, and that
  write access to an entity only comes from write access to it.
\<close>

subsection \<open>Versions only grow\<close>

definition versions_le :: "versions \<Rightarrow> versions \<Rightarrow> bool" where
  "versions_le a b \<longleftrightarrow> v_alias a \<subseteq>\<^sub>m v_alias b \<and> v_rev a \<subseteq>\<^sub>m v_rev b \<and> v_pub a \<subseteq>\<^sub>m v_pub b
     \<and> dom (v_head a) \<subseteq> dom (v_head b)"

lemma versions_le_refl [simp]: "versions_le a a"
  by (simp add: versions_le_def)

lemma versions_le_trans: "versions_le a b \<Longrightarrow> versions_le b c \<Longrightarrow> versions_le a c"
  unfolding versions_le_def by (blast intro: map_le_trans)

lemma map_le_apply: "m \<subseteq>\<^sub>m n \<Longrightarrow> m k = Some v \<Longrightarrow> n k = Some v"
  by (metis domI map_le_def)

lemma versions_leD:
  assumes "versions_le a b"
  shows "v_alias a k = Some p \<Longrightarrow> v_alias b k = Some p"
    and "v_rev a q = Some w \<Longrightarrow> v_rev b q = Some w"
    and "v_pub a j = Some pb \<Longrightarrow> v_pub b j = Some pb"
    and "v_head a i = Some h \<Longrightarrow> \<exists>h'. v_head b i = Some h'"
  using assms map_le_apply unfolding versions_le_def by (metis, metis, metis, blast)

lemma map_upd_le: "m k = None \<Longrightarrow> m \<subseteq>\<^sub>m m(k \<mapsto> v)"
  by (auto simp: map_le_def)

lemma add_entity_le:
  assumes "fresh_entity a (fst k) e" and "fresh_revision a (fst k) r" and "v_alias a k = None"
  shows "versions_le a (add_entity k e r v a)"
  using assms by (auto simp: versions_le_def add_entity_def fresh_entity_def fresh_revision_def intro!: map_upd_le)

lemma add_version_le: "fresh_revision a u r \<Longrightarrow> versions_le a (add_version u e h r v a)"
  by (auto simp: versions_le_def add_version_def fresh_revision_def intro!: map_upd_le)

lemma remember_le: "v_pub a (fst k, pid) = None \<Longrightarrow> versions_le a (remember pid k e r expected a)"
  by (cases k) (auto simp: versions_le_def remember_def intro!: map_upd_le)

lemma spec_publish_unique_cases:
  assumes "spec_publish_unique x a u scp nm expected v pid e r = Inr (s, a')"
  obtains (Replay) k p where "named u scp nm = Inr k" "v_pub a (u, pid) = Some p" "spec_replay x a k expected v p = Inr (s, a')"
  | (New) k where "named u scp nm = Inr k" "v_pub a (u, pid) = None" "expected = None" "v_alias a k = None"
      "s = snap_of x e r None v" "a' = remember pid k e r None (add_entity k e r v a)"
  | (Next) k e0 h where "named u scp nm = Inr k" "v_pub a (u, pid) = None" "expected = Some h"
      "v_alias a k = Some (e0, Write)" "v_head a (u, e0) = Some h"
      "s = snap_of x e0 r (Some h) v" "a' = remember pid k e0 r (Some h) (add_version u e0 h r v a)"
proof -
  from assms obtain k where k: "named u scp nm = Inr k" "validate_name pid ''publication identity'' = Inr ()"
    by (auto simp: spec_publish_unique_def and_then_Inr)
  then have ku: "fst k = u" by (auto simp: named_Inr)
  show thesis
  proof (cases "v_pub a (u, pid)")
    case (Some p)
    with assms k have "spec_replay x a k expected v p = Inr (s, a')" by (simp add: spec_publish_unique_def)
    with k(1) Some show thesis by (rule Replay)
  next
    case None
    note new = this
    show thesis
    proof (cases expected)
      case None
      with assms k new have "and_then (spec_free a k) (\<lambda>_. Inr (snap_of x e r None v,
          remember pid k e r None (add_entity k e r v a))) = Inr (s, a')" by (simp add: spec_publish_unique_def)
      then have "v_alias a k = None" "s = snap_of x e r None v" "a' = remember pid k e r None (add_entity k e r v a)"
        by (auto simp: and_then_Inr)
      with k(1) new None show thesis by (rule New)
    next
      case (Some h)
      with assms k new have w: "and_then (spec_writable a k) (\<lambda>(e, actual).
          if actual \<noteq> h then Inl (Conflict h actual)
          else Inr (snap_of x e r (Some h) v, remember pid k e r (Some h) (add_version u e h r v a))) = Inr (s, a')"
        by (simp add: spec_publish_unique_def)
      then obtain e0 actual where e0: "spec_writable a k = Inr (e0, actual)"
        by (cases "spec_writable a k") auto
      have "actual = h" using w unfolding e0 by (simp split: if_splits)
      with w e0 have "s = snap_of x e0 r (Some h) v" "a' = remember pid k e0 r (Some h) (add_version u e0 h r v a)"
        by simp_all
      moreover have "v_alias a k = Some (e0, Write)" "v_head a (u, e0) = Some h"
        using e0 \<open>actual = h\<close> by (simp_all add: spec_writable_Inr ku)
      ultimately show thesis using Next [OF k(1) new Some] by blast
    qed
  qed
qed

lemma named_fst: "named u scp nm = Inr k \<Longrightarrow> fst k = u"
  by (auto simp: named_Inr)

lemma spec_step_le:
  assumes "op_fresh a (snd op)"
  shows "versions_le a (snd (spec_step x a op))"
proof (cases op)
  case (Pair env o')
  show ?thesis
  proof (cases o')
    case (CreateOp u scp n v e r)
    show ?thesis
    proof (cases "spec_create x a u scp n v e r")
      case (Inr q)
      obtain s a' where q: "q = (s, a')" by fastforce
      from Inr [unfolded q] obtain k where "named u scp n = Inr k" "v_alias a k = None" "a' = add_entity k e r v a"
        by (rule spec_create_cases)
      with named_fst [of u scp n k] assms show ?thesis
        using Inr q by (simp add: Pair CreateOp outcome_def add_entity_le)
    qed (simp add: Pair CreateOp outcome_def)
  next
    case (GrantOp u s1 n1 s2 n2 perm)
    show ?thesis
    proof (cases "spec_grant a u s1 n1 s2 n2 perm")
      case (Inr a')
      then obtain k2 e where "v_alias a k2 = None" "a' = a\<lparr>v_alias := (v_alias a)(k2 \<mapsto> (e, perm))\<rparr>"
        by (rule spec_grant_cases)
      with Inr show ?thesis by (simp add: Pair GrantOp versions_le_def map_upd_le)
    qed (simp add: Pair GrantOp)
  next
    case (PublishOp u scp n expected v r)
    show ?thesis
    proof (cases "spec_publish x a u scp n expected v r")
      case (Inr q)
      obtain s a' where q: "q = (s, a')" by fastforce
      from Inr [unfolded q] obtain k e where "a' = add_version u e expected r v a" by (rule spec_publish_cases)
      with Inr q assms show ?thesis by (simp add: Pair PublishOp outcome_def add_version_le)
    qed (simp add: Pair PublishOp outcome_def)
  next
    case (PublishUniqueOp u scp n expected v pid e r)
    show ?thesis
    proof (cases "spec_publish_unique x a u scp n expected v pid e r")
      case (Inr q)
      obtain s a' where q: "q = (s, a')" by fastforce
      from Inr [unfolded q] have "versions_le a a'"
      proof (cases rule: spec_publish_unique_cases)
        case (Replay k p)
        then have "a' = a" by (elim spec_replay_cases)
        then show ?thesis by simp
      next
        case (New k)
        then have "fst k = u" by (simp add: named_fst)
        with New assms have "versions_le a (add_entity k e r v a)" by (intro add_entity_le) (simp_all add: Pair PublishUniqueOp)
        moreover have "versions_le (add_entity k e r v a) a'"
          using New \<open>fst k = u\<close> by (simp add: remember_le add_entity_def)
        ultimately show ?thesis by (rule versions_le_trans)
      next
        case (Next k e0 h)
        then have "fst k = u" by (simp add: named_fst)
        have "versions_le a (add_version u e0 h r v a)" using assms by (intro add_version_le) (simp add: Pair PublishUniqueOp)
        moreover have "versions_le (add_version u e0 h r v a) a'"
          using Next \<open>fst k = u\<close> by (simp add: remember_le add_version_def)
        ultimately show ?thesis by (rule versions_le_trans)
      qed
      with Inr q show ?thesis by (simp add: Pair PublishUniqueOp outcome_def)
    qed (simp add: Pair PublishUniqueOp outcome_def)
  qed (simp add: Pair)
qed

lemma run_le:
  assumes "along (op_ok x U) (spec_step x) a ops"
  shows "versions_le a (snd (trace (spec_step x) a ops))"
  by (rule trace_invariant [where I = "versions_le a", OF versions_le_refl _ assms])
    (auto simp: op_ok_def intro: versions_le_trans spec_step_le)

subsection \<open>Results of single operations\<close>

lemma read_result:
  assumes "registry_is x U a st"
  shows "fst (read_registry x u env st scp nm sel) = spec_read x a u scp nm sel"
  using read_sim [OF assms, where u = u and scp = scp and nm = nm and sel = sel and env = env]
  by (cases "spec_read x a u scp nm sel") simp_all

lemma publish_result:
  assumes "registry_is x U a st" and "value_in x U v" and "fresh_revision a u r"
  shows "fst (publish x u env st scp nm expected v r) = map_sum id fst (spec_publish x a u scp nm expected v r)"
    and "spec_publish x a u scp nm expected v r = Inl err \<Longrightarrow> snd (publish x u env st scp nm expected v r) = st"
    and "spec_publish x a u scp nm expected v r = Inr (s, a') \<Longrightarrow> registry_is x U a' (snd (publish x u env st scp nm expected v r))"
  using publish_sim [OF assms, where scp = scp and nm = nm and expected = expected and env = env]
  by (cases "spec_publish x a u scp nm expected v r"; auto)+


lemma empty_registry_is: "store_in x U content \<Longrightarrow> registry_is x U no_versions (empty_registry content)"
  using no_versions_ok by (simp add: registry_is_def tables_are_def values_are_def cache_fits_def no_versions_def
      empty_registry_def empty_cache_def)

subsection \<open>An example\<close>

definition example_env :: resident_env where
  "example_env = \<lparr>re_alive = (\<lambda>_. False), re_held = (\<lambda>_. False), re_capacity = 0\<rparr>"

definition example_ops :: "(resident_env \<times> registry_op) list" where
  "example_ops =
     [(example_env, CreateOp ''u'' RuntimeScope ''a'' JNull ''e'' ''r1''),
      (example_env, GrantOp ''u'' RuntimeScope ''a'' (FlowScope ''f'') ''b'' Read),
      (example_env, PublishOp ''u'' RuntimeScope ''a'' ''r1'' (JBool True) ''r2'')]"

abbreviation example_registry :: registry where
  "example_registry \<equiv> empty_registry empty_store"

lemma example_registry_is: "registry_is example_codec example_universe no_versions example_registry"
  by (rule empty_registry_is [OF example_store_in])

lemma registry_names [simp]:
  "validate_name ''a'' k = Inr ()" "validate_name ''b'' k = Inr ()" "validate_name ''f'' k = Inr ()"
  "validate_name ''p'' k = Inr ()"
proof -
  have "\<not> blank ''a''" "\<not> blank ''b''" "\<not> blank ''f''" "\<not> blank ''p''" by code_simp+
  then show "validate_name ''a'' k = Inr ()" "validate_name ''b'' k = Inr ()" "validate_name ''f'' k = Inr ()"
    "validate_name ''p'' k = Inr ()" by (simp_all add: validate_name_def)
qed

lemma registry_named [simp]:
  "named u RuntimeScope ''a'' = Inr (u, ''runtime'', [], ''a'')"
  "named u (FlowScope ''f'') ''b'' = Inr (u, ''flow'', ''f'', ''b'')"
  by (simp_all add: named_def)

lemmas example_eval = example_ops_def op_ok_def no_versions_def outcome_def spec_create_def spec_grant_def
  spec_publish_def spec_free_def spec_writable_def add_entity_def add_version_def fresh_entity_def fresh_revision_def
  example_values

lemma example_along: "along (op_ok example_codec example_universe) (spec_step example_codec) no_versions example_ops"
  by (simp add: example_eval)

subsection \<open>Properties\<close>

text \<open>
  C22. Tables, content store and cache together refine the versioned map: on every run of
  creates, grants, reads and publications the registry returns what the map returns, whatever
  the weak references of the cache do, and afterwards every alias reads, at its head and at
  every older revision, as in the map.
\<close>

theorem registry_runs:
  assumes "registry_is x U a st" and "along (op_ok x U) (spec_step x) a ops"
  shows "fst (trace (registry_step x) st ops) = fst (trace (spec_step x) a ops)
    \<and> (\<forall>u env scp nm sel. fst (read_registry x u env (snd (trace (registry_step x) st ops)) scp nm sel) =
         spec_read x (snd (trace (spec_step x) a ops)) u scp nm sel)"
  using registry.refines [OF assms] read_result by blast

theorem registry_runs_witness:
  "fst (trace (registry_step example_codec) example_registry example_ops) =
     fst (trace (spec_step example_codec) no_versions example_ops)
   \<and> (\<forall>u env scp nm sel.
        fst (read_registry example_codec u env (snd (trace (registry_step example_codec) example_registry example_ops)) scp nm sel) =
        spec_read example_codec (snd (trace (spec_step example_codec) no_versions example_ops)) u scp nm sel)"
  by (rule registry_runs [OF example_registry_is example_along])

text \<open>Referential integrity of the tables and linear history of the entities.\<close>

definition tables_sound :: "registry \<Rightarrow> bool" where
  "tables_sound st \<longleftrightarrow>
     (\<forall>u s e p. map_of (rg_aliases st) (u, s) = Some (e, p) \<longrightarrow> map_of (rg_entities st) (u, e) \<noteq> None)
     \<and> (\<forall>u e h. map_of (rg_entities st) (u, e) = Some h \<longrightarrow> map_of (rg_revisions st) (u, e, h) \<noteq> None)
     \<and> (\<forall>u e r p c. map_of (rg_revisions st) (u, e, r) = Some (p, c) \<longrightarrow>
          map_of (rg_entities st) (u, e) \<noteq> None \<and> map_of (db_content (cs_db (rg_content st))) c \<noteq> None)
     \<and> (\<forall>u e r q c. map_of (rg_revisions st) (u, e, r) = Some (Some q, c) \<longrightarrow>
          map_of (rg_revisions st) (u, e, q) \<noteq> None \<and> map_of (rg_entities st) (u, e) \<noteq> Some q
          \<and> (\<forall>r' c'. map_of (rg_revisions st) (u, e, r') = Some (Some q, c') \<longrightarrow> r' = r))
     \<and> (\<forall>u pid p. map_of (rg_publications st) (u, pid) = Some p \<longrightarrow>
          (\<exists>c. map_of (rg_revisions st) (u, pub_entity p, pub_revision p) = Some (pub_expected p, c)))"

lemma value_row:
  assumes "value_stored x db v"
  shows "map_of (db_content db) (ref_of x v) \<noteq> None"
proof -
  obtain b where "b \<in> set (blobs_of x v)" "ref_of x v = reference x b" by (rule root_body)
  with assms show ?thesis using stored_row [of x db "ref_of x v" b] by (simp add: value_stored_def)
qed

lemma registry_is_sound:
  assumes R: "registry_is x U a st"
  shows "tables_sound st"
proof -
  have ok: "versions_ok a" and T: "tables_are x a st" using R by (simp_all add: registry_is_def)
  have revs: "map_of (rg_revisions st) k = Some (p, c) \<longleftrightarrow> (\<exists>v. v_rev a k = Some (p, v) \<and> c = ref_of x v)" for k p c
    using T by (auto simp: tables_are_def)
  have none: "map_of (rg_revisions st) k = None \<longleftrightarrow> v_rev a k = None" for k using T by (auto simp: tables_are_def)
  have tabs: "map_of (rg_aliases st) = v_alias a" "map_of (rg_entities st) = v_head a" "map_of (rg_publications st) = v_pub a"
    using T by (simp_all add: tables_are_def)
  have row: "map_of (db_content (cs_db (rg_content st))) (ref_of x v) \<noteq> None" if "v_rev a k = Some (p, v)" for k p v
    using R that value_row unfolding registry_is_def values_are_def by blast
  show ?thesis
    unfolding tables_sound_def tabs
  proof (intro conjI allI impI)
    show "v_head a (u, e) \<noteq> None" if "v_alias a (u, s) = Some (e, p)" for u s e p
      by (rule versions_ok_alias [OF ok that])
    show "map_of (rg_revisions st) (u, e, h) \<noteq> None" if "v_head a (u, e) = Some h" for u e h
      unfolding none by (rule versions_ok_head [OF ok that])
    show "\<exists>c. map_of (rg_revisions st) (u, pub_entity p, pub_revision p) = Some (pub_expected p, c)"
      if "v_pub a (u, pid) = Some p" for u pid p
      unfolding revs using versions_ok_pub [OF ok that] by blast
    fix u e r c
    show "v_head a (u, e) \<noteq> None" if rw: "map_of (rg_revisions st) (u, e, r) = Some (p, c)" for p
    proof -
      from rw have "v_rev a (u, e, r) \<noteq> None" unfolding revs by force
      then show ?thesis by (rule versions_ok_entity [OF ok])
    qed
    show "map_of (db_content (cs_db (rg_content st))) c \<noteq> None" if rw: "map_of (rg_revisions st) (u, e, r) = Some (p, c)" for p
      using rw row unfolding revs by blast
    fix q assume "map_of (rg_revisions st) (u, e, r) = Some (Some q, c)"
    then obtain v where v: "v_rev a (u, e, r) = Some (Some q, v)" unfolding revs by blast
    then have lin: "v_rev a (u, e, q) \<noteq> None" "\<forall>r' v'. v_rev a (u, e, r') = Some (Some q, v') \<longrightarrow> r' = r"
      using ok unfolding versions_ok_def linear_history_def by blast+
    show "map_of (rg_revisions st) (u, e, q) \<noteq> None" unfolding none by (rule lin(1))
    show "v_head a (u, e) \<noteq> Some q" by (rule versions_ok_leaf [OF ok v])
    show "r' = r" if "map_of (rg_revisions st) (u, e, r') = Some (Some q, c')" for r' c'
      using that lin(2) unfolding revs by blast
  qed
qed

text \<open>
  C23. Every run keeps the tables sound: aliases name entities, heads and parents are revisions
  of their entity, the contents of revisions are stored, remembered publications name their
  revision; and every entity has a linear history, in which no revision has two successors and
  the head has none.
\<close>

theorem registry_integrity:
  assumes "registry_is x U a st" and "along (op_ok x U) (spec_step x) a ops"
  shows "tables_sound (snd (trace (registry_step x) st ops))"
  using registry.refines [OF assms] registry_is_sound by blast

theorem registry_integrity_witness:
  "tables_sound (snd (trace (registry_step example_codec) example_registry example_ops))"
  by (rule registry_integrity [OF example_registry_is example_along])

text \<open>
  C24. Revisions are immutable: a revision read once through an alias reads the same, parent,
  content reference and value, after every later run.
\<close>

theorem revision_immutable:
  assumes R: "registry_is x U a st" and run: "along (op_ok x U) (spec_step x) a ops"
    and s: "fst (read_registry x u env st scp nm (Some r)) = Inr s"
  shows "fst (read_registry x u env' (snd (trace (registry_step x) st ops)) scp nm (Some r)) = Inr s"
proof -
  let ?b = "snd (trace (spec_step x) a ops)"
  note le = versions_leD [OF run_le [OF run]]
  from s have "spec_read x a u scp nm (Some r) = Inr s" by (simp add: read_result [OF R])
  then obtain k e perm h p v where k: "named u scp nm = Inr k" "v_alias a k = Some (e, perm)" "v_head a (u, e) = Some h"
    and v: "v_rev a (u, e, case Some r of None \<Rightarrow> h | Some r \<Rightarrow> r) = Some (p, v)"
      "s = snap_of x e (case Some r of None \<Rightarrow> h | Some r \<Rightarrow> r) p v"
    by (rule spec_read_cases)
  obtain h' where "v_head ?b (u, e) = Some h'" using le(4) [OF k(3)] by blast
  with le(1) [OF k(2)] le(2) [OF v(1)] k(1) v(2) have "spec_read x ?b u scp nm (Some r) = Inr s"
    by (simp add: spec_read_def)
  moreover have "registry_is x U ?b (snd (trace (registry_step x) st ops))" using registry.refines [OF R run] by blast
  ultimately show ?thesis by (simp add: read_result)
qed

definition example_state :: "(resident_env \<times> registry_op) list \<Rightarrow> registry" where
  "example_state ops = snd (trace (registry_step example_codec) example_registry ops)"

definition example_versions :: "(resident_env \<times> registry_op) list \<Rightarrow> versions" where
  "example_versions ops = snd (trace (spec_step example_codec) no_versions ops)"

lemma example_run:
  assumes "along (op_ok example_codec example_universe) (spec_step example_codec) no_versions ops"
  shows "registry_is example_codec example_universe (example_versions ops) (example_state ops)"
  using registry.refines [OF example_registry_is assms] by (simp add: example_versions_def example_state_def)

theorem revision_immutable_witness:
  "fst (read_registry example_codec ''u'' example_env
     (snd (trace (registry_step example_codec) (example_state (take 2 example_ops)) (drop 2 example_ops)))
     (FlowScope ''f'') ''b'' (Some ''r1'')) = Inr (snap_of example_codec ''e'' ''r1'' None JNull)"
proof (rule revision_immutable [OF example_run [of "take 2 example_ops"]])
  show "along (op_ok example_codec example_universe) (spec_step example_codec) no_versions (take 2 example_ops)"
    by (simp add: example_eval)
  show "along (op_ok example_codec example_universe) (spec_step example_codec) (example_versions (take 2 example_ops)) (drop 2 example_ops)"
    by (simp add: example_versions_def example_eval)
  have "registry_is example_codec example_universe (example_versions (take 2 example_ops)) (example_state (take 2 example_ops))"
    by (rule example_run) (simp add: example_eval)
  then show "fst (read_registry example_codec ''u'' example_env (example_state (take 2 example_ops)) (FlowScope ''f'') ''b'' (Some ''r1'')) =
      Inr (snap_of example_codec ''e'' ''r1'' None JNull)"
    by (simp add: read_result example_versions_def example_eval spec_read_def)
qed

text \<open>
  C25. Publication is a compare-and-swap on the head: once a publication expecting revision
  \<open>h\<close> has succeeded, no later publication to the same entity that expects \<open>h\<close> succeeds, through
  whatever alias: it is refused, for the conflict or for lack of write permission, and changes
  nothing. No update is lost.
\<close>

theorem publish_once:
  assumes R: "registry_is x U a st" and v: "value_in x U v" and r: "fresh_revision a u r"
    and won: "fst (publish x u env st scp nm h v r) = Inr s"
    and run: "along (op_ok x U) (spec_step x) (snd (spec_step x a (env, PublishOp u scp nm h v r))) ops"
  defines "st' \<equiv> snd (trace (registry_step x) (snd (publish x u env st scp nm h v r)) ops)"
  assumes same: "fst (read_registry x u env' st' scp' nm' None) = Inr s'" "snap_entity s' = snap_entity s"
    and w: "value_in x U w" "\<forall>e. map_of (rg_revisions st') (u, e, r') = None"
  shows "publish x u env'' st' scp' nm' h w r' = (Inl (Conflict h (snap_revision s')), st')
    \<or> publish x u env'' st' scp' nm' h w r' = (Inl PermissionDenied, st')"
proof -
  from won obtain a1 where spec: "spec_publish x a u scp nm h v r = Inr (s, a1)"
    by (cases "spec_publish x a u scp nm h v r") (auto simp: publish_result(1) [OF R v r])
  then obtain k e where a1: "s = snap_of x e r (Some h) v" "a1 = add_version u e h r v a" by (rule spec_publish_cases)
  have R1: "registry_is x U a1 (snd (publish x u env st scp nm h v r))" by (rule publish_result(3) [OF R v r spec])
  have run1: "along (op_ok x U) (spec_step x) a1 ops" using run spec by (simp add: outcome_def)
  let ?b = "snd (trace (spec_step x) a1 ops)"
  have R': "registry_is x U ?b st'" using registry.refines [OF R1 run1] unfolding st'_def by blast
  then have ok: "versions_ok ?b" and T: "tables_are x ?b st'" by (simp_all add: registry_is_def)
  have "v_rev a1 (u, e, r) = Some (Some h, v)" by (simp add: a1 add_version_def)
  then have child: "v_rev ?b (u, e, r) = Some (Some h, v)" by (rule versions_leD(2) [OF run_le [OF run1]])
  have "spec_read x ?b u scp' nm' None = Inr s'" using same(1) by (simp add: read_result [OF R'])
  then obtain k' e' perm g p z where k': "named u scp' nm' = Inr k'" "v_alias ?b k' = Some (e', perm)" "v_head ?b (u, e') = Some g"
    and s': "s' = snap_of x e' (case None of None \<Rightarrow> g | Some r \<Rightarrow> r) p z"
    by (rule spec_read_cases)
  have "e' = e" using same(2) by (simp add: s' a1 snap_of_def)
  then have g: "g \<noteq> h" using versions_ok_leaf [OF ok child] k'(3) by auto
  have fresh: "fresh_revision ?b u r'" using w(2) T by (simp add: fresh_revision_def tables_are_def)
  have sp: "spec_publish x ?b u scp' nm' h w r' = (if perm = Write then Inl (Conflict h g) else Inl PermissionDenied)"
    using k' g named_fst [OF k'(1)] by (simp add: spec_publish_def spec_writable_def)
  note res = publish_result [OF R' w(1) fresh, where env = env'' and scp = scp' and nm = nm' and expected = h]
  have "snap_revision s' = g" by (simp add: s' snap_of_def)
  then show ?thesis using res(1) res(2) sp by (cases "perm = Write") (auto simp: prod_eq_iff)
qed

lemma example_start:
  "registry_is example_codec example_universe (example_versions (take 2 example_ops)) (example_state (take 2 example_ops))"
  by (rule example_run) (simp add: example_eval)

lemma example_published:
  "fst (publish example_codec ''u'' example_env (example_state (take 2 example_ops)) RuntimeScope ''a'' ''r1'' (JBool True) ''r2'') =
     Inr (snap_of example_codec ''e'' ''r2'' (Some ''r1'') (JBool True))"
  "registry_is example_codec example_universe (example_versions example_ops)
     (snd (publish example_codec ''u'' example_env (example_state (take 2 example_ops)) RuntimeScope ''a'' ''r1'' (JBool True) ''r2''))"
proof -
  have f: "fresh_revision (example_versions (take 2 example_ops)) ''u'' ''r2''"
    by (simp add: example_versions_def example_eval)
  have sp: "spec_publish example_codec (example_versions (take 2 example_ops)) ''u'' RuntimeScope ''a'' ''r1'' (JBool True) ''r2'' =
      Inr (snap_of example_codec ''e'' ''r2'' (Some ''r1'') (JBool True), example_versions example_ops)"
    by (simp add: example_versions_def example_eval)
  note res = publish_result [OF example_start example_values(2) f, where env = example_env and scp = RuntimeScope
      and nm = "''a''" and expected = "''r1''"]
  show "fst (publish example_codec ''u'' example_env (example_state (take 2 example_ops)) RuntimeScope ''a'' ''r1'' (JBool True) ''r2'') =
     Inr (snap_of example_codec ''e'' ''r2'' (Some ''r1'') (JBool True))" by (simp add: res(1) sp)
  show "registry_is example_codec example_universe (example_versions example_ops)
     (snd (publish example_codec ''u'' example_env (example_state (take 2 example_ops)) RuntimeScope ''a'' ''r1'' (JBool True) ''r2''))"
    by (rule res(3) [OF sp])
qed

theorem publish_once_witness:
  "let st' = snd (publish example_codec ''u'' example_env (example_state (take 2 example_ops)) RuntimeScope ''a'' ''r1'' (JBool True) ''r2'')
   in publish example_codec ''u'' example_env st' RuntimeScope ''a'' ''r1'' JNull ''r3'' = (Inl (Conflict ''r1'' ''r2''), st')
     \<or> publish example_codec ''u'' example_env st' RuntimeScope ''a'' ''r1'' JNull ''r3'' = (Inl PermissionDenied, st')"
proof -
  let ?st' = "snd (publish example_codec ''u'' example_env (example_state (take 2 example_ops)) RuntimeScope ''a'' ''r1'' (JBool True) ''r2'')"
  have read: "fst (read_registry example_codec ''u'' example_env ?st' RuntimeScope ''a'' None) =
      Inr (snap_of example_codec ''e'' ''r2'' (Some ''r1'') (JBool True))"
    unfolding read_result [OF example_published(2)]
    by (simp add: example_versions_def example_eval spec_read_def)
  have none: "map_of (rg_revisions ?st') (''u'', e, ''r3'') = None" for e
    using example_published(2) by (simp add: registry_is_def tables_are_def) (simp add: example_versions_def example_eval)
  show ?thesis
    using publish_once [OF example_start example_values(2) _ example_published(1), of "[]", where w = JNull and r' = "''r3''"
        and scp' = RuntimeScope and nm' = "''a''" and env' = example_env and env'' = example_env
        and s' = "snap_of example_codec ''e'' ''r2'' (Some ''r1'') (JBool True)"]
      read none example_values(1)
    by (simp add: Let_def example_versions_def example_eval snap_of_def)
qed











subsection \<open>Permissions and universes\<close>

text \<open>The alias through which an operation asks for write access.\<close>

fun op_alias :: "registry_op \<Rightarrow> (string \<times> string \<times> string \<times> string) option" where
  "op_alias (GrantOp u s n s' n' perm) = (case named u s n of Inl _ \<Rightarrow> None | Inr k \<Rightarrow> Some k)"
| "op_alias (PublishOp u s n expected v r) = (case named u s n of Inl _ \<Rightarrow> None | Inr k \<Rightarrow> Some k)"
| "op_alias (PublishUniqueOp u s n expected v pid e r) = (case named u s n of Inl _ \<Rightarrow> None | Inr k \<Rightarrow> Some k)"
| "op_alias op = None"

definition uses_write :: "string \<Rightarrow> string \<Rightarrow> (string \<times> string \<times> string \<times> string \<rightharpoonup> string \<times> permission) \<Rightarrow> registry_op \<Rightarrow> bool" where
  "uses_write u e aliases op \<longleftrightarrow> (\<exists>k. op_alias op = Some k \<and> fst k = u \<and> aliases k = Some (e, Write))"

definition same_write :: "string \<Rightarrow> string \<Rightarrow> versions \<Rightarrow> versions \<Rightarrow> bool" where
  "same_write u e a b \<longleftrightarrow> v_head b (u, e) = v_head a (u, e)
     \<and> (\<forall>k. fst k = u \<longrightarrow> (v_alias b k = Some (e, Write) \<longleftrightarrow> v_alias a k = Some (e, Write)))"

lemma same_write_refl [simp]: "same_write u e a a"
  by (simp add: same_write_def)

lemma add_entity_same_write:
  "v_head a (u, e) \<noteq> None \<Longrightarrow> fresh_entity a (fst k) e' \<Longrightarrow> v_alias a k = None \<Longrightarrow> same_write u e a (add_entity k e' r v a)"
  by (auto simp: same_write_def add_entity_def fresh_entity_def)

lemma add_version_same_write: "u' \<noteq> u \<or> e' \<noteq> e \<Longrightarrow> same_write u e a (add_version u' e' h r v a)"
  by (auto simp: same_write_def add_version_def)

lemma remember_same_write: "same_write u e a (remember pid k e' r expected b) \<longleftrightarrow> same_write u e a b"
  by (cases k) (simp add: same_write_def remember_def)

lemma spec_step_same_write:
  assumes head: "v_head a (u, e) \<noteq> None" and fresh: "op_fresh a (snd op)" and quiet: "\<not> uses_write u e (v_alias a) (snd op)"
  shows "same_write u e a (snd (spec_step x a op))"
proof (cases op)
  case (Pair env o')
  have key: "e' \<noteq> e \<or> u' \<noteq> u" if "op_alias o' = Some k" "v_alias a k = Some (e', Write)" "fst k = u'" for k e' u'
    using quiet that by (auto simp: Pair uses_write_def)
  show ?thesis
  proof (cases o')
    case (CreateOp u' scp n v e' r)
    show ?thesis
    proof (cases "spec_create x a u' scp n v e' r")
      case (Inr q)
      obtain s a' where q: "q = (s, a')" by fastforce
      from Inr [unfolded q] obtain k where "named u' scp n = Inr k" "v_alias a k = None" "a' = add_entity k e' r v a"
        by (rule spec_create_cases)
      with named_fst [of u' scp n k] fresh head Inr q show ?thesis
        by (simp add: Pair CreateOp outcome_def add_entity_same_write)
    qed (simp add: Pair CreateOp outcome_def)
  next
    case (GrantOp u' s1 n1 s2 n2 perm)
    show ?thesis
    proof (cases "spec_grant a u' s1 n1 s2 n2 perm")
      case (Inr a')
      then obtain k1 k2 e' h where k: "named u' s1 n1 = Inr k1" "named u' s2 n2 = Inr k2" "v_alias a k1 = Some (e', Write)"
        "v_head a (u', e') = Some h" "v_alias a k2 = None" "a' = a\<lparr>v_alias := (v_alias a)(k2 \<mapsto> (e', perm))\<rparr>"
        by (rule spec_grant_cases)
      have "e' \<noteq> e \<or> u' \<noteq> u" using key [of k1 e' u'] k(1,3) by (simp add: GrantOp named_fst)
      with k(2,5,6) named_fst [OF k(2)] have "same_write u e a a'" by (auto simp: same_write_def)
      with Inr show ?thesis by (simp add: Pair GrantOp)
    qed (simp add: Pair GrantOp)
  next
    case (PublishOp u' scp n expected v r)
    show ?thesis
    proof (cases "spec_publish x a u' scp n expected v r")
      case (Inr q)
      obtain s a' where q: "q = (s, a')" by fastforce
      from Inr [unfolded q] obtain k e' where k: "named u' scp n = Inr k" "v_alias a k = Some (e', Write)"
        "a' = add_version u' e' expected r v a" by (rule spec_publish_cases)
      have "u' \<noteq> u \<or> e' \<noteq> e" using key [of k e' u'] k(1,2) by (auto simp: PublishOp named_fst)
      with Inr q k(3) show ?thesis by (simp add: Pair PublishOp outcome_def add_version_same_write)
    qed (simp add: Pair PublishOp outcome_def)
  next
    case (PublishUniqueOp u' scp n expected v pid e' r)
    show ?thesis
    proof (cases "spec_publish_unique x a u' scp n expected v pid e' r")
      case (Inr q)
      obtain s a' where q: "q = (s, a')" by fastforce
      from Inr [unfolded q] have "same_write u e a a'"
      proof (cases rule: spec_publish_unique_cases)
        case (Replay k p)
        then have "a' = a" by (elim spec_replay_cases)
        then show ?thesis by simp
      next
        case (New k)
        with named_fst [OF New(1)] fresh head show ?thesis
          by (simp add: remember_same_write add_entity_same_write Pair PublishUniqueOp)
      next
        case (Next k e0 h)
        have "u' \<noteq> u \<or> e0 \<noteq> e" using key [of k e0 u'] Next(1,4) by (auto simp: PublishUniqueOp named_fst)
        with Next(7) show ?thesis by (simp add: remember_same_write add_version_same_write)
      qed
      with Inr q show ?thesis by (simp add: Pair PublishUniqueOp outcome_def)
    qed (simp add: Pair PublishUniqueOp outcome_def)
  qed (simp add: Pair)
qed

text \<open>
  C27. No escalation: as long as no operation of a run acts through an alias that grants write
  permission on an entity, the head of the entity stays and no alias gains (or loses) write
  permission on it. Read-only aliases cannot be turned into write access, in any scope.
\<close>

theorem no_escalation:
  assumes R: "registry_is x U a st" and run: "along (op_ok x U) (spec_step x) a ops"
    and head: "map_of (rg_entities st) (u, e) = Some h"
    and quiet: "along (\<lambda>st op. \<not> uses_write u e (map_of (rg_aliases st)) (snd op)) (registry_step x) st ops"
  shows "map_of (rg_entities (snd (trace (registry_step x) st ops))) (u, e) = Some h
    \<and> (\<forall>k. fst k = u \<longrightarrow>
         (map_of (rg_aliases (snd (trace (registry_step x) st ops))) k = Some (e, Write)
          \<longleftrightarrow> map_of (rg_aliases st) k = Some (e, Write)))"
  using assms
proof (induction ops arbitrary: a st)
  case (Cons op ops)
  let ?a = "snd (spec_step x a op)" and ?st = "snd (registry_step x st op)"
  have T: "tables_are x a st" using Cons.prems(1) by (simp add: registry_is_def)
  from Cons.prems(2) have adm: "op_ok x U a op" by simp
  from registry.step [OF Cons.prems(1) adm] have R': "registry_is x U ?a ?st" by blast
  then have T': "tables_are x ?a ?st" by (simp add: registry_is_def)
  have "v_head a (u, e) \<noteq> None" "op_fresh a (snd op)" "\<not> uses_write u e (v_alias a) (snd op)"
    using T adm Cons.prems(3,4) by (simp_all add: tables_are_def op_ok_def)
  from spec_step_same_write [OF this] have same: "same_write u e a ?a" .
  then have head': "map_of (rg_entities ?st) (u, e) = Some h"
    using T T' Cons.prems(3) by (simp add: same_write_def tables_are_def)
  have al: "map_of (rg_aliases ?st) k = Some (e, Write) \<longleftrightarrow> map_of (rg_aliases st) k = Some (e, Write)" if "fst k = u" for k
    using same that T T' unfolding same_write_def tables_are_def by metis
  from Cons.prems(2,4) have "along (op_ok x U) (spec_step x) ?a ops"
    "along (\<lambda>st op. \<not> uses_write u e (map_of (rg_aliases st)) (snd op)) (registry_step x) ?st ops" by simp_all
  from Cons.IH [OF R' this(1) head' this(2)] show ?case unfolding trace_Cons snd_conv using al by blast
qed simp

definition example_read_ops :: "(resident_env \<times> registry_op) list" where
  "example_read_ops =
     [(example_env, GrantOp ''u'' (FlowScope ''f'') ''b'' RuntimeScope ''p'' Write),
      (example_env, PublishOp ''u'' (FlowScope ''f'') ''b'' ''r1'' JNull ''r3'')]"

theorem no_escalation_witness:
  "map_of (rg_entities (snd (trace (registry_step example_codec) (example_state (take 2 example_ops)) example_read_ops))) (''u'', ''e'') = Some ''r1''
   \<and> (\<forall>q. map_of (rg_aliases (snd (trace (registry_step example_codec) (example_state (take 2 example_ops)) example_read_ops))) (''u'', q) = Some (''e'', Write)
         \<longleftrightarrow> map_of (rg_aliases (example_state (take 2 example_ops))) (''u'', q) = Some (''e'', Write))"
proof -
  let ?a = "example_versions (take 2 example_ops)" and ?st = "example_state (take 2 example_ops)"
  let ?op = "(example_env, GrantOp ''u'' (FlowScope ''f'') ''b'' RuntimeScope ''p'' Write)"
  have run: "along (op_ok example_codec example_universe) (spec_step example_codec) ?a example_read_ops"
    by (simp add: example_read_ops_def example_versions_def example_eval)
  have T: "tables_are example_codec ?a ?st" using example_start by (simp add: registry_is_def)
  then have head: "map_of (rg_entities ?st) (''u'', ''e'') = Some ''r1''"
    by (simp add: tables_are_def) (simp add: example_versions_def example_eval)
  have same: "snd (spec_step example_codec ?a ?op) = ?a" by (simp add: example_versions_def example_eval)
  have "op_ok example_codec example_universe ?a ?op" by (simp add: op_ok_def)
  from registry.step [OF example_start this] have "tables_are example_codec ?a (snd (registry_step example_codec ?st ?op))"
    unfolding same by (simp add: registry_is_def)
  then have quiet: "along (\<lambda>st op. \<not> uses_write ''u'' ''e'' (map_of (rg_aliases st)) (snd op)) (registry_step example_codec) ?st example_read_ops"
    using T by (simp add: example_read_ops_def tables_are_def uses_write_def del: registry_step.simps)
      (simp add: example_versions_def example_eval)
  from no_escalation [OF example_start run head quiet] show ?thesis by simp
qed

fun op_universe :: "registry_op \<Rightarrow> string" where
  "op_universe (CreateOp u scp n v e r) = u"
| "op_universe (GrantOp u s n s' n' perm) = u"
| "op_universe (ReadOp u scp n sel) = u"
| "op_universe (PublishOp u scp n expected v r) = u"
| "op_universe (PublishUniqueOp u scp n expected v pid e r) = u"

text \<open>What a universe consists of.\<close>

definition universe_of :: "string \<Rightarrow> versions \<Rightarrow>
    (string \<times> string \<times> string \<rightharpoonup> string \<times> permission) \<times> (string \<rightharpoonup> string) \<times> (string \<times> string \<rightharpoonup> string option \<times> json)" where
  "universe_of u a = ((\<lambda>k. v_alias a (u, k)), (\<lambda>e. v_head a (u, e)), (\<lambda>k. v_rev a (u, k)))"

lemma add_universe:
  "fst k \<noteq> u \<Longrightarrow> universe_of u (add_entity k e r v a) = universe_of u a"
  "u' \<noteq> u \<Longrightarrow> universe_of u (add_version u' e h r v a) = universe_of u a"
  "universe_of u (remember pid k e r expected a) = universe_of u a"
  by (cases k; force simp: universe_of_def add_entity_def add_version_def remember_def)+

lemma spec_step_universe:
  assumes "op_universe (snd op) \<noteq> u"
  shows "universe_of u (snd (spec_step x a op)) = universe_of u a"
proof (cases op)
  case (Pair env o')
  show ?thesis
  proof (cases o')
    case (CreateOp u' scp n v e r)
    show ?thesis
    proof (cases "spec_create x a u' scp n v e r")
      case (Inr q)
      obtain s a' where q: "q = (s, a')" by fastforce
      from Inr [unfolded q] obtain k where "named u' scp n = Inr k" "a' = add_entity k e r v a"
        by (rule spec_create_cases)
      with Inr q assms named_fst [of u' scp n k] show ?thesis by (simp add: Pair CreateOp outcome_def add_universe)
    qed (simp add: Pair CreateOp outcome_def)
  next
    case (GrantOp u' s1 n1 s2 n2 perm)
    show ?thesis
    proof (cases "spec_grant a u' s1 n1 s2 n2 perm")
      case (Inr a')
      then obtain k2 e where "named u' s2 n2 = Inr k2" "a' = a\<lparr>v_alias := (v_alias a)(k2 \<mapsto> (e, perm))\<rparr>"
        by (rule spec_grant_cases)
      with Inr assms named_fst [of u' s2 n2 k2] show ?thesis
        by (cases k2) (auto simp: Pair GrantOp universe_of_def)
    qed (simp add: Pair GrantOp)
  next
    case (PublishOp u' scp n expected v r)
    with assms show ?thesis
      by (auto simp: Pair outcome_def spec_publish_def and_then_def add_universe split: sum.splits prod.splits if_splits)
  next
    case (PublishUniqueOp u' scp n expected v pid e r)
    show ?thesis
    proof (cases "spec_publish_unique x a u' scp n expected v pid e r")
      case (Inr q)
      obtain s a' where q: "q = (s, a')" by fastforce
      from Inr [unfolded q] have "universe_of u a' = universe_of u a"
        using assms by (cases rule: spec_publish_unique_cases)
          (auto simp: Pair PublishUniqueOp add_universe named_fst elim: spec_replay_cases)
      with Inr q show ?thesis by (simp add: Pair PublishUniqueOp outcome_def)
    qed (simp add: Pair PublishUniqueOp outcome_def)
  qed (simp add: Pair)
qed

lemma spec_read_universe:
  assumes "universe_of u a = universe_of u b"
  shows "spec_read x a u scp nm sel = spec_read x b u scp nm sel"
proof -
  have same: "v_alias a (u, k) = v_alias b (u, k)" "v_head a (u, e) = v_head b (u, e)" "v_rev a (u, q) = v_rev b (u, q)" for k e q
    using assms unfolding universe_of_def prod.inject by metis+
  show ?thesis
  proof (cases "named u scp nm")
    case (Inr k)
    then obtain q where "k = (u, q)" by (auto simp: named_Inr)
    then show ?thesis unfolding spec_read_def Inr and_then_simps same by (simp only: same)
  qed (simp add: spec_read_def)
qed

text \<open>
  C28. Universes are isolated: operations of other universes, over the same tables and the same
  content, never change what a read of a universe returns.
\<close>

theorem universe_isolation:
  assumes R: "registry_is x U a st" and run: "along (op_ok x U) (spec_step x) a ops"
    and other: "\<forall>op \<in> set ops. op_universe (snd op) \<noteq> u"
  shows "fst (read_registry x u env' (snd (trace (registry_step x) st ops)) scp nm sel) =
    fst (read_registry x u env st scp nm sel)"
proof -
  have "universe_of u (snd (trace (spec_step x) a ops)) = universe_of u a"
    using other by (induction ops arbitrary: a) (simp_all add: spec_step_universe)
  moreover have "registry_is x U (snd (trace (spec_step x) a ops)) (snd (trace (registry_step x) st ops))"
    using registry.refines [OF R run] by blast
  ultimately show ?thesis by (simp add: read_result [OF R] read_result cong: spec_read_universe)
qed

theorem universe_isolation_witness:
  "fst (read_registry example_codec ''w'' example_env (snd (trace (registry_step example_codec) example_registry example_ops)) RuntimeScope ''a'' None) =
   fst (read_registry example_codec ''w'' example_env example_registry RuntimeScope ''a'' None)"
  by (rule universe_isolation [OF example_registry_is example_along]) (simp add: example_ops_def)

end
