(* ===== verification/Zf_Window_Registry.thy ===== *)
theory Zf_Window_Registry
  imports Zf_Registry_Props Zf_Window
begin

text \<open>
  Prepared windows in the data registry: \<open>WindowRegistry\<close> of \<open>zf-storage/src/data.rs\<close>, which
  composes the editing of windows (\<open>Zf_Window\<close>) with the publication of revisions
  (\<open>Zf_Registry\<close>).

  The serde encodings of windows are the record \<open>window_serde\<close>. An edit reads the window and
  publishes the edited one in two transactions; \<open>prepare_patch\<close> is everything before the
  second, so that other operations can be put between them.
\<close>

subsection \<open>Operations\<close>

datatype window_store_error = DataFailure data_error | InvalidWindow "diagnostic list"

record window_serde =
  ws_writer :: "prepared_window \<Rightarrow> string list"
  ws_from :: "json \<Rightarrow> prepared_window option"
  ws_to :: "prepared_window \<Rightarrow> json option"

definition encode_window :: "window_serde \<Rightarrow> prepared_window \<Rightarrow> (window_store_error, json) result" where
  "encode_window f w =
     (case ws_to f w of
        None \<Rightarrow> Inl (InvalidWindow (invalid ''window_value'' ''window'' ''Invalid window JSON''))
      | Some v \<Rightarrow> Inr v)"

definition decode_stored :: "window_serde \<Rightarrow> json \<Rightarrow> (window_store_error, prepared_window) result" where
  "decode_stored f v = map_err InvalidWindow (decode_window (ws_writer f) (ws_from f) v)"

definition lift_data :: "(data_error, snapshot) result \<times> registry \<Rightarrow> (window_store_error, snapshot) result \<times> registry" where
  "lift_data = map_prod (map_err DataFailure) id"

definition create_window :: "codec \<Rightarrow> window_serde \<Rightarrow> string \<Rightarrow> resident_env \<Rightarrow> registry \<Rightarrow> scope \<Rightarrow> string \<Rightarrow>
    prepared_window \<Rightarrow> string \<Rightarrow> string \<Rightarrow> (window_store_error, snapshot) result \<times> registry" where
  "create_window x f u env st scp nm w e r =
     (case and_then (map_err InvalidWindow (validate_window (ws_writer f) w)) (\<lambda>_. encode_window f w) of
        Inl err \<Rightarrow> (Inl err, st)
      | Inr v \<Rightarrow> lift_data (create x u env st scp nm v e r))"




text \<open>The edited window of a snapshot, encoded.\<close>

definition edited :: "window_serde \<Rightarrow> json \<Rightarrow> window_patch list \<Rightarrow> (window_store_error, json) result" where
  "edited f v patches =
     and_then (decode_stored f v) (\<lambda>w.
     and_then (map_err InvalidWindow (patched (ws_writer f) w patches)) (\<lambda>w'. encode_window f w'))"

definition prepare_patch :: "codec \<Rightarrow> window_serde \<Rightarrow> string \<Rightarrow> resident_env \<Rightarrow> registry \<Rightarrow> scope \<Rightarrow> string \<Rightarrow> string \<Rightarrow>
    window_patch list \<Rightarrow> (window_store_error, json) result \<times> registry" where
  "prepare_patch x f u env st scp nm expected patches =
     (if patches = [] \<or> 4096 < length patches
      then (Inl (InvalidWindow (invalid ''window_patch'' ''patches''
              (''Submit 1'' @ [CHR 0xE2, CHR 0x80, CHR 0x93] @ ''4096 explicit window edits''))), st)
      else (case lift_data (read_registry x u env st scp nm None) of (r, st') \<Rightarrow>
        (and_then r (\<lambda>s.
           if snap_revision s \<noteq> expected then Inl (DataFailure (Conflict expected (snap_revision s)))
           else edited f (snap_value s) patches), st')))"

definition patch_window :: "codec \<Rightarrow> window_serde \<Rightarrow> string \<Rightarrow> resident_env \<times> resident_env \<Rightarrow> registry \<Rightarrow> scope \<Rightarrow> string \<Rightarrow> string \<Rightarrow>
    window_patch list \<Rightarrow> string \<Rightarrow> (window_store_error, snapshot) result \<times> registry" where
  "patch_window x f u envs st scp nm expected patches r =
     (case prepare_patch x f u (fst envs) st scp nm expected patches of
        (Inl err, st') \<Rightarrow> (Inl err, st')
      | (Inr v, st') \<Rightarrow> lift_data (publish x u (snd envs) st' scp nm expected v r))"


subsection \<open>Facts\<close>



lemma lift_data_simps [simp]:
  "fst (lift_data p) = map_err DataFailure (fst p)" "snd (lift_data p) = snd p"
  by (simp_all add: lift_data_def)








subsection \<open>An example\<close>






subsection \<open>Properties\<close>






end
