(* ===== verification/Zf_Selections.thy ===== *)
theory Zf_Selections
  imports Zf_Records
begin

text \<open>
  Explicit selections of prepared windows: \<open>WindowSelectionCommand\<close> of
  \<open>zf-context/src/window_preparation.rs\<close>, and the queue that hands each selection to one
  occurrence of its node, \<open>queue_window_selection\<close> and \<open>claim_window_selection\<close> of
  \<open>zf-storage/src/data.rs\<close>. The queue lives in the records of the content store; its
  specification is a table of commands, of the occurrences that used them and of the choice made
  for every occurrence.

  The SHA-256 digest of a node path is the parameter \<open>h\<close>; nothing is asked of it.
\<close>

subsection \<open>Commands\<close>

record selection_command =
  cmd_id :: string
  cmd_node_path :: string
  cmd_alias :: string
  cmd_revision :: string
  cmd_program_hash :: string

text \<open>What serde derives: an object with exactly the five fields, read back from an object or
  from an array in the order of declaration.\<close>

definition command_value :: "selection_command \<Rightarrow> json" where
  "command_value c = JObject
     [(''alias'', JString (cmd_alias c)), (''id'', JString (cmd_id c)), (''nodePath'', JString (cmd_node_path c)),
      (''programHash'', JString (cmd_program_hash c)), (''revision'', JString (cmd_revision c))]"

definition string_field :: "(string \<times> json) list \<Rightarrow> string \<Rightarrow> string option" where
  "string_field m k = (case map_of m k of Some (JString s) \<Rightarrow> Some s | _ \<Rightarrow> None)"

definition command_of :: "json \<Rightarrow> selection_command option" where
  "command_of v =
     (case v of
        JObject m \<Rightarrow>
          (if \<not> list_all (\<lambda>(k, _). k \<in> set [''id'', ''nodePath'', ''alias'', ''revision'', ''programHash'']) m then None
           else (case (string_field m ''id'', string_field m ''nodePath'', string_field m ''alias'',
                       string_field m ''revision'', string_field m ''programHash'') of
               (Some i, Some p, Some a, Some r, Some g) \<Rightarrow>
                 Some \<lparr>cmd_id = i, cmd_node_path = p, cmd_alias = a, cmd_revision = r, cmd_program_hash = g\<rparr>
             | _ \<Rightarrow> None))
      | JArray [JString i, JString p, JString a, JString r, JString g] \<Rightarrow>
          Some \<lparr>cmd_id = i, cmd_node_path = p, cmd_alias = a, cmd_revision = r, cmd_program_hash = g\<rparr>
      | _ \<Rightarrow> None)"

definition use_value :: "string \<Rightarrow> string \<Rightarrow> json" where
  "use_value path occurrence = JObject [(''nodePath'', JString path), (''occurrence'', JString occurrence)]"

subsection \<open>The queue in the records\<close>

datatype selection_error =
    SelectionContent content_error
  | IdentityReused
  | UnconsumedSelection
  | SelectionDatabase
  | SelectionDecode

definition decode_choice :: "json \<Rightarrow> (selection_error, selection_command option) result" where
  "decode_choice v =
     (if v = JNull then Inr None
      else (case command_of v of None \<Rightarrow> Inl SelectionDecode | Some c \<Rightarrow> Inr (Some c)))"

abbreviation selection_used :: string where
  "selection_used \<equiv> ''window-selection-used''"

abbreviation invocation_selection :: string where
  "invocation_selection \<equiv> ''window-invocation-selection''"

definition selection_kind :: "(string \<Rightarrow> string) \<Rightarrow> string \<Rightarrow> string" where
  "selection_kind h path = ''window-selections:'' @ h path"

text \<open>SQLite's \<open>LIKE 'window-selections:%'\<close> ignores the case of ASCII letters.\<close>

definition ascii_lower :: "char \<Rightarrow> char" where
  "ascii_lower c = (if CHR ''A'' \<le> c \<and> c \<le> CHR ''Z'' then char_of ((of_char c :: nat) + 32) else c)"

definition like_selections :: "string \<Rightarrow> bool" where
  "like_selections kind \<longleftrightarrow> prefix ''window-selections:'' (map ascii_lower kind)"

definition existing_selection :: "content_db \<Rightarrow> string \<Rightarrow> string \<Rightarrow> string option" where
  "existing_selection db scp i =
     map_option snd (find (\<lambda>((s, kind, key), _). s = scp \<and> like_selections kind \<and> key = i) (db_records db))"

text \<open>The commands of a kind that no occurrence has used, by key.\<close>

definition unconsumed :: "content_db \<Rightarrow> string \<Rightarrow> string \<Rightarrow> (string \<times> string) list" where
  "unconsumed db scp kind =
     sort_key fst (map (\<lambda>((_, _, key), r). (key, r))
       (filter (\<lambda>((s, k, key), _). s = scp \<and> k = kind \<and> map_of (db_records db) (s, selection_used, key) = None)
          (db_records db)))"

definition insert_record :: "string \<times> string \<times> string \<Rightarrow> string \<Rightarrow> content_db \<Rightarrow> (selection_error, content_db) result" where
  "insert_record k r db =
     (if map_of (db_records db) k \<noteq> None then Inl SelectionDatabase
      else Inr (db\<lparr>db_records := (k, r) # db_records db\<rparr>))"

definition queue_window_selection ::
  "codec \<Rightarrow> (string \<Rightarrow> string) \<Rightarrow> content_store \<Rightarrow> string \<Rightarrow> selection_command \<Rightarrow>
   (selection_error, json \<times> content_store) result" where
  "queue_window_selection x h st scp c =
     (let kind = selection_kind h (cmd_node_path c) in
      and_then (map_err SelectionContent (prepare x st (command_value c))) (\<lambda>prepared.
        (case existing_selection (cs_db st) scp (cmd_id c) of
           Some r \<Rightarrow> if r = prep_reference prepared then Inr (command_value c, st) else Inl IdentityReused
         | None \<Rightarrow>
             (if unconsumed (cs_db st) scp kind \<noteq> [] then Inl UnconsumedSelection
              else and_then (map_err SelectionContent (persist_in x (cs_db st) prepared)) (\<lambda>db.
                   and_then (insert_record (scp, kind, cmd_id c) (prep_reference prepared) db) (\<lambda>db.
                     Inr (command_value c,
                          \<lparr>cs_db = db, cs_committed = mark_committed prepared (cs_committed st)\<rparr>)))))))"

text \<open>The transaction of a claim: the reference chosen for the occurrence.\<close>

definition claim_tx ::
  "codec \<Rightarrow> (string \<Rightarrow> string) \<Rightarrow> content_store \<Rightarrow> string \<Rightarrow> string \<Rightarrow> string \<Rightarrow> string \<Rightarrow>
   (selection_error, string \<times> content_store) result" where
  "claim_tx x h st scp path occurrence null_ref =
     and_then (map_err SelectionContent (prepare x st (use_value path occurrence))) (\<lambda>use_record.
       (case map_of (db_records (cs_db st)) (scp, invocation_selection, occurrence) of
          Some prior \<Rightarrow> Inr (prior, st)
        | None \<Rightarrow>
            and_then (map_err SelectionContent (persist_in x (cs_db st) use_record)) (\<lambda>db.
            and_then (case unconsumed (cs_db st) scp (selection_kind h path) of
                [] \<Rightarrow> Inr (null_ref, db)
              | (i, r) # _ \<Rightarrow>
                  and_then (insert_record (scp, selection_used, i) (prep_reference use_record) db) (\<lambda>db. Inr (r, db)))
              (\<lambda>(r, db).
            and_then (insert_record (scp, invocation_selection, occurrence) r db) (\<lambda>db.
              Inr (r, \<lparr>cs_db = db, cs_committed = mark_committed use_record (cs_committed st)\<rparr>))))))"

definition claim_window_selection ::
  "codec \<Rightarrow> (string \<Rightarrow> string) \<Rightarrow> content_store \<Rightarrow> string \<Rightarrow> string \<Rightarrow> string \<Rightarrow>
   (selection_error, selection_command option) result \<times> content_store" where
  "claim_window_selection x h st scp path occurrence =
     (case intern x st JNull of
        Inl e \<Rightarrow> (Inl (SelectionContent e), st)
      | Inr (null_ref, st1) \<Rightarrow>
          (case claim_tx x h st1 scp path occurrence null_ref of
             Inl e \<Rightarrow> (Inl e, st1)
           | Inr (selected, st2) \<Rightarrow>
               (and_then (map_err SelectionContent (resolve_content x (cs_db st2) selected)) decode_choice, st2)))"

subsection \<open>Specification\<close>

record selections =
  q_commands :: "((string \<times> string) \<times> selection_command) list"
  q_used :: "((string \<times> string) \<times> (string \<times> string)) list"
  q_choices :: "((string \<times> string) \<times> selection_command option) list"

definition no_selections :: selections where
  "no_selections = \<lparr>q_commands = [], q_used = [], q_choices = []\<rparr>"

definition waiting :: "(string \<Rightarrow> string) \<Rightarrow> selections \<Rightarrow> string \<Rightarrow> string \<Rightarrow> selection_command list" where
  "waiting h a scp path =
     map snd (filter (\<lambda>((s, i), c). s = scp \<and> h (cmd_node_path c) = h path \<and> map_of (q_used a) (s, i) = None) (q_commands a))"

definition spec_queue :: "(string \<Rightarrow> string) \<Rightarrow> selections \<Rightarrow> string \<Rightarrow> selection_command \<Rightarrow>
    (selection_error, json \<times> selections) result" where
  "spec_queue h a scp c =
     (case map_of (q_commands a) (scp, cmd_id c) of
        Some d \<Rightarrow> if d = c then Inr (command_value c, a) else Inl IdentityReused
      | None \<Rightarrow>
          (if waiting h a scp (cmd_node_path c) \<noteq> [] then Inl UnconsumedSelection
           else Inr (command_value c, a\<lparr>q_commands := ((scp, cmd_id c), c) # q_commands a\<rparr>)))"

definition spec_claim :: "(string \<Rightarrow> string) \<Rightarrow> selections \<Rightarrow> string \<Rightarrow> string \<Rightarrow> string \<Rightarrow>
    selection_command option \<times> selections" where
  "spec_claim h a scp path occurrence =
     (case map_of (q_choices a) (scp, occurrence) of
        Some choice \<Rightarrow> (choice, a)
      | None \<Rightarrow>
          (case waiting h a scp path of
             [] \<Rightarrow> (None, a\<lparr>q_choices := ((scp, occurrence), None) # q_choices a\<rparr>)
           | c # _ \<Rightarrow> (Some c, a\<lparr>q_used := ((scp, cmd_id c), (path, occurrence)) # q_used a,
                                q_choices := ((scp, occurrence), Some c) # q_choices a\<rparr>)))"

datatype selection_op = QueueOp string selection_command | ClaimSelOp string string string

datatype selection_out =
    Queued "(selection_error, json) result"
  | Claimed "(selection_error, selection_command option) result"

fun selection_step :: "codec \<Rightarrow> (string \<Rightarrow> string) \<Rightarrow> content_store \<Rightarrow> selection_op \<Rightarrow> selection_out \<times> content_store" where
  "selection_step x h st (QueueOp scp c) =
     (case queue_window_selection x h st scp c of Inl e \<Rightarrow> (Queued (Inl e), st) | Inr (v, st') \<Rightarrow> (Queued (Inr v), st'))"
| "selection_step x h st (ClaimSelOp scp path occurrence) =
     (case claim_window_selection x h st scp path occurrence of (r, st') \<Rightarrow> (Claimed r, st'))"

fun spec_selection_step :: "(string \<Rightarrow> string) \<Rightarrow> selections \<Rightarrow> selection_op \<Rightarrow> selection_out \<times> selections" where
  "spec_selection_step h a (QueueOp scp c) =
     (case spec_queue h a scp c of Inl e \<Rightarrow> (Queued (Inl e), a) | Inr (v, a') \<Rightarrow> (Queued (Inr v), a'))"
| "spec_selection_step h a (ClaimSelOp scp path occurrence) =
     (case spec_claim h a scp path occurrence of (r, a') \<Rightarrow> (Claimed (Inr r), a'))"

subsection \<open>Well-formed queues\<close>

text \<open>
  At most one command waits per node; a command is used by the occurrence that chose it, and by
  no other.
\<close>

definition command_ids :: "selections \<Rightarrow> bool" where
  "command_ids a \<longleftrightarrow> distinct (map fst (q_commands a)) \<and> (\<forall>s i c. map_of (q_commands a) (s, i) = Some c \<longrightarrow> cmd_id c = i)"

definition one_waiting :: "(string \<Rightarrow> string) \<Rightarrow> selections \<Rightarrow> bool" where
  "one_waiting h a \<longleftrightarrow>
     (\<forall>s i j c d. map_of (q_commands a) (s, i) = Some c \<longrightarrow> map_of (q_commands a) (s, j) = Some d \<longrightarrow>
        h (cmd_node_path c) = h (cmd_node_path d) \<longrightarrow> map_of (q_used a) (s, i) = None \<longrightarrow> map_of (q_used a) (s, j) = None \<longrightarrow> i = j)"

definition used_chosen :: "(string \<Rightarrow> string) \<Rightarrow> selections \<Rightarrow> bool" where
  "used_chosen h a \<longleftrightarrow>
     (\<forall>s i p oc. map_of (q_used a) (s, i) = Some (p, oc) \<longrightarrow>
        (\<exists>c. map_of (q_commands a) (s, i) = Some c \<and> map_of (q_choices a) (s, oc) = Some (Some c) \<and> h p = h (cmd_node_path c)))"

definition chosen_used :: "selections \<Rightarrow> bool" where
  "chosen_used a \<longleftrightarrow>
     (\<forall>s oc c. map_of (q_choices a) (s, oc) = Some (Some c) \<longrightarrow>
        map_of (q_commands a) (s, cmd_id c) = Some c \<and> (\<exists>p. map_of (q_used a) (s, cmd_id c) = Some (p, oc)))"

definition selections_ok :: "(string \<Rightarrow> string) \<Rightarrow> selections \<Rightarrow> bool" where
  "selections_ok h a \<longleftrightarrow> command_ids a \<and> one_waiting h a \<and> used_chosen h a \<and> chosen_used a"

lemma no_selections_ok: "selections_ok h no_selections"
  by (simp add: selections_ok_def command_ids_def one_waiting_def used_chosen_def chosen_used_def no_selections_def)

lemma waiting_iff:
  assumes ids: "command_ids a"
  shows "c \<in> set (waiting h a s p) \<longleftrightarrow>
    map_of (q_commands a) (s, cmd_id c) = Some c \<and> h (cmd_node_path c) = h p \<and> map_of (q_used a) (s, cmd_id c) = None"
proof
  assume "c \<in> set (waiting h a s p)"
  then obtain i where i: "((s, i), c) \<in> set (q_commands a)" "h (cmd_node_path c) = h p" "map_of (q_used a) (s, i) = None"
    unfolding waiting_def by auto
  then have l: "map_of (q_commands a) (s, i) = Some c" using ids by (simp add: command_ids_def)
  with ids have "cmd_id c = i" unfolding command_ids_def by blast
  with i l show "map_of (q_commands a) (s, cmd_id c) = Some c \<and> h (cmd_node_path c) = h p \<and> map_of (q_used a) (s, cmd_id c) = None"
    by simp
next
  assume r: "map_of (q_commands a) (s, cmd_id c) = Some c \<and> h (cmd_node_path c) = h p \<and> map_of (q_used a) (s, cmd_id c) = None"
  then have "((s, cmd_id c), c) \<in> set (q_commands a)" by (blast dest: map_of_SomeD)
  with r show "c \<in> set (waiting h a s p)" unfolding waiting_def set_map
    by (intro image_eqI [of _ _ "((s, cmd_id c), c)"]) auto
qed

lemma waiting_unique:
  assumes "selections_ok h a" and "c \<in> set (waiting h a s p)" and "d \<in> set (waiting h a s p)"
  shows "d = c"
proof -
  have ids: "command_ids a" and one: "one_waiting h a" using assms(1) by (simp_all add: selections_ok_def)
  from assms(2,3) have c: "map_of (q_commands a) (s, cmd_id c) = Some c" "map_of (q_used a) (s, cmd_id c) = None"
    and d: "map_of (q_commands a) (s, cmd_id d) = Some d" "map_of (q_used a) (s, cmd_id d) = None"
    and h: "h (cmd_node_path c) = h (cmd_node_path d)" by (simp_all add: waiting_iff [OF ids])
  have same: "cmd_id c = cmd_id d" using one c d h unfolding one_waiting_def by blast
  have "Some d = Some c" unfolding c(1) [symmetric] d(1) [symmetric] same ..
  then show ?thesis by blast
qed

lemma spec_queue_cases:
  assumes "spec_queue h a s c = Inr (v, a')"
  obtains (Again) "map_of (q_commands a) (s, cmd_id c) = Some c" "a' = a" "v = command_value c"
  | (New) "map_of (q_commands a) (s, cmd_id c) = None" "waiting h a s (cmd_node_path c) = []" "v = command_value c"
      "a' = a\<lparr>q_commands := ((s, cmd_id c), c) # q_commands a\<rparr>"
  using assms by (auto simp: spec_queue_def split: option.splits if_splits)

lemma spec_claim_cases:
  obtains (Again) ch where "map_of (q_choices a) (s, oc) = Some ch" "spec_claim h a s p oc = (ch, a)"
  | (Nothing) "map_of (q_choices a) (s, oc) = None" "waiting h a s p = []"
      "spec_claim h a s p oc = (None, a\<lparr>q_choices := ((s, oc), None) # q_choices a\<rparr>)"
  | (Taken) c cs where "map_of (q_choices a) (s, oc) = None" "waiting h a s p = c # cs"
      "spec_claim h a s p oc = (Some c, a\<lparr>q_used := ((s, cmd_id c), (p, oc)) # q_used a,
         q_choices := ((s, oc), Some c) # q_choices a\<rparr>)"
  by (cases "map_of (q_choices a) (s, oc)"; cases "waiting h a s p") (auto simp: spec_claim_def)

lemma spec_queue_ok:
  assumes ok: "selections_ok h a" and q: "spec_queue h a s c = Inr (v, a')"
  shows "selections_ok h a'"
  using q
proof (cases rule: spec_queue_cases)
  case New
  have ids: "command_ids a" and one: "one_waiting h a" and used: "used_chosen h a" and chosen: "chosen_used a"
    using ok by (simp_all add: selections_ok_def)
  have fresh: "(s, cmd_id c) \<notin> fst ` set (q_commands a)" using New(1) by (simp add: map_of_eq_None_iff)
  have alone: "\<not> (map_of (q_commands a) (s, i) = Some d \<and> h (cmd_node_path d) = h (cmd_node_path c) \<and> map_of (q_used a) (s, i) = None)"
    for i d
  proof
    assume d: "map_of (q_commands a) (s, i) = Some d \<and> h (cmd_node_path d) = h (cmd_node_path c) \<and> map_of (q_used a) (s, i) = None"
    with ids have "cmd_id d = i" unfolding command_ids_def by blast
    with d have "d \<in> set (waiting h a s (cmd_node_path c))" by (simp add: waiting_iff [OF ids])
    with New(2) show False by simp
  qed
  have "command_ids a'" using ids fresh New(4) by (auto simp: command_ids_def)
  moreover have "one_waiting h a'"
    unfolding one_waiting_def
  proof (intro allI impI)
    fix t i j d e
    assume l: "map_of (q_commands a') (t, i) = Some d" "map_of (q_commands a') (t, j) = Some e"
      "h (cmd_node_path d) = h (cmd_node_path e)" "map_of (q_used a') (t, i) = None" "map_of (q_used a') (t, j) = None"
    show "i = j"
    proof (cases "t = s \<and> (i = cmd_id c \<or> j = cmd_id c)")
      case True
      with l New(4) alone [of i d] alone [of j e] show ?thesis by (auto split: if_splits)
    next
      case False
      with l New(4) have "map_of (q_commands a) (t, i) = Some d" "map_of (q_commands a) (t, j) = Some e"
        "map_of (q_used a) (t, i) = None" "map_of (q_used a) (t, j) = None" by (auto split: if_splits)
      with l(3) one show ?thesis unfolding one_waiting_def by blast
    qed
  qed
  moreover have "used_chosen h a'"
    unfolding used_chosen_def
  proof (intro allI impI)
    fix t i p oc assume "map_of (q_used a') (t, i) = Some (p, oc)"
    then have "map_of (q_used a) (t, i) = Some (p, oc)" by (simp add: New(4))
    with used obtain d where "map_of (q_commands a) (t, i) = Some d" "map_of (q_choices a) (t, oc) = Some (Some d)"
      "h p = h (cmd_node_path d)" unfolding used_chosen_def by blast
    with New(1,4) show "\<exists>c. map_of (q_commands a') (t, i) = Some c \<and> map_of (q_choices a') (t, oc) = Some (Some c) \<and> h p = h (cmd_node_path c)"
      by auto
  qed
  moreover have "chosen_used a'"
    unfolding chosen_used_def
  proof (intro allI impI)
    fix t oc d assume "map_of (q_choices a') (t, oc) = Some (Some d)"
    then have "map_of (q_choices a) (t, oc) = Some (Some d)" by (simp add: New(4))
    with chosen have "map_of (q_commands a) (t, cmd_id d) = Some d" "\<exists>p. map_of (q_used a) (t, cmd_id d) = Some (p, oc)"
      unfolding chosen_used_def by blast+
    with New(1,4) show "map_of (q_commands a') (t, cmd_id d) = Some d \<and> (\<exists>p. map_of (q_used a') (t, cmd_id d) = Some (p, oc))"
      by auto
  qed
  ultimately show ?thesis by (simp add: selections_ok_def)
qed (use ok in simp)

lemma take_ok:
  assumes ok: "selections_ok h a" and fresh: "map_of (q_choices a) (s, oc) = None" and c: "c \<in> set (waiting h a s p)"
    and a': "a' = a\<lparr>q_used := ((s, cmd_id c), (p, oc)) # q_used a, q_choices := ((s, oc), Some c) # q_choices a\<rparr>"
  shows "selections_ok h a'"
proof -
  have ids: "command_ids a" and one: "one_waiting h a" and used: "used_chosen h a" and chosen: "chosen_used a"
    using ok by (simp_all add: selections_ok_def)
  have c': "map_of (q_commands a) (s, cmd_id c) = Some c" "h (cmd_node_path c) = h p" "map_of (q_used a) (s, cmd_id c) = None"
    using c by (simp_all add: waiting_iff [OF ids])
  have "command_ids a'" using ids by (simp add: command_ids_def a')
  moreover have "one_waiting h a'"
    unfolding one_waiting_def
  proof (intro allI impI)
    fix t i j d e
    assume l: "map_of (q_commands a') (t, i) = Some d" "map_of (q_commands a') (t, j) = Some e"
      "h (cmd_node_path d) = h (cmd_node_path e)" "map_of (q_used a') (t, i) = None" "map_of (q_used a') (t, j) = None"
    then have "map_of (q_used a) (t, i) = None" "map_of (q_used a) (t, j) = None" by (auto simp: a' split: if_splits)
    moreover have "map_of (q_commands a) (t, i) = Some d" "map_of (q_commands a) (t, j) = Some e" using l(1,2) by (simp_all add: a')
    ultimately show "i = j" using l(3) one unfolding one_waiting_def by blast
  qed
  moreover have "used_chosen h a'"
    unfolding used_chosen_def
  proof (intro allI impI)
    fix t i q oc' assume u: "map_of (q_used a') (t, i) = Some (q, oc')"
    show "\<exists>c. map_of (q_commands a') (t, i) = Some c \<and> map_of (q_choices a') (t, oc') = Some (Some c) \<and> h q = h (cmd_node_path c)"
    proof (cases "(t, i) = (s, cmd_id c)")
      case True
      with u c' show ?thesis by (simp add: a')
    next
      case False
      with u have "map_of (q_used a) (t, i) = Some (q, oc')" by (auto simp: a' split: if_splits)
      with used obtain d where "map_of (q_commands a) (t, i) = Some d" "map_of (q_choices a) (t, oc') = Some (Some d)"
        "h q = h (cmd_node_path d)" unfolding used_chosen_def by blast
      with fresh show ?thesis by (auto simp: a')
    qed
  qed
  moreover have "chosen_used a'"
    unfolding chosen_used_def
  proof (intro allI impI)
    fix t oc' d assume ch: "map_of (q_choices a') (t, oc') = Some (Some d)"
    show "map_of (q_commands a') (t, cmd_id d) = Some d \<and> (\<exists>q. map_of (q_used a') (t, cmd_id d) = Some (q, oc'))"
    proof (cases "(t, oc') = (s, oc)")
      case True
      with ch c' show ?thesis by (simp add: a')
    next
      case False
      with ch have "map_of (q_choices a) (t, oc') = Some (Some d)" by (auto simp: a' split: if_splits)
      with chosen have "map_of (q_commands a) (t, cmd_id d) = Some d" "\<exists>q. map_of (q_used a) (t, cmd_id d) = Some (q, oc')"
        unfolding chosen_used_def by blast+
      with c'(3) show ?thesis by (auto simp: a')
    qed
  qed
  ultimately show ?thesis by (simp add: selections_ok_def)
qed

lemma nothing_ok:
  assumes ok: "selections_ok h a" and fresh: "map_of (q_choices a) (s, oc) = None"
  shows "selections_ok h (a\<lparr>q_choices := ((s, oc), None) # q_choices a\<rparr>)" (is "selections_ok h ?b")
proof -
  have used: "used_chosen h a" and chosen: "chosen_used a" using ok by (simp_all add: selections_ok_def)
  have "used_chosen h ?b"
    unfolding used_chosen_def
  proof (intro allI impI)
    fix t i q oc' assume "map_of (q_used ?b) (t, i) = Some (q, oc')"
    then have "map_of (q_used a) (t, i) = Some (q, oc')" by simp
    with used obtain d where "map_of (q_commands a) (t, i) = Some d" "map_of (q_choices a) (t, oc') = Some (Some d)"
      "h q = h (cmd_node_path d)" unfolding used_chosen_def by blast
    with fresh show "\<exists>c. map_of (q_commands ?b) (t, i) = Some c \<and> map_of (q_choices ?b) (t, oc') = Some (Some c) \<and> h q = h (cmd_node_path c)"
      by auto
  qed
  moreover have "chosen_used ?b"
    using chosen unfolding chosen_used_def by simp
  ultimately show ?thesis using ok by (simp add: selections_ok_def command_ids_def one_waiting_def)
qed

lemma spec_claim_ok:
  assumes "selections_ok h a"
  shows "selections_ok h (snd (spec_claim h a s p oc))"
proof (cases rule: spec_claim_cases [of a s oc h p])
  case (Taken c cs)
  then show ?thesis using take_ok [OF assms Taken(1)] by simp
qed (simp_all add: assms nothing_ok)

end
