(* ===== verification/Zf_Selections_Sim.thy ===== *)
theory Zf_Selections_Sim
  imports Zf_Selections
begin

text \<open>
  The queue of window selections in the records of the content store refines its specification
  (\<open>Zf_Selections\<close>): the rows of the three kinds of records are the three tables.
\<close>

subsection \<open>Kinds and values\<close>

lemma like_kind [simp]: "like_selections (selection_kind h p)"
proof -
  have "map ascii_lower ''window-selections:'' = ''window-selections:''" by code_simp
  then show ?thesis by (simp only: like_selections_def selection_kind_def map_append prefix_def) blast
qed

lemma not_like [simp]: "\<not> like_selections selection_used" "\<not> like_selections invocation_selection"
  by code_simp+

lemma kinds_apart [simp]:
  "selection_kind h p \<noteq> selection_used" "selection_kind h p \<noteq> invocation_selection"
  "selection_used \<noteq> selection_kind h p" "invocation_selection \<noteq> selection_kind h p"
  using like_kind [of h p] not_like by metis+

lemma selection_kind_eq [simp]: "selection_kind h p = selection_kind h q \<longleftrightarrow> h p = h q"
  by (simp add: selection_kind_def)

definition choice_value :: "selection_command option \<Rightarrow> json" where
  "choice_value ch = (case ch of None \<Rightarrow> JNull | Some c \<Rightarrow> command_value c)"

lemma choice_value_simps [simp]: "choice_value None = JNull" "choice_value (Some c) = command_value c"
  by (simp_all add: choice_value_def)

lemma command_of_value [simp]: "command_of (command_value c) = Some c"
  by (simp add: command_of_def command_value_def string_field_def)

lemma command_value_inj [simp]: "command_value c = command_value d \<longleftrightarrow> c = d"
  by (metis command_of_value option.inject)

lemma decode_choice_value [simp]: "decode_choice (choice_value ch) = Inr ch"
proof (cases ch)
  case (Some c)
  have "command_value c \<noteq> JNull" by (simp add: command_value_def)
  with Some show ?thesis by (simp add: decode_choice_def)
qed (simp add: decode_choice_def)

subsection \<open>The relation\<close>

definition rows_are :: "codec \<Rightarrow> (string \<Rightarrow> string) \<Rightarrow> selections \<Rightarrow> ((string \<times> string \<times> string) \<times> string) list \<Rightarrow> bool" where
  "rows_are x h a rows \<longleftrightarrow> distinct (map fst rows)
     \<and> (\<forall>s i. map_of rows (s, selection_used, i) = map_option (\<lambda>(p, oc). ref_of x (use_value p oc)) (map_of (q_used a) (s, i)))
     \<and> (\<forall>s oc. map_of rows (s, invocation_selection, oc) = map_option (\<lambda>ch. ref_of x (choice_value ch)) (map_of (q_choices a) (s, oc)))
     \<and> (\<forall>s kind i r. like_selections kind \<longrightarrow>
          (map_of rows (s, kind, i) = Some r \<longleftrightarrow>
            (\<exists>c. map_of (q_commands a) (s, i) = Some c \<and> kind = selection_kind h (cmd_node_path c) \<and> r = ref_of x (command_value c))))"

definition kept_value :: "codec \<Rightarrow> json set \<Rightarrow> content_store \<Rightarrow> json \<Rightarrow> bool" where
  "kept_value x U st v \<longleftrightarrow> value_in x U v \<and> value_stored x (cs_db st) v"

definition selection_values :: "codec \<Rightarrow> json set \<Rightarrow> selections \<Rightarrow> content_store \<Rightarrow> bool" where
  "selection_values x U a st \<longleftrightarrow>
     (\<forall>k c. map_of (q_commands a) k = Some c \<longrightarrow> kept_value x U st (command_value c))
     \<and> (\<forall>k ch. map_of (q_choices a) k = Some ch \<longrightarrow> kept_value x U st (choice_value ch))"

definition selections_are :: "codec \<Rightarrow> json set \<Rightarrow> (string \<Rightarrow> string) \<Rightarrow> selections \<Rightarrow> content_store \<Rightarrow> bool" where
  "selections_are x U h a st \<longleftrightarrow> selections_ok h a \<and> store_in x U st \<and> rows_are x h a (db_records (cs_db st)) \<and> selection_values x U a st"

lemma selections_areD:
  assumes "selections_are x U h a st"
  shows "selections_ok h a" "command_ids a" "store_in x U st" "rows_are x h a (db_records (cs_db st))" "selection_values x U a st"
  using assms by (simp_all add: selections_are_def selections_ok_def)

lemma rows_areD:
  assumes "rows_are x h a rows"
  shows "distinct (map fst rows)"
    and "map_of rows (s, selection_used, i) = map_option (\<lambda>(p, oc). ref_of x (use_value p oc)) (map_of (q_used a) (s, i))"
    and "map_of rows (s, invocation_selection, oc) = map_option (\<lambda>ch. ref_of x (choice_value ch)) (map_of (q_choices a) (s, oc))"
    and "like_selections kind \<Longrightarrow> map_of rows (s, kind, i) = Some r \<longleftrightarrow>
          (\<exists>c. map_of (q_commands a) (s, i) = Some c \<and> kind = selection_kind h (cmd_node_path c) \<and> r = ref_of x (command_value c))"
  using assms unfolding rows_are_def by blast+

lemma empty_selections: "store_in x U empty_store \<Longrightarrow> selections_are x U h no_selections empty_store"
  using no_selections_ok by (simp add: selections_are_def rows_are_def selection_values_def no_selections_def)
    (simp add: empty_store_def)

subsection \<open>Queries\<close>

lemma existing_sim:
  assumes R: "selections_are x U h a st"
  shows "existing_selection (cs_db st) s i = map_option (\<lambda>c. ref_of x (command_value c)) (map_of (q_commands a) (s, i))"
proof -
  note rows = rows_areD [OF selections_areD(4) [OF R]]
  let ?P = "\<lambda>((s', kind, key), _ :: string). s' = s \<and> like_selections kind \<and> key = i"
  show ?thesis
  proof (cases "find ?P (db_records (cs_db st))")
    case None
    have "map_of (q_commands a) (s, i) = None"
    proof (cases "map_of (q_commands a) (s, i)")
      case (Some c)
      then have "map_of (db_records (cs_db st)) (s, selection_kind h (cmd_node_path c), i) = Some (ref_of x (command_value c))"
        using rows(4) [OF like_kind] by blast
      then have "((s, selection_kind h (cmd_node_path c), i), ref_of x (command_value c)) \<in> set (db_records (cs_db st))"
        by (rule map_of_SomeD)
      with None show ?thesis unfolding find_None_iff by force
    qed
    with None show ?thesis by (simp add: existing_selection_def)
  next
    case (Some row)
    obtain s' kind key r where row: "row = ((s', kind, key), r)" by (metis surj_pair)
    have "row \<in> set (db_records (cs_db st))" "?P row" using find_SomeD [OF Some] by blast+
    then have "map_of (db_records (cs_db st)) (s, kind, i) = Some r" and like: "like_selections kind"
      using rows(1) row by simp_all
    then obtain c where "map_of (q_commands a) (s, i) = Some c" "r = ref_of x (command_value c)"
      using rows(4) [OF like] by blast
    with Some row show ?thesis by (simp add: existing_selection_def)
  qed
qed

lemma unconsumed_sim:
  assumes R: "selections_are x U h a st"
  shows "(i, r) \<in> set (unconsumed (cs_db st) s (selection_kind h p)) \<longleftrightarrow>
    (\<exists>c \<in> set (waiting h a s p). i = cmd_id c \<and> r = ref_of x (command_value c))" (is "?L \<longleftrightarrow> ?R")
proof -
  note rows = rows_areD [OF selections_areD(4) [OF R]] and ids = selections_areD(2) [OF R]
  let ?recs = "db_records (cs_db st)"
  have "?L \<longleftrightarrow> ((s, selection_kind h p, i), r) \<in> set ?recs \<and> map_of ?recs (s, selection_used, i) = None"
    unfolding unconsumed_def by (auto simp: image_iff)
  also have "\<dots> \<longleftrightarrow> map_of ?recs (s, selection_kind h p, i) = Some r \<and> map_of (q_used a) (s, i) = None"
    using rows(1,2) by simp
  also have "\<dots> \<longleftrightarrow> (\<exists>c. map_of (q_commands a) (s, i) = Some c \<and> h p = h (cmd_node_path c) \<and> r = ref_of x (command_value c))
      \<and> map_of (q_used a) (s, i) = None"
    using rows(4) [OF like_kind] by simp
  also have "\<dots> \<longleftrightarrow> ?R"
  proof
    assume "(\<exists>c. map_of (q_commands a) (s, i) = Some c \<and> h p = h (cmd_node_path c) \<and> r = ref_of x (command_value c))
      \<and> map_of (q_used a) (s, i) = None"
    then obtain c where c: "map_of (q_commands a) (s, i) = Some c" "h p = h (cmd_node_path c)" "r = ref_of x (command_value c)"
      "map_of (q_used a) (s, i) = None" by blast
    have "i = cmd_id c" using ids c(1) unfolding command_ids_def by blast
    with c have "c \<in> set (waiting h a s p)" unfolding waiting_iff [OF ids] by metis
    with c(3) \<open>i = cmd_id c\<close> show ?R by blast
  qed (auto simp: waiting_iff [OF ids])
  finally show ?thesis .
qed

lemma unconsumed_nil:
  assumes R: "selections_are x U h a st"
  shows "unconsumed (cs_db st) s (selection_kind h p) = [] \<longleftrightarrow> waiting h a s p = []"
  using unconsumed_sim [OF R] by (metis list.set_intros(1) list.exhaust empty_iff list.set(1) surj_pair)

lemma unconsumed_head:
  assumes R: "selections_are x U h a st" and w: "waiting h a s p = c # cs"
  obtains rest where "unconsumed (cs_db st) s (selection_kind h p) = (cmd_id c, ref_of x (command_value c)) # rest"
proof -
  have "unconsumed (cs_db st) s (selection_kind h p) \<noteq> []" using unconsumed_nil [OF R] w by simp
  then obtain i r rest where u: "unconsumed (cs_db st) s (selection_kind h p) = (i, r) # rest"
    by (metis list.exhaust surj_pair)
  then have "(i, r) \<in> set (unconsumed (cs_db st) s (selection_kind h p))" by simp
  then obtain d where d: "d \<in> set (waiting h a s p)" "i = cmd_id d" "r = ref_of x (command_value d)"
    unfolding unconsumed_sim [OF R] by blast
  have "c \<in> set (waiting h a s p)" using w by simp
  from waiting_unique [OF selections_areD(1) [OF R] this d(1)] d u show thesis using that by simp
qed

subsection \<open>Transactions\<close>

definition add_rows :: "((string \<times> string \<times> string) \<times> string) list \<Rightarrow> content_db \<Rightarrow> content_db" where
  "add_rows rows db = db\<lparr>db_records := rows @ db_records db\<rparr>"

lemma add_rows_update: "snd ` set rows \<subseteq> R \<Longrightarrow> record_update R (add_rows rows)"
  by (auto simp: record_update_def add_rows_def)

lemma insert_record_rows:
  "map_of (db_records db) k = None \<Longrightarrow> insert_record k r db = Inr (add_rows [(k, r)] db)"
  by (simp add: insert_record_def add_rows_def)

lemma add_rows_records [simp]: "db_records (add_rows rows db) = rows @ db_records db"
  by (simp add: add_rows_def)

lemma add_rows_twice [simp]: "add_rows rs (add_rows rs' db) = add_rows (rs @ rs') db"
  by (simp add: add_rows_def)

lemma persist_records: "persist_in x db prep = Inr db' \<Longrightarrow> db_records db' = db_records db"
  by (auto simp: persist_in_def insert_blobs_def Let_def split: sum.splits)

lemma commit_rows:
  assumes st: "store_in x U st" and v: "value_in x U v"
    and rows: "snd ` set rows \<subseteq> insert (ref_of x v) (dom (map_of (db_content (cs_db st))))"
  obtains prep db st' where "prepare x st v = Inr prep" "prep_reference prep = ref_of x v"
    "persist_in x (cs_db st) prep = Inr db" "db_records db = db_records (cs_db st)"
    "st' = \<lparr>cs_db = add_rows rows db, cs_committed = mark_committed prep (cs_committed st)\<rparr>" "store_in x U st'"
    "value_stored x (cs_db st') v" "map_of (db_content (cs_db st)) \<subseteq>\<^sub>m map_of (db_content (cs_db st'))"
proof -
  obtain prep st' where c: "prepare x st v = Inr prep" "prep_reference prep = ref_of x v"
    "commit_content x st prep (add_rows rows) = Inr st'" "store_in x U st'"
    "value_stored x (cs_db st') v" "map_of (db_content (cs_db st)) \<subseteq>\<^sub>m map_of (db_content (cs_db st'))"
    by (rule commit_in [OF st v add_rows_update [OF rows]])
  from c(3) obtain db where "persist_in x (cs_db st) prep = Inr db"
    "st' = \<lparr>cs_db = add_rows rows db, cs_committed = mark_committed prep (cs_committed st)\<rparr>"
    by (auto simp: commit_content_def split: sum.splits)
  with c persist_records show thesis using that by blast
qed

lemma kept_mono:
  "map_of (db_content (cs_db st)) \<subseteq>\<^sub>m map_of (db_content (cs_db st')) \<Longrightarrow> kept_value x U st v \<Longrightarrow> kept_value x U st' v"
  unfolding kept_value_def using value_stored_mono by blast

lemma values_mono:
  assumes "map_of (db_content (cs_db st)) \<subseteq>\<^sub>m map_of (db_content (cs_db st'))" and "selection_values x U a st"
  shows "selection_values x U a st'"
  using assms(2) kept_mono [OF assms(1)] unfolding selection_values_def by blast

lemma kept_row:
  assumes "kept_value x U st v"
  shows "ref_of x v \<in> dom (map_of (db_content (cs_db st)))"
proof -
  obtain b where b: "b \<in> set (blobs_of x v)" "ref_of x v = reference x b" by (rule root_body)
  with assms have "stored x (cs_db st) (ref_of x v) b" by (simp add: kept_value_def value_stored_def)
  then show ?thesis using stored_row by (simp add: domIff)
qed

lemma kept_resolves:
  assumes "store_in x U st" and "kept_value x U st v"
  shows "resolve_content x (cs_db st) (ref_of x v) = Inr v"
  using assms by (intro resolve_stored)
    (auto simp: kept_value_def store_in_def store_ok_def value_in_def intro: codec_ok_subset)

lemma rows_add_command:
  assumes rows: "rows_are x h a rows" and new: "map_of (q_commands a) (s, cmd_id c) = None"
  shows "rows_are x h (a\<lparr>q_commands := ((s, cmd_id c), c) # q_commands a\<rparr>)
    (((s, selection_kind h (cmd_node_path c), cmd_id c), ref_of x (command_value c)) # rows)" (is "rows_are x h ?a ?rows")
proof -
  note r = rows_areD [OF rows]
  have free: "map_of rows (s, selection_kind h (cmd_node_path c), cmd_id c) = None"
    using r(4) [OF like_kind, of s h "cmd_node_path c" "cmd_id c"] new
    by (cases "map_of rows (s, selection_kind h (cmd_node_path c), cmd_id c)") auto
  then have "distinct (map fst ?rows)" using r(1) by (simp add: map_of_eq_None_iff)
  moreover have "map_of ?rows (t, kind, i) = Some q \<longleftrightarrow>
      (\<exists>d. map_of (q_commands ?a) (t, i) = Some d \<and> kind = selection_kind h (cmd_node_path d) \<and> q = ref_of x (command_value d))"
    if like: "like_selections kind" for t kind i q
  proof (cases "t = s \<and> i = cmd_id c")
    case True
    have "map_of rows (s, kind, cmd_id c) = None"
      using r(4) [OF like, of s "cmd_id c"] new by (cases "map_of rows (s, kind, cmd_id c)") auto
    with True show ?thesis by auto
  next
    case False
    then have "map_of ?rows (t, kind, i) = map_of rows (t, kind, i)" "map_of (q_commands ?a) (t, i) = map_of (q_commands a) (t, i)"
      by auto
    with r(4) [OF like, of t i q] show ?thesis by simp
  qed
  ultimately show ?thesis using r(2,3) unfolding rows_are_def by simp
qed

lemma queue_sim:
  assumes R: "selections_are x U h a st" and v: "value_in x U (command_value c)"
  shows "spec_queue h a s c = Inl e \<Longrightarrow> queue_window_selection x h st s c = Inl e"
    and "spec_queue h a s c = Inr (w, a') \<Longrightarrow>
      \<exists>st'. queue_window_selection x h st s c = Inr (w, st') \<and> selections_are x U h a' st'"
proof -
  note D = selections_areD [OF R]
  let ?row = "((s, selection_kind h (cmd_node_path c), cmd_id c), ref_of x (command_value c))"
  obtain prep db st' where c: "prepare x st (command_value c) = Inr prep" "prep_reference prep = ref_of x (command_value c)"
    "persist_in x (cs_db st) prep = Inr db" "db_records db = db_records (cs_db st)"
    "st' = \<lparr>cs_db = add_rows [?row] db, cs_committed = mark_committed prep (cs_committed st)\<rparr>" "store_in x U st'"
    "value_stored x (cs_db st') (command_value c)" "map_of (db_content (cs_db st)) \<subseteq>\<^sub>m map_of (db_content (cs_db st'))"
    by (rule commit_rows [OF D(3) v, of "[?row]"]) simp_all
  have old: "ref_of x (command_value d) = ref_of x (command_value c) \<longleftrightarrow> d = c" if "map_of (q_commands a) k = Some d" for d k
  proof -
    have "value_in x U (command_value d)" using D(5) that unfolding selection_values_def kept_value_def by blast
    with content.names_apart [OF D(3), of "[command_value d, command_value c]" "command_value d" "command_value c"] v
    show ?thesis by simp
  qed
  show "queue_window_selection x h st s c = Inl e" if "spec_queue h a s c = Inl e"
    using that c(1,2) old existing_sim [OF R] unconsumed_nil [OF R]
    by (auto simp: queue_window_selection_def spec_queue_def Let_def split: option.splits if_splits)
  assume q: "spec_queue h a s c = Inr (w, a')"
  then show "\<exists>st'. queue_window_selection x h st s c = Inr (w, st') \<and> selections_are x U h a' st'"
  proof (cases rule: spec_queue_cases)
    case Again
    then show ?thesis using c(1,2) existing_sim [OF R, of s "cmd_id c"] R
      by (simp add: queue_window_selection_def Let_def)
  next
    case New
    have rows': "rows_are x h a' (db_records (cs_db st'))"
      using rows_add_command [OF D(4) New(1)] by (simp add: New(4) c(4,5))
    have "map_of (db_records db) (s, selection_kind h (cmd_node_path c), cmd_id c) = None"
      using rows_areD(1) [OF rows'] by (simp add: c(4,5) map_of_eq_None_iff)
    then have "queue_window_selection x h st s c = Inr (w, st')"
      using New c(1-3,5) existing_sim [OF R, of s "cmd_id c"] unconsumed_nil [OF R, of s "cmd_node_path c"]
      by (simp add: queue_window_selection_def Let_def insert_record_rows)
    moreover have "kept_value x U st' (command_value c)" using v c(7) by (simp add: kept_value_def)
    then have "selection_values x U a' st'"
      using values_mono [OF c(8) D(5)] by (auto simp: selection_values_def New(4))
    ultimately show ?thesis
      using rows' c(6) spec_queue_ok [OF D(1) q] by (auto simp: selections_are_def)
  qed
qed

lemma rows_add_choice:
  assumes rows: "rows_are x h a rows" and new: "map_of (q_choices a) (s, oc) = None"
  shows "rows_are x h (a\<lparr>q_choices := ((s, oc), ch) # q_choices a\<rparr>)
    (((s, invocation_selection, oc), ref_of x (choice_value ch)) # rows)" (is "rows_are x h ?a ?rows")
proof -
  note r = rows_areD [OF rows]
  have "map_of rows (s, invocation_selection, oc) = None" using r(3) new by simp
  then have "distinct (map fst ?rows)" using r(1) by (simp add: map_of_eq_None_iff)
  moreover have "map_of ?rows (t, kind, i) = map_of rows (t, kind, i)" if "like_selections kind" for t kind i
    using that by auto
  ultimately show ?thesis using r(2-4) unfolding rows_are_def by simp
qed

lemma rows_add_used:
  assumes rows: "rows_are x h a rows" and new: "map_of (q_used a) (s, i) = None"
  shows "rows_are x h (a\<lparr>q_used := ((s, i), (p, oc)) # q_used a\<rparr>)
    (((s, selection_used, i), ref_of x (use_value p oc)) # rows)" (is "rows_are x h ?a ?rows")
proof -
  note r = rows_areD [OF rows]
  have "map_of rows (s, selection_used, i) = None" using r(2) new by simp
  then have "distinct (map fst ?rows)" using r(1) by (simp add: map_of_eq_None_iff)
  moreover have "map_of ?rows (t, kind, j) = map_of rows (t, kind, j)" if "like_selections kind" for t kind j
    using that by auto
  ultimately show ?thesis using r(2-4) unfolding rows_are_def by simp
qed

lemma intern_keeps:
  assumes R: "selections_are x U h a st" and v: "value_in x U v"
  obtains st1 where "intern x st v = Inr (ref_of x v, st1)" "selections_are x U h a st1" "kept_value x U st1 v"
proof -
  note D = selections_areD [OF R]
  obtain st1 where c: "intern x st v = Inr (ref_of x v, st1)" "store_in x U st1"
    "db_records (cs_db st1) = db_records (cs_db st)" "value_stored x (cs_db st1) v"
    "map_of (db_content (cs_db st)) \<subseteq>\<^sub>m map_of (db_content (cs_db st1))"
    by (rule intern_in [OF D(3) v])
  have "selections_are x U h a st1" using D c values_mono [OF c(5) D(5)] by (simp add: selections_are_def)
  with c(1,4) v show thesis using that by (simp add: kept_value_def)
qed

text \<open>The transaction of a claim for a new occurrence.\<close>

lemma claim_tx_new:
  assumes R: "selections_are x U h a st" and use: "value_in x U (use_value p oc)" and null: "kept_value x U st JNull"
    and new: "map_of (q_choices a) (s, oc) = None"
  obtains st' where "claim_tx x h st s p oc (ref_of x JNull) = Inr (ref_of x (choice_value (fst (spec_claim h a s p oc))), st')"
    "selections_are x U h (snd (spec_claim h a s p oc)) st'"
proof -
  note D = selections_areD [OF R] and rows = rows_areD [OF selections_areD(4) [OF R]]
  have none: "map_of (db_records (cs_db st)) (s, invocation_selection, oc) = None" using rows(3) new by simp
  have ok: "selections_ok h (snd (spec_claim h a s p oc))" by (rule spec_claim_ok [OF D(1)])
  show thesis
  proof (cases "waiting h a s p")
    case Nil
    let ?row = "((s, invocation_selection, oc), ref_of x JNull)"
    obtain prep db st' where c: "prepare x st (use_value p oc) = Inr prep" "prep_reference prep = ref_of x (use_value p oc)"
      "persist_in x (cs_db st) prep = Inr db" "db_records db = db_records (cs_db st)"
      "st' = \<lparr>cs_db = add_rows [?row] db, cs_committed = mark_committed prep (cs_committed st)\<rparr>" "store_in x U st'"
      "map_of (db_content (cs_db st)) \<subseteq>\<^sub>m map_of (db_content (cs_db st'))"
      by (rule commit_rows [OF D(3) use, of "[?row]"]) (use kept_row [OF null] in simp_all)
    have sc: "spec_claim h a s p oc = (None, a\<lparr>q_choices := ((s, oc), None) # q_choices a\<rparr>)"
      using new Nil by (simp add: spec_claim_def)
    have "unconsumed (cs_db st) s (selection_kind h p) = []" using unconsumed_nil [OF R] Nil by simp
    then have tx: "claim_tx x h st s p oc (ref_of x JNull) = Inr (ref_of x JNull, st')"
      using c(1-5) none by (simp add: claim_tx_def insert_record_rows)
    have "rows_are x h (snd (spec_claim h a s p oc)) (db_records (cs_db st'))"
      using rows_add_choice [OF D(4) new, of None] by (simp add: sc c(4,5))
    moreover have "selection_values x U (snd (spec_claim h a s p oc)) st'"
      using values_mono [OF c(7) D(5)] kept_mono [OF c(7) null] by (auto simp: selection_values_def sc)
    ultimately show thesis using that [of st'] tx ok c(6) sc by (simp add: selections_are_def)
  next
    case (Cons w ws)
    let ?rows = "[((s, invocation_selection, oc), ref_of x (command_value w)), ((s, selection_used, cmd_id w), ref_of x (use_value p oc))]"
    have w: "map_of (q_commands a) (s, cmd_id w) = Some w" "map_of (q_used a) (s, cmd_id w) = None"
      using Cons waiting_iff [OF D(2), of w h s p] by simp_all
    have kept: "kept_value x U st (command_value w)" using D(5) w(1) unfolding selection_values_def by blast
    obtain prep db st' where c: "prepare x st (use_value p oc) = Inr prep" "prep_reference prep = ref_of x (use_value p oc)"
      "persist_in x (cs_db st) prep = Inr db" "db_records db = db_records (cs_db st)"
      "st' = \<lparr>cs_db = add_rows ?rows db, cs_committed = mark_committed prep (cs_committed st)\<rparr>" "store_in x U st'"
      "map_of (db_content (cs_db st)) \<subseteq>\<^sub>m map_of (db_content (cs_db st'))"
      by (rule commit_rows [OF D(3) use, of ?rows]) (use kept_row [OF kept] in simp_all)
    obtain rest where u: "unconsumed (cs_db st) s (selection_kind h p) = (cmd_id w, ref_of x (command_value w)) # rest"
      by (rule unconsumed_head [OF R Cons])
    have free: "map_of (db_records (cs_db st)) (s, selection_used, cmd_id w) = None" using rows(2) w(2) by simp
    let ?b = "a\<lparr>q_used := ((s, cmd_id w), (p, oc)) # q_used a\<rparr>"
    have sc: "spec_claim h a s p oc = (Some w, ?b\<lparr>q_choices := ((s, oc), Some w) # q_choices ?b\<rparr>)"
      using new Cons by (simp add: spec_claim_def)
    have tx: "claim_tx x h st s p oc (ref_of x JNull) = Inr (ref_of x (command_value w), st')"
      using c(1-5) none u free by (simp add: claim_tx_def insert_record_rows)
    have "map_of (q_choices ?b) (s, oc) = None" using new by simp
    from rows_add_choice [OF rows_add_used [OF D(4) w(2)] this, of "Some w"]
    have "rows_are x h (snd (spec_claim h a s p oc)) (db_records (cs_db st'))" by (simp add: sc c(4,5))
    moreover have "selection_values x U (snd (spec_claim h a s p oc)) st'"
      using values_mono [OF c(7) D(5)] kept_mono [OF c(7) kept] by (auto simp: selection_values_def sc)
    ultimately show thesis using that [of st'] tx ok c(6) sc by (simp add: selections_are_def)
  qed
qed

lemma claim_selection_sim:
  assumes R: "selections_are x U h a st" and use: "value_in x U (use_value p oc)" and null: "value_in x U JNull"
  shows "fst (claim_window_selection x h st s p oc) = Inr (fst (spec_claim h a s p oc))"
    and "selections_are x U h (snd (spec_claim h a s p oc)) (snd (claim_window_selection x h st s p oc))"
proof -
  obtain st1 where i: "intern x st JNull = Inr (ref_of x JNull, st1)" "selections_are x U h a st1" "kept_value x U st1 JNull"
    by (rule intern_keeps [OF R null])
  note D = selections_areD [OF i(2)]
  obtain st' where tx: "claim_tx x h st1 s p oc (ref_of x JNull) = Inr (ref_of x (choice_value (fst (spec_claim h a s p oc))), st')"
    and R': "selections_are x U h (snd (spec_claim h a s p oc)) st'"
  proof (cases "map_of (q_choices a) (s, oc)")
    case None
    from claim_tx_new [OF i(2) use i(3) None] show thesis using that by blast
  next
    case (Some ch)
    then have "map_of (db_records (cs_db st1)) (s, invocation_selection, oc) = Some (ref_of x (choice_value ch))"
      using rows_areD(3) [OF D(4)] by simp
    moreover obtain prep where "prepare x st1 (use_value p oc) = Inr prep"
      using use prepare_fits [of x st1 "use_value p oc"] by (auto simp: value_in_def)
    moreover have "spec_claim h a s p oc = (ch, a)" using Some by (simp add: spec_claim_def)
    ultimately show thesis using that [of st1] i(2) by (simp add: claim_tx_def)
  qed
  have "map_of (q_choices (snd (spec_claim h a s p oc))) (s, oc) = Some (fst (spec_claim h a s p oc))"
    by (cases rule: spec_claim_cases [of a s oc h p]) simp_all
  then have "kept_value x U st' (choice_value (fst (spec_claim h a s p oc)))"
    using selections_areD(5) [OF R'] unfolding selection_values_def by blast
  from kept_resolves [OF selections_areD(3) [OF R'] this] tx i(1) R'
  show "fst (claim_window_selection x h st s p oc) = Inr (fst (spec_claim h a s p oc))"
    and "selections_are x U h (snd (spec_claim h a s p oc)) (snd (claim_window_selection x h st s p oc))"
    by (simp_all add: claim_window_selection_def)
qed

subsection \<open>Refinement\<close>

fun selection_in :: "codec \<Rightarrow> json set \<Rightarrow> selections \<Rightarrow> selection_op \<Rightarrow> bool" where
  "selection_in x U a (QueueOp s c) = value_in x U (command_value c)"
| "selection_in x U a (ClaimSelOp s p oc) = (value_in x U (use_value p oc) \<and> value_in x U JNull)"

interpretation selections: simulation "selections_are x U h" "selection_in x U" "spec_selection_step h" "selection_step x h"
  for x :: codec and U :: "json set" and h :: "string \<Rightarrow> string"
proof unfold_locales
  fix a st op assume R: "selections_are x U h a st" and adm: "selection_in x U a op"
  show "fst (selection_step x h st op) = fst (spec_selection_step h a op)
    \<and> selections_are x U h (snd (spec_selection_step h a op)) (snd (selection_step x h st op))"
  proof (cases op)
    case (QueueOp s c)
    with adm have v: "value_in x U (command_value c)" by simp
    show ?thesis
    proof (cases "spec_queue h a s c")
      case (Inl e)
      with queue_sim(1) [OF R v Inl] R QueueOp show ?thesis by simp
    next
      case (Inr q)
      obtain w a' where q: "q = (w, a')" by fastforce
      with Inr queue_sim(2) [OF R v] QueueOp show ?thesis by fastforce
    qed
  next
    case (ClaimSelOp s p oc)
    with adm claim_selection_sim [OF R, of p oc s] show ?thesis by (simp add: case_prod_beta)
  qed
qed

end
