(* ===== verification/Zf_Selections_Props.thy ===== *)
theory Zf_Selections_Props
  imports Zf_Selections_Sim
begin

text \<open>
  What the queue of window selections guarantees (\<open>zf-storage/src/data.rs\<close>): every occurrence
  keeps its choice, no command goes to two occurrences, a queued command is delivered to the
  next occurrence of its node, and which requests are refused.
\<close>

subsection \<open>Tables only grow\<close>

definition selections_le :: "selections \<Rightarrow> selections \<Rightarrow> bool" where
  "selections_le a b \<longleftrightarrow> map_of (q_commands a) \<subseteq>\<^sub>m map_of (q_commands b) \<and> map_of (q_choices a) \<subseteq>\<^sub>m map_of (q_choices b)"

lemma selections_le_refl [simp]: "selections_le a a"
  by (simp add: selections_le_def)

lemma selections_le_trans: "selections_le a b \<Longrightarrow> selections_le b c \<Longrightarrow> selections_le a c"
  unfolding selections_le_def by (blast intro: map_le_trans)

lemma selections_leD:
  assumes "selections_le a b"
  shows "map_of (q_commands a) k = Some c \<Longrightarrow> map_of (q_commands b) k = Some c"
    and "map_of (q_choices a) k = Some ch \<Longrightarrow> map_of (q_choices b) k = Some ch"
  using assms unfolding selections_le_def map_le_def by (metis domI)+

lemma map_of_Cons_le: "map_of m k = None \<Longrightarrow> map_of m \<subseteq>\<^sub>m map_of ((k, v) # m)"
  by (auto simp: map_le_def)

lemma spec_claim_le: "selections_le a (snd (spec_claim h a s p oc))"
  by (cases rule: spec_claim_cases [of a s oc h p]) (simp_all add: selections_le_def map_of_Cons_le del: map_of.simps)

lemma selection_step_le: "selections_le a (snd (spec_selection_step h a op))"
proof (cases op)
  case (QueueOp s c)
  show ?thesis
  proof (cases "spec_queue h a s c")
    case (Inr q)
    obtain w a' where q: "q = (w, a')" by fastforce
    from Inr [unfolded q] have "selections_le a a'"
      by (cases rule: spec_queue_cases) (simp_all add: selections_le_def map_of_Cons_le del: map_of.simps)
    with Inr q QueueOp show ?thesis by simp
  qed (simp add: QueueOp)
next
  case (ClaimSelOp s p oc)
  then show ?thesis using spec_claim_le [of a h s p oc] by (simp add: case_prod_beta)
qed

lemma along_True [simp]: "along (\<lambda>_ _. True) step s ops"
  by (induction ops arbitrary: s) simp_all

lemma selection_run_le: "selections_le a (snd (trace (spec_selection_step h) a ops))"
  by (rule trace_invariant [where I = "selections_le a" and P = "\<lambda>_ _. True"])
    (auto intro: selections_le_trans selection_step_le)

subsection \<open>After a command was queued\<close>

lemma queued_kept:
  assumes R: "selections_are x U h a st" and v: "value_in x U (command_value c)"
    and queued: "queue_window_selection x h st s c = Inr (w, st1)"
    and run: "along (selection_in x U) (spec_selection_step h) (snd (spec_selection_step h a (QueueOp s c))) ops"
  obtains b where "selections_are x U h b (snd (trace (selection_step x h) st1 ops))" "map_of (q_commands b) (s, cmd_id c) = Some c"
proof -
  have in_op: "selection_in x U a (QueueOp s c)" using v by simp
  let ?a = "snd (spec_selection_step h a (QueueOp s c))"
  from selections.step [OF R in_op] queued have fst_eq: "Queued (Inr w) = fst (spec_selection_step h a (QueueOp s c))"
    and R1: "selections_are x U h ?a st1" by simp_all
  from fst_eq obtain a1 where sq: "spec_queue h a s c = Inr (w, a1)" by (auto split: sum.splits)
  then have "map_of (q_commands a1) (s, cmd_id c) = Some c" by (cases rule: spec_queue_cases) simp_all
  moreover have "?a = a1" using sq by simp
  ultimately have "map_of (q_commands ?a) (s, cmd_id c) = Some c" by (simp only:)
  then have "map_of (q_commands (snd (trace (spec_selection_step h) ?a ops))) (s, cmd_id c) = Some c"
    by (rule selections_leD(1) [OF selection_run_le])
  moreover have "selections_are x U h (snd (trace (spec_selection_step h) ?a ops)) (snd (trace (selection_step x h) st1 ops))"
    using selections.refines [OF R1 run] by blast
  ultimately show thesis using that by blast
qed

lemma still_waiting:
  assumes R: "selections_are x U h b st" and c: "map_of (q_commands b) (s, cmd_id c) = Some c"
    and unused: "map_of (db_records (cs_db st)) (s, selection_used, cmd_id c) = None" and p: "h p = h (cmd_node_path c)"
  obtains cs where "waiting h b s p = c # cs"
proof -
  have "map_of (q_used b) (s, cmd_id c) = None"
    using rows_areD(2) [OF selections_areD(4) [OF R], of s "cmd_id c"] unused by simp
  with c p have c_in: "c \<in> set (waiting h b s p)" by (simp add: waiting_iff [OF selections_areD(2) [OF R]])
  then obtain d cs where w: "waiting h b s p = d # cs" by (cases "waiting h b s p") auto
  have "d = c" using waiting_unique [OF selections_areD(1) [OF R] c_in] w by simp
  with w show thesis using that by simp
qed

subsection \<open>An example\<close>

definition example_command :: "string \<Rightarrow> selection_command" where
  "example_command i = \<lparr>cmd_id = i, cmd_node_path = ''x'', cmd_alias = ''x'', cmd_revision = ''x'', cmd_program_hash = ''x''\<rparr>"

definition selection_bodies :: "json list" where
  "selection_bodies =
     (let x = example_ref 0; y = example_ref 1 in
      [scalar_body (JString ''x''), scalar_body (JString ''y''), scalar_body JNull,
       object_body [(''alias'', x), (''id'', x), (''nodePath'', x), (''programHash'', x), (''revision'', x)],
       object_body [(''alias'', x), (''id'', y), (''nodePath'', x), (''programHash'', x), (''revision'', x)],
       object_body [(''nodePath'', x), (''occurrence'', x)], object_body [(''nodePath'', x), (''occurrence'', y)]])"

definition selection_codec :: codec where
  "selection_codec = table_codec selection_bodies"

lemma selection_start: "selections_are selection_codec (set selection_bodies) h no_selections empty_store"
  unfolding selection_codec_def
  by (intro empty_selections empty_store_in table_codec_ok) (simp add: selection_bodies_def Let_def)

lemma selection_example_values:
  "value_in selection_codec (set selection_bodies) JNull"
  "value_in selection_codec (set selection_bodies) (command_value (example_command ''x''))"
  "value_in selection_codec (set selection_bodies) (command_value (example_command ''y''))"
  "value_in selection_codec (set selection_bodies) (use_value ''x'' ''x'')"
  "value_in selection_codec (set selection_bodies) (use_value ''x'' ''y'')"
  unfolding selection_codec_def by (rule value_in_tableI, code_simp)+

lemma example_queued:
  obtains st1 where "queue_window_selection selection_codec id empty_store ''s'' (example_command ''x'') =
      Inr (command_value (example_command ''x''), st1)"
    "selections_are selection_codec (set selection_bodies) id
       (no_selections\<lparr>q_commands := [((''s'', ''x''), example_command ''x'')]\<rparr>) st1"
proof -
  have "spec_queue id no_selections ''s'' (example_command ''x'') = Inr (command_value (example_command ''x''),
      no_selections\<lparr>q_commands := [((''s'', ''x''), example_command ''x'')]\<rparr>)"
    by (simp add: spec_queue_def no_selections_def waiting_def example_command_def)
  from queue_sim(2) [OF selection_start selection_example_values(2) this] show thesis using that by blast
qed

subsection \<open>Properties\<close>

text \<open>
  C31. Every occurrence keeps its choice and no command is consumed twice: two claims in one
  scope, with anything in between, both succeed; for the same occurrence the second returns the
  choice of the first, including the choice of nothing, and for different occurrences they never
  return the same command.
\<close>

theorem selection_once:
  assumes R: "selections_are x U h a st" and use: "value_in x U (use_value p oc)" "value_in x U (use_value p' oc')" "value_in x U JNull"
    and first: "claim_window_selection x h st s p oc = (r1, st1)"
    and run: "along (selection_in x U) (spec_selection_step h) (snd (spec_selection_step h a (ClaimSelOp s p oc))) ops"
    and second: "claim_window_selection x h (snd (trace (selection_step x h) st1 ops)) s p' oc' = (r2, st2)"
  shows "\<exists>ch1 ch2. r1 = Inr ch1 \<and> r2 = Inr ch2
    \<and> (if oc' = oc then ch2 = ch1 else \<forall>c d. ch1 = Some c \<and> ch2 = Some d \<longrightarrow> cmd_id d \<noteq> cmd_id c)"
proof -
  let ?a1 = "snd (spec_claim h a s p oc)"
  note sim1 = claim_selection_sim [OF R use(1,3), where s = s]
  have R1: "selections_are x U h ?a1 st1" and r1: "r1 = Inr (fst (spec_claim h a s p oc))" using sim1 first by simp_all
  have run1: "along (selection_in x U) (spec_selection_step h) ?a1 ops" using run by (simp add: case_prod_beta)
  let ?b = "snd (trace (spec_selection_step h) ?a1 ops)"
  have Rb: "selections_are x U h ?b (snd (trace (selection_step x h) st1 ops))" using selections.refines [OF R1 run1] by blast
  note sim2 = claim_selection_sim [OF Rb use(2,3), where s = s]
  have r2: "r2 = Inr (fst (spec_claim h ?b s p' oc'))" and R2: "selections_are x U h (snd (spec_claim h ?b s p' oc')) st2"
    using sim2 second by simp_all
  have chosen: "map_of (q_choices (snd (spec_claim h g s q o'))) (s, o') = Some (fst (spec_claim h g s q o'))" for g q o'
    by (cases rule: spec_claim_cases [of g s o' h q]) simp_all
  have kept: "map_of (q_choices ?b) (s, oc) = Some (fst (spec_claim h a s p oc))"
    by (rule selections_leD(2) [OF selection_run_le chosen])
  show ?thesis
  proof (intro exI conjI)
    show "r1 = Inr (fst (spec_claim h a s p oc))" "r2 = Inr (fst (spec_claim h ?b s p' oc'))" by (fact r1, fact r2)
    show "if oc' = oc then fst (spec_claim h ?b s p' oc') = fst (spec_claim h a s p oc)
      else \<forall>c d. fst (spec_claim h a s p oc) = Some c \<and> fst (spec_claim h ?b s p' oc') = Some d \<longrightarrow> cmd_id d \<noteq> cmd_id c"
    proof (cases "oc' = oc")
      case True
      with kept show ?thesis by (simp add: spec_claim_def)
    next
      case False
      have "cmd_id d \<noteq> cmd_id c" if c: "fst (spec_claim h a s p oc) = Some c" and d: "fst (spec_claim h ?b s p' oc') = Some d" for c d
      proof -
        let ?e = "snd (spec_claim h ?b s p' oc')"
        have ch: "map_of (q_choices ?e) (s, oc) = Some (Some c)" "map_of (q_choices ?e) (s, oc') = Some (Some d)"
          using selections_leD(2) [OF spec_claim_le kept] chosen [of ?b p' oc'] c d by simp_all
        have "chosen_used ?e" using selections_areD(1) [OF R2] by (simp add: selections_ok_def)
        with ch obtain q q' where "map_of (q_used ?e) (s, cmd_id c) = Some (q, oc)" "map_of (q_used ?e) (s, cmd_id d) = Some (q', oc')"
          unfolding chosen_used_def by blast
        with False show ?thesis by auto
      qed
      with False show ?thesis by simp
    qed
  qed
qed

theorem selection_once_witness:
  "\<exists>st1 st2 st3 r1 r2.
     queue_window_selection selection_codec id empty_store ''s'' (example_command ''x'') = Inr (command_value (example_command ''x''), st1)
     \<and> claim_window_selection selection_codec id st1 ''s'' ''x'' ''x'' = (r1, st2)
     \<and> claim_window_selection selection_codec id st2 ''s'' ''x'' ''y'' = (r2, st3)
     \<and> (\<exists>ch1 ch2. r1 = Inr ch1 \<and> r2 = Inr ch2
          \<and> (if ''y'' = ''x'' then ch2 = ch1 else \<forall>c d. ch1 = Some c \<and> ch2 = Some d \<longrightarrow> cmd_id d \<noteq> cmd_id c))"
proof -
  obtain st1 where q: "queue_window_selection selection_codec id empty_store ''s'' (example_command ''x'') =
      Inr (command_value (example_command ''x''), st1)"
    and R: "selections_are selection_codec (set selection_bodies) id
       (no_selections\<lparr>q_commands := [((''s'', ''x''), example_command ''x'')]\<rparr>) st1" by (rule example_queued)
  obtain r1 st2 where first: "claim_window_selection selection_codec id st1 ''s'' ''x'' ''x'' = (r1, st2)" by fastforce
  obtain r2 st3 where second: "claim_window_selection selection_codec id
      (snd (trace (selection_step selection_codec id) st2 [])) ''s'' ''x'' ''y'' = (r2, st3)" by fastforce
  from selection_once [OF R selection_example_values(4,5,1) first along.simps(1) [THEN eqTrueE] second]
  show ?thesis using q first second by fastforce
qed

text \<open>
  C32. A queued command is delivered: as long as it has not been used, whatever else was queued
  and claimed since, the next new occurrence of its node gets exactly this command, and then it
  is used.
\<close>

theorem selection_delivered:
  assumes R: "selections_are x U h a st" and v: "value_in x U (command_value c)"
    and queued: "queue_window_selection x h st s c = Inr (w, st1)"
    and run: "along (selection_in x U) (spec_selection_step h) (snd (spec_selection_step h a (QueueOp s c))) ops"
  defines "st2 \<equiv> snd (trace (selection_step x h) st1 ops)"
  assumes use: "value_in x U (use_value p oc)" "value_in x U JNull"
    and unused: "map_of (db_records (cs_db st2)) (s, selection_used, cmd_id c) = None"
    and new: "map_of (db_records (cs_db st2)) (s, invocation_selection, oc) = None"
    and node: "h p = h (cmd_node_path c)"
  shows "fst (claim_window_selection x h st2 s p oc) = Inr (Some c)
    \<and> map_of (db_records (cs_db (snd (claim_window_selection x h st2 s p oc)))) (s, selection_used, cmd_id c) =
        Some (ref_of x (use_value p oc))"
proof -
  obtain b where b: "selections_are x U h b st2" "map_of (q_commands b) (s, cmd_id c) = Some c"
    by (rule queued_kept [OF R v queued run, folded st2_def])
  obtain cs where w: "waiting h b s p = c # cs" by (rule still_waiting [OF b unused node])
  have "map_of (q_choices b) (s, oc) = None"
    using rows_areD(3) [OF selections_areD(4) [OF b(1)], of s oc] new by simp
  then have sc: "spec_claim h b s p oc = (Some c, b\<lparr>q_used := ((s, cmd_id c), (p, oc)) # q_used b,
      q_choices := ((s, oc), Some c) # q_choices b\<rparr>)" using w by (simp add: spec_claim_def)
  note sim = claim_selection_sim [OF b(1) use, where s = s]
  from rows_areD(2) [OF selections_areD(4) [OF sim(2)], of s "cmd_id c"] sim(1) sc show ?thesis by simp
qed

theorem selection_delivered_witness:
  "\<exists>st1. queue_window_selection selection_codec id empty_store ''s'' (example_command ''x'') = Inr (command_value (example_command ''x''), st1)
     \<and> fst (claim_window_selection selection_codec id st1 ''s'' ''x'' ''y'') = Inr (Some (example_command ''x''))
     \<and> map_of (db_records (cs_db (snd (claim_window_selection selection_codec id st1 ''s'' ''x'' ''y'')))) (''s'', selection_used, ''x'') =
         Some (ref_of selection_codec (use_value ''x'' ''y''))"
proof -
  obtain st1 where q: "queue_window_selection selection_codec id empty_store ''s'' (example_command ''x'') =
      Inr (command_value (example_command ''x''), st1)"
    and R: "selections_are selection_codec (set selection_bodies) id
       (no_selections\<lparr>q_commands := [((''s'', ''x''), example_command ''x'')]\<rparr>) st1" by (rule example_queued)
  have rows: "map_of (db_records (cs_db st1)) (''s'', selection_used, ''x'') = None"
    "map_of (db_records (cs_db st1)) (''s'', invocation_selection, ''y'') = None"
    using rows_areD(2,3) [OF selections_areD(4) [OF R]] by (simp_all add: no_selections_def)
  show ?thesis
    using selection_delivered [OF selection_start selection_example_values(2) q, of "[]" "''x''" "''y''"] rows q
      selection_example_values(1,5) by (simp add: example_command_def)
qed

text \<open>
  C33. Which requests are refused: once a command was queued its identity stands for it for
  ever. The same command is accepted again and changes nothing, another one with its identity is
  refused; and as long as the command has not been used, any command with a new identity for
  its node is refused too.
\<close>

theorem selection_refused:
  assumes R: "selections_are x U h a st" and v: "value_in x U (command_value c)"
    and queued: "queue_window_selection x h st s c = Inr (w, st1)"
    and run: "along (selection_in x U) (spec_selection_step h) (snd (spec_selection_step h a (QueueOp s c))) ops"
  defines "st2 \<equiv> snd (trace (selection_step x h) st1 ops)"
  assumes d: "value_in x U (command_value d)"
  shows "selection_step x h st2 (QueueOp s c) = (Queued (Inr (command_value c)), st2)
    \<and> (cmd_id d = cmd_id c \<and> d \<noteq> c \<longrightarrow> selection_step x h st2 (QueueOp s d) = (Queued (Inl IdentityReused), st2))
    \<and> (existing_selection (cs_db st2) s (cmd_id d) = None \<and> h (cmd_node_path d) = h (cmd_node_path c)
         \<and> map_of (db_records (cs_db st2)) (s, selection_used, cmd_id c) = None
       \<longrightarrow> selection_step x h st2 (QueueOp s d) = (Queued (Inl UnconsumedSelection), st2))"
proof (intro conjI impI)
  obtain b where b: "selections_are x U h b st2" "map_of (q_commands b) (s, cmd_id c) = Some c"
    by (rule queued_kept [OF R v queued run, folded st2_def])
  obtain prep where prep: "prepare x st2 (command_value c) = Inr prep"
    using v prepare_fits [of x st2 "command_value c"] by (auto simp: value_in_def)
  have "spec_queue h b s c = Inr (command_value c, b)" using b(2) by (simp add: spec_queue_def)
  with queue_sim(2) [OF b(1) v] prep existing_sim [OF b(1), of s "cmd_id c"] b(2)
  show "selection_step x h st2 (QueueOp s c) = (Queued (Inr (command_value c)), st2)"
    by (fastforce simp: queue_window_selection_def Let_def split: if_splits)
  show "selection_step x h st2 (QueueOp s d) = (Queued (Inl IdentityReused), st2)" if "cmd_id d = cmd_id c \<and> d \<noteq> c"
  proof -
    have "spec_queue h b s d = Inl IdentityReused" using that b(2) by (auto simp: spec_queue_def)
    from queue_sim(1) [OF b(1) d this] show ?thesis by simp
  qed
  show "selection_step x h st2 (QueueOp s d) = (Queued (Inl UnconsumedSelection), st2)"
    if later: "existing_selection (cs_db st2) s (cmd_id d) = None \<and> h (cmd_node_path d) = h (cmd_node_path c)
      \<and> map_of (db_records (cs_db st2)) (s, selection_used, cmd_id c) = None"
  proof -
    have "map_of (q_commands b) (s, cmd_id d) = None" using later existing_sim [OF b(1)] by simp
    moreover obtain cs where "waiting h b s (cmd_node_path d) = c # cs" using still_waiting [OF b, of "cmd_node_path d"] later by blast
    ultimately have "spec_queue h b s d = Inl UnconsumedSelection" by (simp add: spec_queue_def)
    from queue_sim(1) [OF b(1) d this] show ?thesis by simp
  qed
qed

theorem selection_refused_witness:
  "\<exists>st1. queue_window_selection selection_codec id empty_store ''s'' (example_command ''x'') = Inr (command_value (example_command ''x''), st1)
     \<and> selection_step selection_codec id st1 (QueueOp ''s'' (example_command ''x'')) = (Queued (Inr (command_value (example_command ''x''))), st1)
     \<and> selection_step selection_codec id st1 (QueueOp ''s'' (example_command ''y'')) = (Queued (Inl UnconsumedSelection), st1)"
proof -
  obtain st1 where q: "queue_window_selection selection_codec id empty_store ''s'' (example_command ''x'') =
      Inr (command_value (example_command ''x''), st1)"
    and R: "selections_are selection_codec (set selection_bodies) id
       (no_selections\<lparr>q_commands := [((''s'', ''x''), example_command ''x'')]\<rparr>) st1" by (rule example_queued)
  have "map_of (db_records (cs_db st1)) (''s'', selection_used, ''x'') = None"
    using rows_areD(2) [OF selections_areD(4) [OF R]] by (simp add: no_selections_def)
  moreover have "existing_selection (cs_db st1) ''s'' ''y'' = None" using existing_sim [OF R] by simp
  ultimately show ?thesis
    using selection_refused [OF selection_start selection_example_values(2) q, of "[]" "example_command ''y''"] q
      selection_example_values(3) by (simp add: example_command_def)
qed

end
