(* ===== verification/Zf_Flow_Contract.thy ===== *)
theory Zf_Flow_Contract
  imports Zf_Composition Zf_Simulation
begin

text \<open>
  Flow documents and their public contracts: the persisted graph of \<open>zf-flows/src/schema.rs\<close> and
  the whole of \<open>zf-flows/src/flow_contract.rs\<close>, which reads the exports of a flow from its start
  node, checks them against the graph, projects the graph to one entry and accepts the input of
  an entry.

  The serde decoding of the exports is the parameter \<open>exports_of\<close>. Indexing a \<open>BTreeMap\<close> panics
  where the key is absent; the model returns \<open>ContractPanic\<close> there.
\<close>

subsection \<open>Flow documents (\<open>schema.rs\<close>)\<close>

record retry_settings =
  retry_attempts :: nat
  retry_initial_delay_ms :: nat
  retry_max_delay_ms :: nat
  retry_backoff_factor :: rat
  retry_jitter :: rat
  retry_on :: string

record graph_settings =
  set_working_directory :: "string option"
  set_recursion_limit :: nat
  set_max_concurrency :: "nat option"
  set_strict_channels :: bool
  set_timeout_ms :: "nat option"
  set_idle_timeout_ms :: "nat option"
  set_retry :: "retry_settings option"

definition default_settings :: graph_settings where
  "default_settings =
     \<lparr>set_working_directory = None, set_recursion_limit = 100, set_max_concurrency = None,
      set_strict_channels = False, set_timeout_ms = None, set_idle_timeout_ms = None, set_retry = None\<rparr>"

record state_channel =
  ch_name :: string
  ch_reducer :: string
  ch_default :: "json option"

record position =
  pos_x :: rat
  pos_y :: rat

record node_data =
  nd_label :: string
  nd_kind :: string
  nd_config :: json

record flow_node =
  node_id :: string
  node_type :: string
  node_position :: position
  node_content :: node_data

record flow_edge =
  edge_id :: string
  edge_source :: string
  edge_target :: string
  edge_source_handle :: "string option"
  edge_target_handle :: "string option"
  edge_label :: "string option"

record flow_document =
  doc_format :: nat
  doc_id :: string
  doc_name :: string
  doc_revision :: int
  doc_nodes :: "flow_node list"
  doc_edges :: "flow_edge list"
  doc_settings :: graph_settings
  doc_channels :: "state_channel list"

abbreviation kind_of_node :: "flow_node \<Rightarrow> string" where
  "kind_of_node n \<equiv> nd_kind (node_content n)"

abbreviation config_of_node :: "flow_node \<Rightarrow> json" where
  "config_of_node n \<equiv> nd_config (node_content n)"

datatype contract_error =
    UnknownReducer string
  | StartAbsent
  | InvalidExports
  | UndeclaredChannel string
  | EntryBindings | BranchBindings | DatasetBindings | RequirementBindings
  | EntryNodeAbsent string string
  | EntryAtEnd string
  | EntryAtModel string
  | EntryOutput string
  | BranchNodeAbsent string string
  | BranchUnauthorized string
  | PlugFormat string
  | PlugPolicy string
  | PlugOwner string
  | RequesterAbsent string string
  | RequesterKind string string
  | RequesterPoint string string
  | ToolBranch string
  | ContextBranch string
  | ContextUnused string
  | RouteBranch string
  | RoutePoint string
  | FallbackContract string
  | FallbackValue string "diagnostic list"
  | DatasetValue string "diagnostic list"
  | InferenceNode string
  | InferenceResource string string
  | InteractiveInput
  | NoExports
  | UnknownEntry string
  | AbsentEntry
  | UnboundEntry
  | EntryValue string "diagnostic list"
  | ContractPanic

definition ensure :: "bool \<Rightarrow> 'e \<Rightarrow> ('e, unit) result" where
  "ensure b e = (if b then Inr () else Inl e)"

definition require :: "'a option \<Rightarrow> 'e \<Rightarrow> ('e, 'a) result" where
  "require x e = (case x of None \<Rightarrow> Inl e | Some a \<Rightarrow> Inr a)"

definition builtin_channels :: "string list" where
  "builtin_channels =
     [''input'', ''output'', ''response'', ''messages'', ''toolCalls'', ''toolResults'', ''hasToolCalls'',
      ''modelResponse'', ''hasSteering'', ''hasFollowUp'', ''__zedflow:consumedMessages'', ''__zedflow:context'']"

fun add_channels :: "state_channel list \<Rightarrow> string list \<Rightarrow> (contract_error, string list) result" where
  "add_channels [] names = Inr names"
| "add_channels (c # cs) names =
     (if ch_reducer c \<notin> set [''overwrite'', ''append'', ''sum''] then Inl (UnknownReducer (ch_reducer c))
      else add_channels cs (bs_insert (ch_name c) names))"

definition channel_names :: "state_channel list \<Rightarrow> (contract_error, string list) result" where
  "channel_names channels = add_channels channels (bs_of_list builtin_channels)"

subsection \<open>Public exports\<close>

record entry_binding =
  eb_node :: string
  eb_input :: string
  eb_output :: "string option"

record flow_exports =
  ex_contract :: flow_definition
  ex_types :: type_registry
  ex_entries :: "(string, entry_binding) btree"
  ex_branches :: "(string, string) btree"
  ex_data :: "(string, string) btree"
  ex_requires :: "(string, string) btree"
  ex_interactive :: bool

definition find_start :: "flow_document \<Rightarrow> flow_node option" where
  "find_start doc = find (\<lambda>n. kind_of_node n = ''start'') (doc_nodes doc)"

definition read_exports :: "(json \<Rightarrow> flow_exports option) \<Rightarrow> flow_document \<Rightarrow> (contract_error, flow_exports option) result" where
  "read_exports exports_of doc =
     and_then (require (find_start doc) StartAbsent) (\<lambda>start.
       (case jget (config_of_node start) ''exports'' of
          None \<Rightarrow> Inr None
        | Some v \<Rightarrow> and_then (require (exports_of v) InvalidExports) (\<lambda>e. Inr (Some e))))"

definition can_request :: "flow_exports \<Rightarrow> string \<Rightarrow> string \<Rightarrow> bool" where
  "can_request exports branch node =
     (case map_of (flow_branches (ex_contract exports)) branch of
        None \<Rightarrow> False
      | Some point \<Rightarrow>
          (if branch_requesters point = []
           then (case map_of (ex_branches exports) branch of None \<Rightarrow> False | Some owner \<Rightarrow> owner = node)
           else node \<in> set (branch_requesters point)))"

definition requester_accepts :: "flow_document \<Rightarrow> string \<Rightarrow> invocation_kind \<Rightarrow> bool" where
  "requester_accepts doc node invocation =
     (case find (\<lambda>item. node_id item = node) (doc_nodes doc) of
        None \<Rightarrow> False
      | Some item \<Rightarrow>
          (case invocation of
             Tool \<Rightarrow> kind_of_node item \<in> set [''agent'', ''model'']
           | Context \<Rightarrow> kind_of_node item \<in> set [''agent'', ''context'']
           | Node \<Rightarrow> kind_of_node item = ''route''
           | Condition \<Rightarrow> kind_of_node item = ''route''))"

definition requesters :: "flow_exports \<Rightarrow> string \<Rightarrow> string list" where
  "requesters exports branch =
     (case map_of (flow_branches (ex_contract exports)) branch of
        None \<Rightarrow> []
      | Some point \<Rightarrow>
          (if branch_requesters point = []
           then (case map_of (ex_branches exports) branch of None \<Rightarrow> [] | Some node \<Rightarrow> [node])
           else branch_requesters point))"

subsection \<open>Validation\<close>

text \<open>The nodes by identifier: the last one of an identifier counts.\<close>

definition nodes_by_id :: "flow_document \<Rightarrow> string \<Rightarrow> flow_node option" where
  "nodes_by_id doc = map_of (rev (map (\<lambda>n. (node_id n, n)) (doc_nodes doc)))"

definition check_channel :: "string list \<Rightarrow> string \<Rightarrow> (contract_error, unit) result" where
  "check_channel names name = ensure (name \<in> set names) (UndeclaredChannel name)"

definition validate_entry :: "flow_document \<Rightarrow> string list \<Rightarrow> flow_exports \<Rightarrow> string \<times> entry_binding \<Rightarrow> (contract_error, unit) result" where
  "validate_entry doc names ex nb =
     (case nb of (name, binding) \<Rightarrow>
      and_then (require (nodes_by_id doc (eb_node binding)) (EntryNodeAbsent name (eb_node binding))) (\<lambda>node.
      and_then (ensure (kind_of_node node \<noteq> ''end'') (EntryAtEnd name)) (\<lambda>_.
      and_then (ensure (kind_of_node node \<noteq> ''model'') (EntryAtModel name)) (\<lambda>_.
      and_then (check_channel names (eb_input binding)) (\<lambda>_.
      and_then (require (map_of (flow_entries (ex_contract ex)) name) ContractPanic) (\<lambda>contract.
      and_then (ensure ((eb_output binding \<noteq> None) = (port_output contract \<noteq> None)) (EntryOutput name)) (\<lambda>_.
        (case eb_output binding of None \<Rightarrow> Inr () | Some output \<Rightarrow> check_channel names output))))))))"

definition check_requester :: "flow_document \<Rightarrow> string \<Rightarrow> string \<Rightarrow> (contract_error, unit) result" where
  "check_requester doc name requester =
     and_then (require (nodes_by_id doc requester) (RequesterAbsent name requester)) (\<lambda>caller.
     and_then (ensure (kind_of_node caller \<in> set [''route'', ''context'', ''model'']) (RequesterKind name requester)) (\<lambda>_.
       if kind_of_node caller = ''route''
       then ensure (jidx (config_of_node caller) ''branch'' = JString name) (RequesterPoint name requester)
       else Inr ()))"

definition validate_plug :: "flow_document \<Rightarrow> string \<Rightarrow> flow_node \<Rightarrow> branch_point \<Rightarrow> (contract_error, unit) result" where
  "validate_plug doc name node point =
     and_then (ensure (4 \<le> doc_format doc) (PlugFormat name)) (\<lambda>_.
     and_then (ensure (branch_invocations point = []) (PlugPolicy name)) (\<lambda>_.
     and_then (ensure (kind_of_node node \<in> set [''route'', ''context'', ''model'']) (PlugOwner name)) (\<lambda>_.
       for_each (check_requester doc name) (branch_requesters point))))"

definition produced_by :: "string \<Rightarrow> json \<Rightarrow> bool" where
  "produced_by name binding \<longleftrightarrow>
     jidx binding ''kind'' = JString ''produced'' \<and> jidx (jidx binding ''producer'') ''branch'' = JString name"

definition context_used :: "string \<Rightarrow> json \<Rightarrow> bool" where
  "context_used name config \<longleftrightarrow>
     (case (case jget config ''contextBindings'' of Some b \<Rightarrow> Some b | None \<Rightarrow> jget (jidx config ''contextProgram'') ''bindings'') of
        None \<Rightarrow> False
      | Some b \<Rightarrow> (case as_object b of None \<Rightarrow> False | Some bindings \<Rightarrow> list_ex (\<lambda>(_, v). produced_by name v) bindings))
     \<or> jidx (jidx (jidx (jidx config ''contextProgram'') ''window'') ''prepare'') ''branch'' = JString name
     \<or> jidx (jidx (jidx config ''contextWindow'') ''prepare'') ''branch'' = JString name"

definition validate_fallback :: "flow_exports \<Rightarrow> string \<Rightarrow> branch_point \<Rightarrow> json \<Rightarrow> (contract_error, unit) result" where
  "validate_fallback ex name point config =
     (case jget config ''fallback'' of
        None \<Rightarrow> Inr ()
      | Some fallback \<Rightarrow>
          and_then (require (port_output (branch_contract point)) (FallbackContract name)) (\<lambda>output.
            map_err (FallbackValue name) (validate_value output fallback (ex_types ex))))"

definition validate_branch :: "flow_document \<Rightarrow> flow_exports \<Rightarrow> string \<times> string \<Rightarrow> (contract_error, unit) result" where
  "validate_branch doc ex ni =
     (case ni of (name, i) \<Rightarrow>
      and_then (require (nodes_by_id doc i) (BranchNodeAbsent name i)) (\<lambda>node.
      and_then (require (map_of (flow_branches (ex_contract ex)) name) ContractPanic) (\<lambda>point.
      let kinds = branch_invocations point; config = config_of_node node in
      and_then (ensure (kinds \<noteq> [] \<or> branch_requesters point \<noteq> []) (BranchUnauthorized name)) (\<lambda>_.
        if branch_requesters point \<noteq> [] then validate_plug doc name node point
        else
        and_then (if Tool \<in> set kinds then ensure (kind_of_node node \<in> set [''agent'', ''model'']) (ToolBranch name) else Inr ()) (\<lambda>_.
        and_then (if Context \<in> set kinds
            then and_then (ensure (kind_of_node node \<in> set [''agent'', ''context'']) (ContextBranch name)) (\<lambda>_.
                   ensure (context_used name config) (ContextUnused name))
            else Inr ()) (\<lambda>_.
          if Node \<in> set kinds \<or> Condition \<in> set kinds
          then and_then (ensure (kind_of_node node = ''route'') (RouteBranch name)) (\<lambda>_.
               and_then (ensure (jidx config ''branch'' = JString name) (RoutePoint name)) (\<lambda>_.
                 validate_fallback ex name point config))
          else Inr ()))))))"

definition channel_default :: "flow_document \<Rightarrow> string \<Rightarrow> json option" where
  "channel_default doc channel =
     (case find (\<lambda>c. ch_name c = channel) (doc_channels doc) of None \<Rightarrow> None | Some c \<Rightarrow> ch_default c)"

definition validate_dataset :: "flow_document \<Rightarrow> string list \<Rightarrow> flow_exports \<Rightarrow> string \<times> string \<Rightarrow> (contract_error, unit) result" where
  "validate_dataset doc names ex nc =
     (case nc of (name, channel) \<Rightarrow>
      and_then (check_channel names channel) (\<lambda>_.
        (case channel_default doc channel of
           None \<Rightarrow> Inr ()
         | Some v \<Rightarrow>
             and_then (require (map_of (flow_data (ex_contract ex)) name) ContractPanic) (\<lambda>exposure.
               map_err (DatasetValue name) (validate_value (exposed_type exposure) v (ex_types ex))))))"

definition validate_inference :: "flow_document \<Rightarrow> flow_exports \<Rightarrow> string \<times> inference_definition \<Rightarrow> (contract_error, unit) result" where
  "validate_inference doc ex ni =
     (case ni of (i, inference) \<Rightarrow>
      and_then (ensure (case nodes_by_id doc i of None \<Rightarrow> False | Some n \<Rightarrow> kind_of_node n \<in> set [''agent'', ''model''])
        (InferenceNode i)) (\<lambda>_.
        for_each (\<lambda>resource. ensure (map_of (flow_data (ex_contract ex)) resource \<noteq> None
            \<or> map_of (flow_requires (ex_contract ex)) resource \<noteq> None) (InferenceResource i resource)) (inf_resources inference)))"

definition validate_exports :: "flow_document \<Rightarrow> flow_exports \<Rightarrow> (contract_error, unit) result" where
  "validate_exports doc ex =
     (let contract = ex_contract ex in
      and_then (channel_names (doc_channels doc)) (\<lambda>names.
      and_then (ensure (keys (ex_entries ex) = keys (flow_entries contract)) EntryBindings) (\<lambda>_.
      and_then (ensure (keys (ex_branches ex) = keys (flow_branches contract)) BranchBindings) (\<lambda>_.
      and_then (ensure (keys (ex_data ex) = keys (flow_data contract)) DatasetBindings) (\<lambda>_.
      and_then (ensure (keys (ex_requires ex) = keys (flow_requires contract)) RequirementBindings) (\<lambda>_.
      and_then (for_each (validate_entry doc names ex) (ex_entries ex)) (\<lambda>_.
      and_then (for_each (validate_branch doc ex) (ex_branches ex)) (\<lambda>_.
      and_then (for_each (validate_dataset doc names ex) (ex_data ex)) (\<lambda>_.
      and_then (for_each (\<lambda>(_, channel). check_channel names channel) (ex_requires ex)) (\<lambda>_.
      and_then (for_each (validate_inference doc ex) (flow_inferences contract)) (\<lambda>_.
        ensure (ex_interactive ex \<or> \<not> list_ex (\<lambda>n. kind_of_node n \<in> set [''input'', ''inbox'']) (doc_nodes doc))
          InteractiveInput)))))))))))"

definition validate_contract :: "(json \<Rightarrow> flow_exports option) \<Rightarrow> flow_document \<Rightarrow> (contract_error, flow_exports option) result" where
  "validate_contract exports_of doc =
     and_then (read_exports exports_of doc) (\<lambda>r.
       (case r of None \<Rightarrow> Inr None
        | Some ex \<Rightarrow> and_then (validate_exports doc ex) (\<lambda>_. Inr (Some ex))))"

subsection \<open>Entries\<close>

text \<open>One pass over the edges extends the set in place; passes repeat until its size stays.\<close>

definition reach_pass :: "flow_edge list \<Rightarrow> string list \<Rightarrow> string list" where
  "reach_pass edges reachable =
     fold (\<lambda>e r. if edge_source e \<in> set r then List.insert (edge_target e) r else r) edges reachable"

lemma reach_pass_grows:
  "set r \<subseteq> set (reach_pass edges r)" "set (reach_pass edges r) \<subseteq> set r \<union> edge_target ` set edges"
  "length r \<le> length (reach_pass edges r)"
  "length (reach_pass edges r) \<noteq> length r \<Longrightarrow> \<exists>t \<in> set (reach_pass edges r). t \<notin> set r"
proof -
  have "set r \<subseteq> set (reach_pass edges r) \<and> set (reach_pass edges r) \<subseteq> set r \<union> edge_target ` set edges
    \<and> length r \<le> length (reach_pass edges r)
    \<and> (length (reach_pass edges r) \<noteq> length r \<longrightarrow> (\<exists>t \<in> set (reach_pass edges r). t \<notin> set r))"
    unfolding reach_pass_def
  proof (induction edges arbitrary: r)
    case (Cons e edges)
    let ?r = "if edge_source e \<in> set r then List.insert (edge_target e) r else r"
    from Cons.IH [of ?r] show ?case by (cases "edge_source e \<in> set r"; cases "edge_target e \<in> set r") auto
  qed simp
  then show "set r \<subseteq> set (reach_pass edges r)" "set (reach_pass edges r) \<subseteq> set r \<union> edge_target ` set edges"
    "length r \<le> length (reach_pass edges r)"
    "length (reach_pass edges r) \<noteq> length r \<Longrightarrow> \<exists>t \<in> set (reach_pass edges r). t \<notin> set r" by blast+
qed

function reach_loop :: "flow_edge list \<Rightarrow> string list \<Rightarrow> string list" where
  "reach_loop edges reachable =
     (let r = reach_pass edges reachable in
      if length r = length reachable then r else reach_loop edges r)"
  by pat_completeness auto
termination
proof (relation "measure (\<lambda>(edges, r). card (edge_target ` set edges - set r))", simp, goal_cases)
  case (1 edges reachable r)
  then have "length (reach_pass edges reachable) \<noteq> length reachable" by simp
  then obtain t where t: "t \<in> set (reach_pass edges reachable)" "t \<notin> set reachable" using reach_pass_grows(4) by blast
  then have "t \<in> edge_target ` set edges" using reach_pass_grows(2) by blast
  with t reach_pass_grows(1) have "edge_target ` set edges - set (reach_pass edges reachable) \<subset> edge_target ` set edges - set reachable"
    by blast
  then have "card (edge_target ` set edges - set (reach_pass edges reachable)) < card (edge_target ` set edges - set reachable)"
    by (intro psubset_card_mono) auto
  with 1(1) show ?case by simp
qed

declare reach_loop.simps [simp del]

definition entry_edges :: "flow_document \<Rightarrow> string \<Rightarrow> flow_node \<Rightarrow> entry_binding \<Rightarrow> flow_edge list" where
  "entry_edges doc entry start binding =
     (if eb_node binding \<noteq> node_id start
      then filter (\<lambda>e. edge_source e \<noteq> node_id start) (doc_edges doc) @
        [\<lparr>edge_id = ''__entry_'' @ entry, edge_source = node_id start, edge_target = eb_node binding,
          edge_source_handle = None, edge_target_handle = None, edge_label = None\<rparr>]
      else doc_edges doc)"

definition drop_exports :: "flow_node \<Rightarrow> flow_node" where
  "drop_exports n =
     (if kind_of_node n = ''start''
      then n\<lparr>node_content := (node_content n)\<lparr>nd_config :=
             (case config_of_node n of JObject m \<Rightarrow> JObject (bt_remove ''exports'' m) | v \<Rightarrow> v)\<rparr>\<rparr>
      else n)"

definition at_entry :: "(json \<Rightarrow> flow_exports option) \<Rightarrow> flow_document \<Rightarrow> string \<Rightarrow> (contract_error, flow_document) result" where
  "at_entry exports_of doc entry =
     and_then (validate_contract exports_of doc) (\<lambda>r.
     and_then (require r NoExports) (\<lambda>ex.
     and_then (require (map_of (ex_entries ex) entry) (UnknownEntry entry)) (\<lambda>binding.
     and_then (require (find_start doc) StartAbsent) (\<lambda>start.
       let edges = entry_edges doc entry start binding;
           reachable = reach_loop edges [node_id start]
       in Inr (doc\<lparr>doc_nodes := map drop_exports (filter (\<lambda>n. node_id n \<in> set reachable) (doc_nodes doc)),
                   doc_edges := filter (\<lambda>e. edge_source e \<in> set reachable \<and> edge_target e \<in> set reachable) edges\<rparr>)))))"

definition entry_input :: "flow_exports \<Rightarrow> string \<Rightarrow> json \<Rightarrow> (contract_error, (string \<times> json) list) result" where
  "entry_input ex entry v =
     and_then (require (map_of (flow_entries (ex_contract ex)) entry) AbsentEntry) (\<lambda>contract.
     and_then (map_err (EntryValue entry) (validate_value (port_input contract) v (ex_types ex))) (\<lambda>_.
     and_then (require (map_of (ex_entries ex) entry) UnboundEntry) (\<lambda>binding.
       Inr [(eb_input binding, v)])))"

end
