(* ===== verification/Zf_Node_Contracts.thy ===== *)
theory Zf_Node_Contracts
  imports Zf_Flow_Contract
begin

text \<open>
  The boundaries of configured nodes and the analysis of a flow graph,
  \<open>zf-flows/src/node_contracts.rs\<close>: the ports of a node, the channels it consumes and produces,
  and for every edge the channels that may or must be available at its target.
\<close>

subsection \<open>Boundaries\<close>

datatype boundary_type = StateBoundary | PreparedContext

record port =
  pt_id :: string
  pt_label :: string
  pt_type :: boundary_type

record node_contract =
  nc_node :: string
  nc_inputs :: "port list"
  nc_outputs :: "port list"
  nc_consumes :: "string list"
  nc_produces :: "string list"

record edge_analysis =
  ea_edge :: string
  ea_guaranteed :: "string list"
  ea_conditional :: "string list"
  ea_consumes :: "string list"
  ea_produces :: "string list"
  ea_unknown :: bool
  ea_junction :: bool

record graph_analysis =
  ga_nodes :: "node_contract list"
  ga_edges :: "edge_analysis list"
  ga_diagnostics :: "diagnostic list"

definition mk_port :: "string \<Rightarrow> string \<Rightarrow> boundary_type \<Rightarrow> port" where
  "mk_port i label t = \<lparr>pt_id = i, pt_label = label, pt_type = t\<rparr>"

lemma split_once_length: "p \<noteq> [] \<Longrightarrow> split_once p s = Some (a, b) \<Longrightarrow> length b < length s"
proof (induction s arbitrary: a b)
  case (Cons c cs)
  show ?case
  proof (cases "prefix p (c # cs)")
    case True
    with Cons.prems have "b = drop (length p) (c # cs)" by simp
    moreover have "0 < length p" using Cons.prems(1) by simp
    ultimately show ?thesis by (simp only: length_drop) simp
  next
    case False
    with Cons.prems obtain a' where "split_once p cs = Some (a', b)" by (auto split: option.splits)
    with Cons.IH [OF Cons.prems(1) this] show ?thesis by simp
  qed
qed simp

function template_loop :: "string \<Rightarrow> string list \<Rightarrow> string list" where
  "template_loop rest names =
     (case split_once ''{{'' rest of
        None \<Rightarrow> names
      | Some (_, after) \<Rightarrow>
          (case split_once ''}}'' after of
             None \<Rightarrow> names
           | Some (name, after') \<Rightarrow> template_loop after' (bs_insert name names)))"
  by pat_completeness auto
termination
proof (relation "measure (\<lambda>(rest, names). length rest)", simp, goal_cases)
  case (1 rest names p a after q name after')
  then have "length after < length rest" "length after' < length after"
    using split_once_length [of "''{{''" rest] split_once_length [of "''}}''" after] by auto
  then show ?case by simp
qed

declare template_loop.simps [simp del]

definition template_fields :: "string \<Rightarrow> string list" where
  "template_fields text = template_loop text []"

definition field_name :: "string \<Rightarrow> string" where
  "field_name key =
     (case strip_prefix ''/'' key of
        None \<Rightarrow> key
      | Some v \<Rightarrow> unescape (case split_char CHR ''/'' v of [] \<Rightarrow> [] | part # _ \<Rightarrow> part))"

text \<open>The work list of \<open>predicate_fields\<close>, its top first.\<close>

function predicate_loop :: "predicate list \<Rightarrow> string list \<Rightarrow> string list" where
  "predicate_loop [] names = names"
| "predicate_loop (All items # pending) names = predicate_loop (rev items @ pending) names"
| "predicate_loop (Any items # pending) names = predicate_loop (rev items @ pending) names"
| "predicate_loop (Compare key operator v # pending) names = predicate_loop pending (bs_insert (field_name key) names)"
  by pat_completeness auto
termination
  by (relation "measure (\<lambda>(pending, names). size_list size pending)") (simp_all add: size_list_conv_sum_list rev_map [symmetric])

definition predicate_fields :: "(json \<Rightarrow> (string, predicate) result) \<Rightarrow> json \<Rightarrow> string list" where
  "predicate_fields from_value v =
     (case parse_predicate from_value v of Inl _ \<Rightarrow> [] | Inr p \<Rightarrow> predicate_loop [p] [])"

definition config_field :: "json \<Rightarrow> string \<Rightarrow> string \<Rightarrow> string" where
  "config_field config key d = (case as_str (jidx config key) of None \<Rightarrow> d | Some s \<Rightarrow> s)"

definition upper_e_acute :: string where "upper_e_acute = [CHR 0xC3, CHR 0x89]"

definition context_port :: port where
  "context_port = mk_port ''context'' (''Contexte pr'' @ e_acute @ ''par'' @ e_acute) PreparedContext"

definition node_inputs :: "string \<Rightarrow> port list" where
  "node_inputs kind =
     (if kind = ''start'' then []
      else if kind = ''model'' then [context_port]
      else [mk_port ''state'' (upper_e_acute @ ''tat disponible'') StateBoundary])"

definition node_outputs :: "string \<Rightarrow> port list" where
  "node_outputs kind =
     (if kind = ''end'' then []
      else if kind = ''context'' then [context_port]
      else if kind = ''condition'' then [mk_port ''true'' ''Oui'' StateBoundary, mk_port ''false'' ''Non'' StateBoundary]
      else [mk_port ''state'' (upper_e_acute @ ''tat produit'') StateBoundary])"

definition node_consumes :: "(json \<Rightarrow> (string, predicate) result) \<Rightarrow> string \<Rightarrow> json \<Rightarrow> string list" where
  "node_consumes from_value kind config =
     (if kind = ''output''
      then template_fields (config_field config ''text'' ''{{output}}'')
      else if kind = ''condition'' \<and> is_object (jidx config ''predicate'')
      then predicate_fields from_value (jidx config ''predicate'')
      else if kind = ''condition'' then [config_field config ''field'' ''output'']
      else if kind = ''set'' then (case as_str (jidx config ''value'') of None \<Rightarrow> [] | Some s \<Rightarrow> template_fields s)
      else if kind = ''model'' then []
      else if kind \<in> set [''tool'', ''route'', ''await_route'']
      then (case as_str (jidx config ''inputField'') of None \<Rightarrow> [] | Some s \<Rightarrow> [s])
      else [])"

definition node_produces :: "string \<Rightarrow> json \<Rightarrow> string list" where
  "node_produces kind config =
     (if kind = ''output'' then [''response'']
      else if kind \<in> set [''set'', ''tool'', ''route'', ''await_route''] then [config_field config ''field'' ''output'']
      else if kind \<in> set [''input'', ''inbox''] then [config_field config ''field'' ''input'']
      else if kind \<in> set [''model'', ''agent'']
      then [config_field config ''field'' ''output'', config_field config ''historyField'' ''messages'',
            config_field config ''toolCallsField'' ''toolCalls'', ''hasToolCalls'', ''modelResponse'']
      else [])"

definition contract_of :: "(json \<Rightarrow> (string, predicate) result) \<Rightarrow> flow_node \<Rightarrow> node_contract" where
  "contract_of from_value node =
     (let kind = kind_of_node node; config = config_of_node node in
      \<lparr>nc_node = node_id node, nc_inputs = node_inputs kind, nc_outputs = node_outputs kind,
       nc_consumes = node_consumes from_value kind config, nc_produces = node_produces kind config\<rparr>)"

subsection \<open>Availability of channels\<close>

definition extend :: "string list \<Rightarrow> string list \<Rightarrow> string list" where
  "extend values new = fold bs_insert new values"

definition initial_channels :: "flow_document \<Rightarrow> string list" where
  "initial_channels doc = bs_of_list (map ch_name (filter (\<lambda>c. ch_default c \<noteq> None) (doc_channels doc)))"

text \<open>The contracts by node: the last one of an identifier counts.\<close>

definition by_id :: "node_contract list \<Rightarrow> string \<Rightarrow> node_contract option" where
  "by_id nodes = map_of (rev (map (\<lambda>n. (nc_node n, n)) nodes))"

definition arrive :: "node_contract list \<Rightarrow> (string, string list) btree \<Rightarrow> flow_edge \<Rightarrow> string list \<Rightarrow> string list" where
  "arrive nodes previous e values =
     (let values = (case map_of previous (edge_source e) of None \<Rightarrow> values | Some source \<Rightarrow> extend values source)
      in (case by_id nodes (edge_source e) of None \<Rightarrow> values | Some source \<Rightarrow> extend values (nc_produces source)))"

text \<open>One round: every node reads its predecessors as of the previous round. The map has an entry
  for every node, so the lookup never fails.\<close>

definition possible_round :: "flow_edge list \<Rightarrow> node_contract list \<Rightarrow> (string, string list) btree \<Rightarrow> (string, string list) btree" where
  "possible_round edges nodes previous =
     fold (\<lambda>n possible.
        (case map_of possible (nc_node n) of
           None \<Rightarrow> possible
         | Some values \<Rightarrow>
             bt_insert (nc_node n)
               (fold (arrive nodes previous) (filter (\<lambda>e. edge_target e = nc_node n) edges) values) possible))
       nodes previous"

fun possible_loop :: "nat \<Rightarrow> flow_edge list \<Rightarrow> node_contract list \<Rightarrow> (string, string list) btree \<Rightarrow> (string, string list) btree" where
  "possible_loop 0 edges nodes possible = possible"
| "possible_loop (Suc k) edges nodes possible =
     (let possible' = possible_round edges nodes possible in
      if possible = possible' then possible' else possible_loop k edges nodes possible')"

definition initial_possible :: "flow_document \<Rightarrow> node_contract list \<Rightarrow> (string, string list) btree" where
  "initial_possible doc nodes = fold (\<lambda>n. bt_insert (nc_node n) (initial_channels doc)) nodes []"

definition possible_channels :: "flow_document \<Rightarrow> node_contract list \<Rightarrow> (string, string list) btree" where
  "possible_channels doc nodes =
     possible_loop (length nodes + 1) (doc_edges doc) nodes (initial_possible doc nodes)"

subsection \<open>Analysis of the edges\<close>

fun boundary_name :: "boundary_type \<Rightarrow> string" where
  "boundary_name StateBoundary = ''State''"
| "boundary_name PreparedContext = ''PreparedContext''"

definition pick_port :: "string option \<Rightarrow> port list \<Rightarrow> port option" where
  "pick_port handle ports =
     (case handle of Some h \<Rightarrow> find (\<lambda>p. pt_id p = h) ports
      | None \<Rightarrow> (case ports of [] \<Rightarrow> None | p # _ \<Rightarrow> Some p))"

definition port_diagnostics :: "flow_edge \<Rightarrow> node_contract \<Rightarrow> node_contract \<Rightarrow> diagnostic list" where
  "port_diagnostics e source target =
     (case (pick_port (edge_source_handle e) (nc_outputs source), pick_port (edge_target_handle e) (nc_inputs target)) of
        (Some output, Some inp) \<Rightarrow>
          (if pt_type output = pt_type inp then []
           else [diag ''port_type'' (''edges.'' @ edge_id e)
                  (nc_node source @ '' '' @ [CHR 0xE2, CHR 0x86, CHR 0x92] @ '' '' @ nc_node target @ '' : attendu ''
                   @ boundary_name (pt_type inp) @ '', obtenu '' @ boundary_name (pt_type output))])
      | _ \<Rightarrow> [diag ''unknown_port'' (''edges.'' @ edge_id e)
               (''Port d'' @ [CHR 0xE2, CHR 0x80, CHR 0x99] @ ''entr'' @ e_acute @ ''e ou de sortie absent'')])"

definition guaranteed_channels :: "flow_document \<Rightarrow> flow_edge \<Rightarrow> node_contract \<Rightarrow> string list" where
  "guaranteed_channels doc e source =
     (if length (filter (\<lambda>e'. edge_target e' = edge_target e) (doc_edges doc)) = 1
         \<and> list_ex (\<lambda>n. node_id n = edge_source e \<and> kind_of_node n \<in> set [''set'', ''input'', ''model'', ''agent'']) (doc_nodes doc)
      then extend (initial_channels doc) (nc_produces source) else initial_channels doc)"

definition analyze_edge ::
  "flow_document \<Rightarrow> (string, string list) btree \<Rightarrow> flow_edge \<Rightarrow> node_contract \<Rightarrow> node_contract \<Rightarrow> edge_analysis" where
  "analyze_edge doc possible e source target =
     (let guaranteed = guaranteed_channels doc e source;
          available = (case map_of possible (edge_target e) of None \<Rightarrow> [] | Some vs \<Rightarrow> vs)
      in \<lparr>ea_edge = edge_id e, ea_guaranteed = guaranteed,
          ea_conditional = filter (\<lambda>c. c \<notin> set guaranteed) available,
          ea_consumes = nc_consumes target, ea_produces = nc_produces source, ea_unknown = True,
          ea_junction = 1 < length (filter (\<lambda>e'. edge_target e' = edge_target e) (doc_edges doc))\<rparr>)"

fun analyze_edges ::
  "flow_document \<Rightarrow> node_contract list \<Rightarrow> (string, string list) btree \<Rightarrow> flow_edge list \<Rightarrow>
   edge_analysis list \<times> diagnostic list \<Rightarrow> edge_analysis list \<times> diagnostic list" where
  "analyze_edges doc nodes possible [] acc = acc"
| "analyze_edges doc nodes possible (e # es) acc =
     (case (by_id nodes (edge_source e), by_id nodes (edge_target e)) of
        (Some source, Some target) \<Rightarrow>
          analyze_edges doc nodes possible es
            (fst acc @ [analyze_edge doc possible e source target], snd acc @ port_diagnostics e source target)
      | _ \<Rightarrow> analyze_edges doc nodes possible es acc)"

definition analyze :: "(json \<Rightarrow> (string, predicate) result) \<Rightarrow> flow_document \<Rightarrow> graph_analysis" where
  "analyze from_value doc =
     (let nodes = map (contract_of from_value) (doc_nodes doc);
          possible = possible_channels doc nodes;
          r = analyze_edges doc nodes possible (doc_edges doc) ([], [])
      in \<lparr>ga_nodes = nodes, ga_edges = fst r, ga_diagnostics = snd r\<rparr>)"

end
