(* ===== verification/Zf_Graph.thy ===== *)
theory Zf_Graph
  imports Zf_Node_Contracts
begin

text \<open>
  Structural validation of flow graphs, \<open>zf-compiler/src/graph_compiler.rs\<close>: settings, nodes,
  edges, nesting, the pairing of context and model nodes and the refusal of parallel waits; and the
  private channels of a graph, \<open>runtime_channels\<close> and \<open>answer_paths\<close> of \<open>zf-flows/src/schema.rs\<close>.

  Parameters, in the record \<open>graph_env\<close>: the serde decoders of conditions, exports, nested documents
  and retry settings, the validator of frozen context programs (a parser of the context language)
  and the injected \<open>PrimitiveContracts\<close>. A decoded document is smaller than its JSON, which ends the
  recursion of \<open>pause_path\<close> and \<open>answer_paths\<close>; here they take the number of levels they may
  descend, and running out is the error \<open>OutOfLevels\<close>.
\<close>

datatype graph_error =
    FormatVersion
  | NestingLimit
  | NestedRecursionLimit
  | NameRequired
  | TooManyNodes
  | RecursionLimit
  | MaxConcurrency
  | TimeoutRange
  | RetryAttempts | RetryDelays | RetryBackoff | RetryJitter | RetryOn
  | InvalidRetry
  | ChannelName string
  | ChannelDuplicate string
  | ChannelReducer string
  | SumDefault
  | AppendDefault
  | ChannelOverwrite string
  | FieldOverwrite string
  | DuplicateNodes
  | StartRequired
  | AgentFormat string
  | ReservedId string
  | UnknownKind string
  | ReservedVersion
  | ContextFormat
  | InvalidCondition predicate_error
  | FanIn
  | ConfigObject string
  | ChannelField string string
  | UiObject | UiRenderer | UiKeys
  | RouteBranchPoint | RouteInvocation
  | AwaitHandle
  | ContextModel string
  | ContextStrategy string
  | InvalidProgram string
  | ModelFormat
  | ModelContext string
  | ModelFields string
  | InvalidModel string
  | UnknownTool string
  | ToolArguments
  | DelayRange
  | ResponseType
  | SubgraphRequired string
  | SubgraphFormat
  | EndOutput
  | MissingOutput string
  | ConditionOutputs string
  | DuplicateEdge
  | EdgeNode
  | EdgeToStart
  | NoStart
  | Unreachable string
  | PortDiagnostics "diagnostic list"
  | ContextAbsent string string
  | ContextMismatch string
  | ModelArrival string
  | ModelAbsent string
  | ContextExit string
  | InvalidComposition
  | OutOfLevels
  | ParallelWaits string "string list"
  | ContractFailure contract_error

record graph_env =
  env_condition :: "json \<Rightarrow> (string, predicate) result"
  env_exports :: "json \<Rightarrow> flow_exports option"
  env_composition :: "json \<Rightarrow> flow_document option"
  env_retry :: "json \<Rightarrow> retry_settings option"
  env_frozen :: "json \<Rightarrow> (string, unit) result"
  env_model :: "json \<Rightarrow> (string, unit) result"
  env_tool :: "string \<Rightarrow> bool"

definition START :: string where "START = ''__start__''"
definition END :: string where "END = ''__end__''"

subsection \<open>Configuration\<close>

definition combined_config :: "json \<Rightarrow> json \<Rightarrow> json" where
  "combined_config model ctx =
     (case (ctx, model) of
        (JObject target, JObject source) \<Rightarrow> JObject (fold (\<lambda>(k, v). bt_insert k v) source target)
      | _ \<Rightarrow> ctx)"

definition node_config :: "flow_node \<Rightarrow> nat \<Rightarrow> json" where
  "node_config node version =
     (let config = (if is_object (config_of_node node) then config_of_node node else JObject []);
          config = jset ''nodeId'' (JString (node_id node)) config
      in if 2 \<le> version then jset ''__zedflowVersion'' (JNumber (PosInt version)) config
         else (case config of JObject m \<Rightarrow> JObject (bt_remove ''__zedflowVersion'' m) | _ \<Rightarrow> config))"

definition target_of :: "flow_document \<Rightarrow> string \<Rightarrow> string" where
  "target_of doc i = (if list_ex (\<lambda>n. node_id n = i \<and> kind_of_node n = ''end'') (doc_nodes doc) then END else i)"

definition alternative_arrival :: "flow_document \<Rightarrow> string \<Rightarrow> bool" where
  "alternative_arrival doc target \<longleftrightarrow>
     list_ex (\<lambda>n. node_id n = target \<and> jidx (config_of_node n) ''fanIn'' = JString ''any'') (doc_nodes doc)"

subsection \<open>Settings\<close>

definition validate_retry :: "retry_settings \<Rightarrow> (graph_error, unit) result" where
  "validate_retry retry =
     and_then (ensure (1 \<le> retry_attempts retry \<and> retry_attempts retry \<le> 20) RetryAttempts) (\<lambda>_.
     and_then (ensure (retry_initial_delay_ms retry \<le> 600000 \<and> retry_max_delay_ms retry \<le> 600000
         \<and> retry_initial_delay_ms retry \<le> retry_max_delay_ms retry) RetryDelays) (\<lambda>_.
     and_then (ensure (1 \<le> retry_backoff_factor retry \<and> retry_backoff_factor retry \<le> 16) RetryBackoff) (\<lambda>_.
     and_then (ensure (0 \<le> retry_jitter retry \<and> retry_jitter retry \<le> 1) RetryJitter) (\<lambda>_.
       ensure (retry_on retry \<in> set [''any'', ''timeout'']) RetryOn))))"

definition reserved_channel :: "string \<Rightarrow> bool" where
  "reserved_channel name \<longleftrightarrow> prefix ''answer:'' name \<or> prefix ''__zedflow:'' name"

fun validate_channels :: "state_channel list \<Rightarrow> string list \<Rightarrow> (graph_error, unit) result" where
  "validate_channels [] names = Inr ()"
| "validate_channels (c # cs) names =
     and_then (ensure (\<not> blank (ch_name c) \<and> \<not> reserved_channel (ch_name c)) (ChannelName (ch_name c))) (\<lambda>_.
     and_then (ensure (ch_name c \<notin> set names) (ChannelDuplicate (ch_name c))) (\<lambda>_.
     and_then (ensure (ch_reducer c \<in> set [''overwrite'', ''append'', ''sum'']) (ChannelReducer (ch_reducer c))) (\<lambda>_.
     and_then (if ch_reducer c = ''sum''
         then ensure (case ch_default c of None \<Rightarrow> True | Some v \<Rightarrow> is_number v) SumDefault else Inr ()) (\<lambda>_.
     and_then (if ch_reducer c = ''append''
         then ensure (case ch_default c of None \<Rightarrow> True | Some v \<Rightarrow> is_array v) AppendDefault else Inr ()) (\<lambda>_.
       validate_channels cs (ch_name c # names))))))"

definition bookkeeping_channels :: "string list" where
  "bookkeeping_channels = [''messages'', ''toolCalls'', ''toolResults'', ''hasToolCalls'', ''modelResponse'']"

definition validate_history :: "flow_document \<Rightarrow> flow_node \<Rightarrow> (graph_error, unit) result" where
  "validate_history doc node =
     (if kind_of_node node \<in> set [''agent'', ''model'', ''tool'']
      then for_each (\<lambda>key.
        (case as_str (jidx (config_of_node node) key) of
           None \<Rightarrow> Inr ()
         | Some name \<Rightarrow>
             (case find (\<lambda>c. ch_name c = name) (doc_channels doc) of
                None \<Rightarrow> Inr ()
              | Some channel \<Rightarrow> ensure (ch_reducer channel = ''overwrite'') (FieldOverwrite name))))
        [''historyField'', ''toolCallsField'']
      else Inr ())"

definition validate_settings :: "flow_document \<Rightarrow> (graph_error, unit) result" where
  "validate_settings doc =
     (let settings = doc_settings doc in
      and_then (ensure (1 \<le> set_recursion_limit settings \<and> set_recursion_limit settings \<le> 10000) RecursionLimit) (\<lambda>_.
      and_then (ensure (case set_max_concurrency settings of None \<Rightarrow> True | Some v \<Rightarrow> 1 \<le> v \<and> v \<le> 128) MaxConcurrency) (\<lambda>_.
      and_then (for_each (\<lambda>timeout. ensure (case timeout of None \<Rightarrow> True | Some t \<Rightarrow> 1 \<le> t \<and> t \<le> 3600000) TimeoutRange)
          [set_timeout_ms settings, set_idle_timeout_ms settings]) (\<lambda>_.
      and_then (case set_retry settings of None \<Rightarrow> Inr () | Some retry \<Rightarrow> validate_retry retry) (\<lambda>_.
      and_then (validate_channels (doc_channels doc) []) (\<lambda>_.
      and_then (for_each (\<lambda>c. ensure (ch_name c \<in> set bookkeeping_channels \<longrightarrow> ch_reducer c = ''overwrite'')
          (ChannelOverwrite (ch_name c))) (doc_channels doc)) (\<lambda>_.
        for_each (validate_history doc) (doc_nodes doc))))))))"

subsection \<open>Nodes\<close>

definition nonempty_field :: "json \<Rightarrow> string \<Rightarrow> bool" where
  "nonempty_field cfg key = (case as_str (jidx cfg key) of None \<Rightarrow> False | Some s \<Rightarrow> s \<noteq> [])"

definition present_field :: "json \<Rightarrow> string \<Rightarrow> bool" where
  "present_field cfg key = (case jget cfg key of None \<Rightarrow> False | Some v \<Rightarrow> \<not> is_null v)"

definition validate_ui :: "json \<Rightarrow> (graph_error, unit) result" where
  "validate_ui ui =
     and_then (ensure (is_object ui) UiObject) (\<lambda>_.
     and_then (ensure ((case as_str (jidx ui ''renderer'') of None \<Rightarrow> ''json'' | Some s \<Rightarrow> s)
         \<in> set [''json'', ''table'', ''code'', ''markdown'']) UiRenderer) (\<lambda>_.
       ensure (case as_object ui of None \<Rightarrow> False
         | Some m \<Rightarrow> list_all (\<lambda>(k, _). k \<in> set [''renderer'', ''title'', ''language'']) m) UiKeys))"

definition channel_field :: "string \<Rightarrow> json \<Rightarrow> string \<Rightarrow> (graph_error, unit) result" where
  "channel_field label cfg key =
     (case jget cfg key of
        None \<Rightarrow> Inr ()
      | Some v \<Rightarrow> ensure (case as_str v of None \<Rightarrow> False | Some s \<Rightarrow> \<not> blank s \<and> \<not> reserved_channel s) (ChannelField label key))"

definition context_key :: "string \<Rightarrow> bool" where
  "context_key key \<longleftrightarrow>
     prefix ''context'' key \<and> key \<noteq> ''contextNode''
     \<or> key \<in> set [''attachments'', ''instructions'', ''globalInstructions'', ''tools'', ''modelNode'']"

definition validate_program :: "graph_env \<Rightarrow> json \<Rightarrow> (graph_error, unit) result" where
  "validate_program env cfg =
     (case jget cfg ''contextProgram'' of None \<Rightarrow> Inr () | Some program \<Rightarrow> map_err InvalidProgram (env_frozen env program))"

definition validate_tool :: "graph_env \<Rightarrow> json \<Rightarrow> (graph_error, unit) result" where
  "validate_tool env cfg =
     (let name = config_field cfg ''tool'' ''inspect_json'';
          calls = name \<in> set [''execute_calls'', ''execute_next_call''] in
      and_then (ensure (calls \<or> env_tool env name) (UnknownTool name)) (\<lambda>_.
        if \<not> calls \<and> as_str (jidx cfg ''inputField'') = None
        then and_then (ensure (case jget cfg ''arguments'' of None \<Rightarrow> False | Some v \<Rightarrow> is_object v) ToolArguments) (\<lambda>_.
          if name = ''delay''
          then ensure (case jidx (jidx cfg ''arguments'') ''milliseconds'' of JNumber (PosInt v) \<Rightarrow> v \<le> 60000 | _ \<Rightarrow> False) DelayRange
          else Inr ())
        else Inr ()))"

definition validate_kind :: "graph_env \<Rightarrow> nat \<Rightarrow> flow_node \<Rightarrow> (graph_error, unit) result" where
  "validate_kind env version node =
     (let kind = kind_of_node node; cfg = config_of_node node; label = nd_label (node_content node) in
      if kind = ''route'' then
        and_then (ensure (case as_str (jidx cfg ''branch'') of None \<Rightarrow> False | Some s \<Rightarrow> \<not> blank s) RouteBranchPoint) (\<lambda>_.
          (case jget cfg ''invocation'' of
             None \<Rightarrow> Inr ()
           | Some v \<Rightarrow> ensure (as_str v \<in> set [Some ''node'', Some ''condition'']) RouteInvocation))
      else if kind = ''await_route'' then ensure (nonempty_field cfg ''inputField'') AwaitHandle
      else if kind = ''context'' \<and> 3 \<le> version then
        and_then (ensure (nonempty_field cfg ''modelNode'') (ContextModel label)) (\<lambda>_.
        and_then (ensure (present_field cfg ''contextProgram'' \<or> present_field cfg ''contextStrategy'') (ContextStrategy label)) (\<lambda>_.
          validate_program env cfg))
      else if kind = ''model'' then
        and_then (ensure (3 \<le> version) ModelFormat) (\<lambda>_.
        and_then (ensure (nonempty_field cfg ''contextNode'') (ModelContext label)) (\<lambda>_.
          ensure (case as_object cfg of None \<Rightarrow> False | Some m \<Rightarrow> list_all (\<lambda>(k, v). is_null v \<or> \<not> context_key k) m)
            (ModelFields label)))
      else if kind = ''agent'' then
        and_then (validate_program env cfg) (\<lambda>_. map_err InvalidModel (env_model env (node_config node version)))
      else if kind = ''tool'' then validate_tool env cfg
      else if kind = ''input'' then
        ensure (config_field cfg ''responseType'' ''text'' \<in> set [''text'', ''confirmation'']) ResponseType
      else Inr ())"

definition validate_node :: "graph_env \<Rightarrow> nat \<Rightarrow> flow_node \<Rightarrow> (graph_error, unit) result" where
  "validate_node env version node =
     (let kind = kind_of_node node; cfg = config_of_node node; label = nd_label (node_content node) in
      and_then (ensure (jget cfg ''__zedflowVersion'' = None) ReservedVersion) (\<lambda>_.
      and_then (ensure (version \<noteq> 2 \<or> kind \<noteq> ''context'') ContextFormat) (\<lambda>_.
      and_then (if 2 \<le> version \<and> kind = ''condition''
          then and_then (map_err InvalidCondition (parse_predicate (env_condition env) (jidx cfg ''predicate''))) (\<lambda>_. Inr ())
          else Inr ()) (\<lambda>_.
      and_then (case jget cfg ''fanIn'' of None \<Rightarrow> Inr ()
          | Some mode \<Rightarrow> ensure ((case as_str mode of None \<Rightarrow> '''' | Some s \<Rightarrow> s) \<in> set [''any'', ''all'']) FanIn) (\<lambda>_.
      and_then (ensure (is_object cfg \<or> is_null cfg) (ConfigObject label)) (\<lambda>_.
      and_then (case jget cfg ''retry'' of None \<Rightarrow> Inr ()
          | Some v \<Rightarrow> if is_null v then Inr () else and_then (require (env_retry env v) InvalidRetry) validate_retry) (\<lambda>_.
      and_then (for_each (channel_field label cfg) [''field'', ''inputField'', ''historyField'', ''toolCallsField'']) (\<lambda>_.
      and_then (case jget cfg ''ui'' of None \<Rightarrow> Inr () | Some v \<Rightarrow> if is_null v then Inr () else validate_ui v) (\<lambda>_.
        validate_kind env version node)))))))))"

subsection \<open>Context and model nodes\<close>

definition validate_pair :: "graph_env \<Rightarrow> flow_document \<Rightarrow> flow_node \<Rightarrow> (graph_error, unit) result" where
  "validate_pair env doc node =
     (let label = nd_label (node_content node) in
      if kind_of_node node = ''model'' then
        (let context_id = config_field (config_of_node node) ''contextNode'' [] in
         and_then (require (find (\<lambda>n. node_id n = context_id) (doc_nodes doc)) (ContextAbsent label context_id)) (\<lambda>ctx.
         and_then (ensure (kind_of_node ctx = ''context'' \<and> jidx (config_of_node ctx) ''modelNode'' = JString (node_id node))
           (ContextMismatch label)) (\<lambda>_.
         and_then (ensure (case filter (\<lambda>e. edge_target e = node_id node) (doc_edges doc) of
             [e] \<Rightarrow> edge_source e = node_id ctx | _ \<Rightarrow> False) (ModelArrival label)) (\<lambda>_.
           map_err InvalidModel (env_model env
             (combined_config (node_config node (doc_format doc)) (node_config ctx (doc_format doc))))))))
      else if kind_of_node node = ''context'' \<and> 3 \<le> doc_format doc then
        (let model_id = config_field (config_of_node node) ''modelNode'' [] in
         and_then (ensure (list_ex (\<lambda>n. node_id n = model_id \<and> kind_of_node n = ''model''
             \<and> jidx (config_of_node n) ''contextNode'' = JString (node_id node)) (doc_nodes doc)) (ModelAbsent label)) (\<lambda>_.
           ensure (case filter (\<lambda>e. edge_source e = node_id node) (doc_edges doc) of
             [e] \<Rightarrow> edge_target e = model_id | _ \<Rightarrow> False) (ContextExit label)))
      else Inr ())"

definition validate_context_model_pairs :: "graph_env \<Rightarrow> flow_document \<Rightarrow> (graph_error, unit) result" where
  "validate_context_model_pairs env doc = for_each (validate_pair env doc) (doc_nodes doc)"

subsection \<open>Waits\<close>

text \<open>A loop that returns the first value found.\<close>

fun first_some :: "('a \<Rightarrow> ('e, 'b option) result) \<Rightarrow> 'a list \<Rightarrow> ('e, 'b option) result" where
  "first_some f [] = Inr None"
| "first_some f (x # xs) = and_then (f x) (\<lambda>r. case r of None \<Rightarrow> first_some f xs | Some y \<Rightarrow> Inr (Some y))"

definition pauses_itself :: "flow_node \<Rightarrow> bool" where
  "pauses_itself node \<longleftrightarrow>
     kind_of_node node \<in> set [''input'', ''inbox'']
     \<or> kind_of_node node \<in> set [''agent'', ''model''] \<and> jidx (config_of_node node) ''modelBinding'' = JString ''runtime''"

definition subcomposition :: "graph_env \<Rightarrow> flow_node \<Rightarrow> flow_document option" where
  "subcomposition env node = env_composition env (jidx (config_of_node node) ''composition'')"

primrec pause_path :: "nat \<Rightarrow> graph_env \<Rightarrow> flow_node \<Rightarrow> (graph_error, string option) result" where
  "pause_path 0 env node =
     (if pauses_itself node then Inr (Some (node_id node))
      else if kind_of_node node = ''subgraph'' then Inl OutOfLevels
      else Inr None)"
| "pause_path (Suc k) env node =
     (if pauses_itself node then Inr (Some (node_id node))
      else if kind_of_node node = ''subgraph'' then
        and_then (require (subcomposition env node) InvalidComposition) (\<lambda>child.
        and_then (first_some (pause_path k env) (doc_nodes child)) (\<lambda>r.
          Inr (map_option (\<lambda>path. node_id node @ ''/'' @ path) r)))
      else Inr None)"

text \<open>The waits of a graph by node, the last one of an identifier first.\<close>

fun pauses_of :: "nat \<Rightarrow> graph_env \<Rightarrow> flow_node list \<Rightarrow> (string \<times> string) list \<Rightarrow> (graph_error, (string \<times> string) list) result" where
  "pauses_of k env [] pauses = Inr pauses"
| "pauses_of k env (n # ns) pauses =
     and_then (pause_path k env n) (\<lambda>r.
       pauses_of k env ns (case r of None \<Rightarrow> pauses | Some path \<Rightarrow> (node_id n, path) # pauses))"

definition outgoing :: "flow_edge list \<Rightarrow> string \<Rightarrow> string list" where
  "outgoing edges n = map edge_target (filter (\<lambda>e. edge_source e = n) edges)"

text \<open>The work list of \<open>branch_region\<close>, its top first.\<close>

function region_loop ::
  "flow_edge list \<Rightarrow> string \<Rightarrow> string list \<Rightarrow> string list \<Rightarrow> string list \<Rightarrow> bool \<Rightarrow> string list \<times> bool" where
  "region_loop edges fork barriers [] region reentry = (region, reentry)"
| "region_loop edges fork barriers (n # pending) region reentry =
     (if n = fork then region_loop edges fork barriers pending region True
      else if n \<in> set barriers \<or> n \<in> set region then region_loop edges fork barriers pending region reentry
      else region_loop edges fork barriers (rev (outgoing edges n) @ pending) (n # region) reentry)"
  by pat_completeness auto
termination
proof (relation "measures [\<lambda>(edges, fork, barriers, pending, region, reentry).
      card ((edge_target ` set edges \<union> set pending) - set region),
    \<lambda>(edges, fork, barriers, pending, region, reentry). length pending]", simp, goal_cases)
  case (1 edges fork barriers n pending region reentry)
  have "card (edge_target ` set edges \<union> set pending - set region) \<le> card (edge_target ` set edges \<union> set (n # pending) - set region)"
    by (rule card_mono) auto
  then show ?case by auto
next
  case (2 edges fork barriers n pending region reentry)
  have "card (edge_target ` set edges \<union> set pending - set region) \<le> card (edge_target ` set edges \<union> set (n # pending) - set region)"
    by (rule card_mono) auto
  then show ?case by auto
next
  case (3 edges fork barriers n pending region reentry)
  have "card (edge_target ` set edges \<union> set (rev (outgoing edges n) @ pending) - set (n # region))
      < card (edge_target ` set edges \<union> set (n # pending) - set region)"
    using 3 by (intro psubset_card_mono) (auto simp: outgoing_def)
  then show ?case by simp
qed

definition branch_region :: "flow_edge list \<Rightarrow> string \<Rightarrow> string list \<Rightarrow> string \<Rightarrow> string list \<times> bool" where
  "branch_region edges fork barriers r = region_loop edges fork barriers [r] [] False"

text \<open>The branches a required predecessor of a join comes from, by position.\<close>

definition edge_branches :: "string \<Rightarrow> string list \<Rightarrow> string list list \<Rightarrow> flow_edge \<Rightarrow> nat list" where
  "edge_branches fork roots regions e =
     (if edge_source e = fork
      then (case find (\<lambda>i. roots ! i = edge_target e) [0..<length roots] of None \<Rightarrow> [] | Some i \<Rightarrow> [i])
      else (case filter (\<lambda>i. edge_source e \<in> set (regions ! i)) [0..<length regions] of [i] \<Rightarrow> [i] | _ \<Rightarrow> []))"

definition required_branches :: "flow_document \<Rightarrow> string \<Rightarrow> string list \<Rightarrow> string list list \<Rightarrow> string \<Rightarrow> nat list" where
  "required_branches doc fork roots regions join =
     remdups (concat (map (edge_branches fork roots regions)
       (filter (\<lambda>e. edge_target e = join
          \<and> \<not> list_ex (\<lambda>n. node_id n = edge_source e \<and> kind_of_node n = ''condition'') (doc_nodes doc)) (doc_edges doc))))"

definition fork_roots :: "flow_document \<Rightarrow> string \<Rightarrow> string list" where
  "fork_roots doc fork = bs_of_list (outgoing (doc_edges doc) fork)"

definition fork_barriers :: "flow_document \<Rightarrow> string \<Rightarrow> string list" where
  "fork_barriers doc fork =
     (let roots = fork_roots doc fork;
          regions = map (\<lambda>r. fst (branch_region (doc_edges doc) fork [] r)) roots
      in map node_id (filter (\<lambda>join. \<not> alternative_arrival doc (node_id join)
           \<and> length (required_branches doc fork roots regions (node_id join)) = length roots) (doc_nodes doc)))"

definition first_wait :: "(string \<times> string) list \<Rightarrow> string list \<Rightarrow> string option" where
  "first_wait pauses region =
     (case sort (List.map_filter (map_of pauses) region) of [] \<Rightarrow> None | w # _ \<Rightarrow> Some w)"

definition validate_fork :: "flow_document \<Rightarrow> (string \<times> string) list \<Rightarrow> flow_node \<Rightarrow> (graph_error, unit) result" where
  "validate_fork doc pauses fork =
     (let roots = fork_roots doc (node_id fork) in
      if length roots < 2 then Inr ()
      else
        (let walks = map (branch_region (doc_edges doc) (node_id fork) (fork_barriers doc (node_id fork))) roots;
             waits = List.map_filter (first_wait pauses) (map fst walks);
             reenters = list_ex snd walks
         in ensure (length waits < 2 \<and> (\<not> reenters \<or> waits = [])) (ParallelWaits (node_id fork) waits)))"

definition validate_parallel_waits :: "nat \<Rightarrow> graph_env \<Rightarrow> flow_document \<Rightarrow> (graph_error, unit) result" where
  "validate_parallel_waits k env doc =
     and_then (pauses_of k env (doc_nodes doc) []) (\<lambda>pauses.
       if pauses = [] then Inr ()
       else for_each (validate_fork doc pauses) (filter (\<lambda>n. kind_of_node n \<noteq> ''condition'') (doc_nodes doc)))"

subsection \<open>Graphs\<close>

definition node_kinds :: "string list" where
  "node_kinds =
     [''start'', ''end'', ''set'', ''output'', ''input'', ''condition'', ''agent'', ''model'', ''subgraph'', ''tool'',
      ''context'', ''steering'', ''inbox'', ''route'', ''await_route'']"

text \<open>The checks of one node before and after the descent into a subgraph.\<close>

definition node_head :: "graph_env \<Rightarrow> flow_document \<Rightarrow> flow_node \<Rightarrow> (graph_error, unit) result" where
  "node_head env doc node =
     and_then (ensure (doc_format doc < 4 \<or> kind_of_node node \<noteq> ''agent'') (AgentFormat (nd_label (node_content node)))) (\<lambda>_.
     and_then (ensure (node_id node \<noteq> [] \<and> CHR ''/'' \<notin> set (node_id node) \<and> node_id node \<notin> set [START, END])
       (ReservedId (node_id node))) (\<lambda>_.
     and_then (ensure (kind_of_node node \<in> set node_kinds) (UnknownKind (kind_of_node node))) (\<lambda>_.
       validate_node env (doc_format doc) node)))"

definition node_exits :: "flow_document \<Rightarrow> flow_node \<Rightarrow> (graph_error, unit) result" where
  "node_exits doc node =
     (let out = filter (\<lambda>e. edge_source e = node_id node) (doc_edges doc); label = nd_label (node_content node) in
      and_then (if kind_of_node node = ''end'' then ensure (out = []) EndOutput else ensure (out \<noteq> []) (MissingOutput label)) (\<lambda>_.
        if kind_of_node node = ''condition''
        then ensure (length out = 2 \<and> list_ex (\<lambda>e. edge_source_handle e = Some ''true'') out
          \<and> list_ex (\<lambda>e. edge_source_handle e = Some ''false'') out) (ConditionOutputs label)
        else Inr ()))"

fun validate_edges :: "flow_document \<Rightarrow> flow_edge list \<Rightarrow> string list \<Rightarrow> (graph_error, unit) result" where
  "validate_edges doc [] seen = Inr ()"
| "validate_edges doc (e # es) seen =
     and_then (ensure (edge_id e \<notin> set seen) DuplicateEdge) (\<lambda>_.
     and_then (ensure (edge_source e \<in> node_id ` set (doc_nodes doc) \<and> edge_target e \<in> node_id ` set (doc_nodes doc)) EdgeNode) (\<lambda>_.
     and_then (ensure (case find (\<lambda>n. node_id n = edge_target e) (doc_nodes doc) of
         None \<Rightarrow> False | Some n \<Rightarrow> kind_of_node n \<noteq> ''start'') EdgeToStart) (\<lambda>_.
       validate_edges doc es (edge_id e # seen))))"

definition validate_reachable :: "flow_document \<Rightarrow> (graph_error, unit) result" where
  "validate_reachable doc =
     and_then (require (find_start doc) NoStart) (\<lambda>start.
       (let reachable = reach_loop (doc_edges doc) [node_id start] in
        for_each (\<lambda>n. ensure (node_id n \<in> set reachable) (Unreachable (nd_label (node_content n)))) (doc_nodes doc)))"

definition validate_ports :: "graph_env \<Rightarrow> flow_document \<Rightarrow> (graph_error, unit) result" where
  "validate_ports env doc =
     (if 4 \<le> doc_format doc
      then (let ds = ga_diagnostics (analyze (env_condition env) doc) in ensure (ds = []) (PortDiagnostics ds))
      else Inr ())"

definition validate_header :: "flow_document \<Rightarrow> nat \<Rightarrow> (graph_error, unit) result" where
  "validate_header doc depth =
     and_then (ensure (depth = 0 \<or> set_recursion_limit (doc_settings doc) = 100) NestedRecursionLimit) (\<lambda>_.
     and_then (ensure (\<not> blank (doc_name doc)) NameRequired) (\<lambda>_.
     and_then (ensure (length (doc_nodes doc) \<le> 250) TooManyNodes) (\<lambda>_.
     and_then (validate_settings doc) (\<lambda>_.
     and_then (ensure (length (remdups (map node_id (doc_nodes doc))) = length (doc_nodes doc)) DuplicateNodes) (\<lambda>_.
       ensure (length (filter (\<lambda>n. kind_of_node n = ''start'') (doc_nodes doc)) = 1) StartRequired)))))"

definition validate_body :: "nat \<Rightarrow> graph_env \<Rightarrow> flow_document \<Rightarrow> (graph_error, unit) result" where
  "validate_body k env doc =
     and_then (validate_edges doc (doc_edges doc) []) (\<lambda>_.
     and_then (validate_reachable doc) (\<lambda>_.
     and_then (validate_ports env doc) (\<lambda>_.
     and_then (validate_context_model_pairs env doc) (\<lambda>_.
     and_then (validate_parallel_waits k env doc) (\<lambda>_.
     and_then (map_err ContractFailure (validate_contract (env_exports env) doc)) (\<lambda>_. Inr ()))))))"

text \<open>At depth \<open>d\<close> the children were validated down to depth 8, so waits are at most \<open>8 - d\<close> levels below.\<close>

function validate_depth :: "graph_env \<Rightarrow> flow_document \<Rightarrow> nat \<Rightarrow> (graph_error, unit) result" where
  "validate_depth env doc depth =
     and_then (ensure (doc_format doc \<in> set [1, 2, 3, 4]) FormatVersion) (\<lambda>_.
     and_then (ensure (depth \<le> 8) NestingLimit) (\<lambda>_.
     and_then (validate_header doc depth) (\<lambda>_.
     and_then (for_each (\<lambda>node.
        and_then (node_head env doc node) (\<lambda>_.
        and_then (if kind_of_node node = ''subgraph''
            then and_then (require (subcomposition env node) (SubgraphRequired (nd_label (node_content node)))) (\<lambda>child.
                 and_then (ensure (doc_format child = doc_format doc) SubgraphFormat) (\<lambda>_.
                   validate_depth env child (depth + 1)))
            else Inr ()) (\<lambda>_.
          node_exits doc node))) (doc_nodes doc)) (\<lambda>_.
       validate_body (8 - depth) env doc))))"
  by pat_completeness auto
termination
  by (relation "measure (\<lambda>(env, doc, depth). 9 - depth)") (auto simp: ensure_def split: if_splits)

declare validate_depth.simps [simp del]

definition validate :: "graph_env \<Rightarrow> flow_document \<Rightarrow> (graph_error, unit) result" where
  "validate env doc = validate_depth env doc 0"

subsection \<open>Private channels\<close>

primrec answer_paths :: "nat \<Rightarrow> graph_env \<Rightarrow> flow_document \<Rightarrow> (graph_error, string list) result" where
  "answer_paths 0 env doc = Inl OutOfLevels"
| "answer_paths (Suc k) env doc =
     and_then (collect_results (\<lambda>node.
        if kind_of_node node \<in> set [''input'', ''inbox''] then Inr [node_id node]
        else if kind_of_node node = ''subgraph'' then
          and_then (require (subcomposition env node) InvalidComposition) (\<lambda>child.
          and_then (answer_paths k env child) (\<lambda>paths. Inr (map (\<lambda>path. node_id node @ ''/'' @ path) paths)))
        else Inr []) (doc_nodes doc)) (\<lambda>paths. Inr (concat paths))"

definition channel_value :: "state_channel \<Rightarrow> json" where
  "channel_value c = JObject ((case ch_default c of None \<Rightarrow> [] | Some v \<Rightarrow> [(''default'', v)]) @
     [(''name'', JString (ch_name c)), (''reducer'', JString (ch_reducer c))])"

definition private_channel :: "string \<Rightarrow> json" where
  "private_channel name = JObject [(''name'', JString name), (''reducer'', JString ''overwrite'')]"

definition runtime_channels :: "nat \<Rightarrow> graph_env \<Rightarrow> flow_document \<Rightarrow> (graph_error, json) result" where
  "runtime_channels k env doc =
     and_then (answer_paths k env doc) (\<lambda>paths.
       let of_kind = (\<lambda>kinds. filter (\<lambda>n. kind_of_node n \<in> set kinds) (doc_nodes doc)) in
       Inr (JArray (map channel_value (doc_channels doc)
         @ map (\<lambda>path. private_channel (''answer:'' @ path)) paths
         @ concat (map (\<lambda>n.
             [private_channel (''__zedflow:answerConsumed:'' @ node_id n),
              private_channel (''__zedflow:input:'' @ config_field (config_of_node n) ''field''
                (if kind_of_node n = ''input'' then ''output'' else ''input''))]) (of_kind [''input'', ''inbox'', ''steering'']))
         @ map (\<lambda>n. private_channel (''__zedflow:model-input:'' @ node_id n)) (of_kind [''agent'', ''model''])
         @ map (\<lambda>n. private_channel (''__zedflow:prepared-consumed:'' @ node_id n)) (of_kind [''model''])
         @ (if 3 \<le> doc_format doc then map (\<lambda>n. private_channel (''__zedflow:prepared:'' @ node_id n)) (of_kind [''context'']) else [])
         @ (if 2 \<le> doc_format doc then map (\<lambda>n. private_channel (''__zedflow:condition:'' @ node_id n)) (of_kind [''condition'']) else []))))"

end
