(* ===== verification/Zf_Flow_Contract_Props.thy ===== *)
theory Zf_Flow_Contract_Props
  imports Zf_Flow_Contract
begin

text \<open>
  What a validated flow contract guarantees (\<open>zf-flows/src/flow_contract.rs\<close>): the values that
  enter its channels have the declared types, the projection to an entry is the reachable part of
  the rewired graph, and only nodes of a suitable kind may request a branch.
\<close>

subsection \<open>Checks\<close>

lemma ensure_ok [simp]: "ensure b e = Inr u \<longleftrightarrow> b"
  by (simp add: ensure_def)

lemma require_ok [simp]: "require x e = Inr a \<longleftrightarrow> x = Some a"
  by (cases x) (simp_all add: require_def)

lemma for_each_ok: "for_each f xs = Inr u \<Longrightarrow> x \<in> set xs \<Longrightarrow> f x = Inr ()"
  using for_each_ok_iff [of f xs] by simp

lemma add_channels_set:
  "add_channels cs names = Inr names' \<Longrightarrow> set names' = set names \<union> ch_name ` set cs"
  by (induction cs arbitrary: names) (auto split: if_splits)

lemma channel_names_set: "channel_names cs = Inr names \<Longrightarrow> set names = set builtin_channels \<union> ch_name ` set cs"
  unfolding channel_names_def using add_channels_set by fastforce

lemma validate_exports_ok:
  "validate_exports doc ex = Inr () \<Longrightarrow>
     \<exists>names. channel_names (doc_channels doc) = Inr names
       \<and> (\<forall>e \<in> set (ex_entries ex). validate_entry doc names ex e = Inr ())
       \<and> (\<forall>b \<in> set (ex_branches ex). validate_branch doc ex b = Inr ())
       \<and> (\<forall>d \<in> set (ex_data ex). validate_dataset doc names ex d = Inr ())"
  by (simp add: validate_exports_def Let_def and_then_Inr for_each_ok_iff split: sum.splits) auto

lemma validate_contract_ok:
  "validate_contract exports_of doc = Inr (Some ex) \<longleftrightarrow>
     read_exports exports_of doc = Inr (Some ex) \<and> validate_exports doc ex = Inr ()"
  by (auto simp: validate_contract_def and_then_Inr split: option.splits)

lemma entry_input_iff:
  "entry_input ex entry v = Inr m \<longleftrightarrow>
     (\<exists>c b. map_of (flow_entries (ex_contract ex)) entry = Some c \<and> map_of (ex_entries ex) entry = Some b
        \<and> validate_value (port_input c) v (ex_types ex) = Inr () \<and> m = [(eb_input b, v)])"
  by (auto simp: entry_input_def and_then_Inr)

lemma validate_entry_ok:
  assumes "validate_entry doc names ex (name, b) = Inr ()"
  shows "eb_input b \<in> set names" and "eb_output b = Some out \<Longrightarrow> out \<in> set names"
  using assms by (auto simp: validate_entry_def and_then_Inr check_channel_def)

lemma validate_dataset_ok:
  assumes "validate_dataset doc names ex (name, channel) = Inr ()" and "channel_default doc channel = Some v"
  obtains exposure where "map_of (flow_data (ex_contract ex)) name = Some exposure" "has_type (ex_types ex) v (exposed_type exposure)"
  using assms by (auto simp: validate_dataset_def and_then_Inr dest: validate_value_okD(2))

subsection \<open>Reachable nodes\<close>

definition graph_of :: "flow_edge list \<Rightarrow> (string \<times> string) set" where
  "graph_of edges = (\<lambda>e. (edge_source e, edge_target e)) ` set edges"

lemma reach_pass_sound:
  "set (reach_pass edges r) \<subseteq> (graph_of es)\<^sup>* `` A" if "set edges \<subseteq> set es" "set r \<subseteq> (graph_of es)\<^sup>* `` A"
  using that unfolding reach_pass_def
proof (induction edges arbitrary: r)
  case (Cons e edges)
  let ?r = "if edge_source e \<in> set r then List.insert (edge_target e) r else r"
  have step: "(edge_source e, edge_target e) \<in> graph_of es" using Cons.prems(1) by (auto simp: graph_of_def)
  have "edge_target e \<in> (graph_of es)\<^sup>* `` A" if "edge_source e \<in> set r"
  proof -
    from that Cons.prems(2) obtain a where "a \<in> A" "(a, edge_source e) \<in> (graph_of es)\<^sup>*" by blast
    with step show ?thesis by (blast intro: rtrancl_into_rtrancl)
  qed
  with Cons.prems(2) have "set ?r \<subseteq> (graph_of es)\<^sup>* `` A" by auto
  with Cons.IH [of ?r] Cons.prems(1) show ?case by simp
qed simp

lemma reach_pass_stable:
  assumes "length (reach_pass edges r) = length r"
  shows "reach_pass edges r = r" and "\<forall>e \<in> set edges. edge_source e \<in> set r \<longrightarrow> edge_target e \<in> set r"
proof -
  have "reach_pass edges r = r \<and> (\<forall>e \<in> set edges. edge_source e \<in> set r \<longrightarrow> edge_target e \<in> set r)"
    using assms
  proof (induction edges arbitrary: r)
    case (Cons e edges)
    let ?r = "if edge_source e \<in> set r then List.insert (edge_target e) r else r"
    have pass: "reach_pass (e # edges) r = reach_pass edges ?r" by (simp add: reach_pass_def)
    have "length r \<le> length ?r" by (simp add: List.insert_def)
    moreover have "length ?r \<le> length (reach_pass edges ?r)" by (rule reach_pass_grows(3))
    ultimately have len: "length ?r = length r" "length (reach_pass edges ?r) = length ?r" using Cons.prems pass by simp_all
    from len(1) have same: "?r = r" "edge_source e \<in> set r \<longrightarrow> edge_target e \<in> set r"
      by (auto simp: List.insert_def split: if_splits)
    with Cons.IH [of ?r] len(2) pass show ?case by simp
  qed (simp add: reach_pass_def)
  then show "reach_pass edges r = r" "\<forall>e \<in> set edges. edge_source e \<in> set r \<longrightarrow> edge_target e \<in> set r" by blast+
qed

lemma reach_loop_set: "set (reach_loop edges r) = (graph_of edges)\<^sup>* `` set r"
proof (induction edges r rule: reach_loop.induct)
  case (1 edges r)
  let ?p = "reach_pass edges r"
  have sub: "set r \<subseteq> (graph_of edges)\<^sup>* `` set r" by blast
  note sound = reach_pass_sound [OF order_refl sub]
  show ?case
  proof (cases "length ?p = length r")
    case True
    note stable = reach_pass_stable [OF True]
    have "t \<in> set r" if "(s, t) \<in> (graph_of edges)\<^sup>*" "s \<in> set r" for s t
      using that by (induction rule: rtrancl_induct) (use stable(2) in \<open>auto simp: graph_of_def\<close>)
    then have "(graph_of edges)\<^sup>* `` set r = set r" using sub by blast
    with True stable(1) show ?thesis by (simp add: reach_loop.simps [of edges r])
  next
    case False
    then have "set (reach_loop edges r) = (graph_of edges)\<^sup>* `` set ?p"
      using 1 [OF refl] by (simp add: reach_loop.simps [of edges r] Let_def)
    also have "\<dots> = (graph_of edges)\<^sup>* `` set r"
    proof
      show "(graph_of edges)\<^sup>* `` set ?p \<subseteq> (graph_of edges)\<^sup>* `` set r"
        using sound by (blast intro: rtrancl_trans)
      show "(graph_of edges)\<^sup>* `` set r \<subseteq> (graph_of edges)\<^sup>* `` set ?p"
        using reach_pass_grows(1) [of r edges] by blast
    qed
    finally show ?thesis .
  qed
qed

text \<open>What is reachable is reachable along the edges between reachable nodes.\<close>

lemma reachable_within:
  assumes "(s, t) \<in> (graph_of edges)\<^sup>*"
  shows "(s, t) \<in> (graph_of (filter (\<lambda>e. (s, edge_source e) \<in> (graph_of edges)\<^sup>*) edges))\<^sup>*"
  using assms
proof (induction rule: rtrancl_induct)
  case (step u t)
  then have "(u, t) \<in> graph_of (filter (\<lambda>e. (s, edge_source e) \<in> (graph_of edges)\<^sup>*) edges)" by (auto simp: graph_of_def)
  with step.IH show ?case by (rule rtrancl_into_rtrancl)
qed simp

lemma drop_exports_simps [simp]:
  "node_id (drop_exports n) = node_id n" "kind_of_node (drop_exports n) = kind_of_node n"
  by (simp_all add: drop_exports_def)

lemma drop_exports_none: "kind_of_node n = ''start'' \<Longrightarrow> jget (config_of_node (drop_exports n)) ''exports'' = None"
  by (cases "config_of_node n") (simp_all add: drop_exports_def bt_remove_lookup)

lemma find_map_filter:
  assumes "find P xs = Some y" and "Q y" and "\<And>x. P (f x) = P x"
  shows "find P (map f (filter Q xs)) = Some (f y)"
  using assms(1) by (induction xs) (auto simp: assms(2,3) split: if_splits)

subsection \<open>An example\<close>

definition example_exports :: flow_exports where
  "example_exports =
     \<lparr>ex_contract = \<lparr>flow_entries = [(''main'', \<lparr>port_input = Boolean, port_output = None\<rparr>)],
        flow_branches = [(''b'', \<lparr>branch_contract = \<lparr>port_input = Boolean, port_output = Some Boolean\<rparr>,
          branch_invocations = [Node], branch_requesters = []\<rparr>)],
        flow_data = [(''d'', \<lparr>exposed_type = Boolean, exposed_permissions = read_only\<rparr>)],
        flow_requires = [], flow_inferences = []\<rparr>,
      ex_types = [], ex_entries = [(''main'', \<lparr>eb_node = ''r'', eb_input = ''c'', eb_output = None\<rparr>)],
      ex_branches = [(''b'', ''r'')], ex_data = [(''d'', ''c'')], ex_requires = [], ex_interactive = False\<rparr>"

definition example_node :: "string \<Rightarrow> string \<Rightarrow> json \<Rightarrow> flow_node" where
  "example_node i kind config =
     \<lparr>node_id = i, node_type = ''flow'', node_position = \<lparr>pos_x = 0, pos_y = 0\<rparr>,
      node_content = \<lparr>nd_label = i, nd_kind = kind, nd_config = config\<rparr>\<rparr>"

definition example_edge :: "string \<Rightarrow> string \<Rightarrow> flow_edge" where
  "example_edge s t =
     \<lparr>edge_id = s @ t, edge_source = s, edge_target = t, edge_source_handle = None, edge_target_handle = None, edge_label = None\<rparr>"

definition example_doc :: flow_document where
  "example_doc =
     \<lparr>doc_format = 4, doc_id = ''f'', doc_name = ''f'', doc_revision = 1,
      doc_nodes = [example_node ''s'' ''start'' (JObject [(''exports'', JNull)]), example_node ''x'' ''set'' JNull,
        example_node ''r'' ''route'' (JObject [(''branch'', JString ''b''), (''fallback'', JBool True)]), example_node ''e'' ''end'' JNull],
      doc_edges = [example_edge ''s'' ''x'', example_edge ''x'' ''r'', example_edge ''r'' ''e''],
      doc_settings = default_settings,
      doc_channels = [\<lparr>ch_name = ''c'', ch_reducer = ''overwrite'', ch_default = Some (JBool True)\<rparr>]\<rparr>"

lemma example_contract: "validate_contract (\<lambda>_. Some example_exports) example_doc = Inr (Some example_exports)"
  by code_simp

subsection \<open>Properties\<close>

text \<open>
  C34. The values a validated flow lets into its channels have their declared types. An entry
  accepts exactly the values of its input type and puts them into a declared channel; the default
  of a channel exposed as a dataset has the type of the dataset; the fallback of a route node
  bound to a branch has the output type of the branch.
\<close>

theorem contract_typed:
  assumes ok: "validate_contract exports_of doc = Inr (Some ex)"
  shows "(\<forall>entry v m. entry_input ex entry v = Inr m \<longleftrightarrow>
       (\<exists>c b. map_of (flow_entries (ex_contract ex)) entry = Some c \<and> map_of (ex_entries ex) entry = Some b
          \<and> validate_type (port_input c) (ex_types ex) = Inr () \<and> has_type (ex_types ex) v (port_input c)
          \<and> eb_input b \<in> set builtin_channels \<union> ch_name ` set (doc_channels doc) \<and> m = [(eb_input b, v)]))
    \<and> (\<forall>name channel v. map_of (ex_data ex) name = Some channel \<and> channel_default doc channel = Some v \<longrightarrow>
         (\<exists>exposure. map_of (flow_data (ex_contract ex)) name = Some exposure
            \<and> has_type (ex_types ex) v (exposed_type exposure)))
    \<and> (\<forall>name i node point v. map_of (ex_branches ex) name = Some i \<and> nodes_by_id doc i = Some node
         \<and> map_of (flow_branches (ex_contract ex)) name = Some point \<and> branch_requesters point = []
         \<and> (Node \<in> set (branch_invocations point) \<or> Condition \<in> set (branch_invocations point))
         \<and> jget (config_of_node node) ''fallback'' = Some v \<longrightarrow>
         (\<exists>t. port_output (branch_contract point) = Some t \<and> has_type (ex_types ex) v t))"
proof (intro conjI allI impI, goal_cases)
  case (1 entry v m)
  from ok obtain names where n: "channel_names (doc_channels doc) = Inr names"
    "\<forall>e \<in> set (ex_entries ex). validate_entry doc names ex e = Inr ()"
    using validate_exports_ok validate_contract_ok by blast
  have "eb_input b \<in> set builtin_channels \<union> ch_name ` set (doc_channels doc)" if b: "map_of (ex_entries ex) entry = Some b" for b
  proof -
    have "validate_entry doc names ex (entry, b) = Inr ()" using n(2) map_of_SomeD [OF b] by blast
    from validate_entry_ok(1) [OF this] show ?thesis unfolding channel_names_set [OF n(1)] .
  qed
  moreover have "validate_value t v (ex_types ex) = Inr () \<longleftrightarrow> validate_type t (ex_types ex) = Inr () \<and> has_type (ex_types ex) v t" for t
    using validate_value_okD validate_value_okI by blast
  ultimately show ?case unfolding entry_input_iff by blast
next
  case (2 name channel v)
  then have "(name, channel) \<in> set (ex_data ex)" by (blast dest: map_of_SomeD)
  with ok obtain names where "validate_dataset doc names ex (name, channel) = Inr ()"
    using validate_exports_ok validate_contract_ok by blast
  with 2 show ?case by (blast elim: validate_dataset_ok)
next
  case (3 name i node point v)
  then have "(name, i) \<in> set (ex_branches ex)" by (blast dest: map_of_SomeD)
  with ok have "validate_branch doc ex (name, i) = Inr ()" using validate_exports_ok validate_contract_ok by blast
  with 3 have "validate_fallback ex name point (config_of_node node) = Inr ()"
    by (auto simp: validate_branch_def and_then_Inr Let_def)
  with 3 show ?case by (auto simp: validate_fallback_def and_then_Inr dest: validate_value_okD(2))
qed

theorem contract_typed_witness:
  "entry_input example_exports ''main'' (JBool False) = Inr [(''c'', JBool False)]
   \<and> entry_input example_exports ''main'' JNull \<noteq> Inr [(''c'', JNull)]
   \<and> has_type [] (JBool True) Boolean"
proof -
  note typed = contract_typed [OF example_contract]
  have main: "map_of (flow_entries (ex_contract example_exports)) ''main'' = Some \<lparr>port_input = Boolean, port_output = None\<rparr>"
    "map_of (ex_entries example_exports) ''main'' = Some \<lparr>eb_node = ''r'', eb_input = ''c'', eb_output = None\<rparr>"
    "ex_types example_exports = []" by (simp_all add: example_exports_def)
  have valid: "validate_type Boolean [] = Inr ()" by code_simp
  have c: "''c'' \<in> set builtin_channels \<union> ch_name ` set (doc_channels example_doc)" by (simp add: example_doc_def)
  have "has_type [] (JBool False) Boolean" by (rule type_boolean) simp
  with typed [THEN conjunct1, THEN spec, of "''main''", THEN spec, of "JBool False", THEN spec, of "[(''c'', JBool False)]"] main valid c
  have 1: "entry_input example_exports ''main'' (JBool False) = Inr [(''c'', JBool False)]" by simp
  have "\<not> has_type [] JNull Boolean" by (auto elim: has_type.cases)
  with typed [THEN conjunct1, THEN spec, of "''main''", THEN spec, of JNull, THEN spec, of "[(''c'', JNull)]"] main
  have 2: "entry_input example_exports ''main'' JNull \<noteq> Inr [(''c'', JNull)]" by simp
  have "map_of (ex_data example_exports) ''d'' = Some ''c''" "channel_default example_doc ''c'' = Some (JBool True)"
    by (simp_all add: example_exports_def example_doc_def channel_default_def)
  with typed obtain exposure where "map_of (flow_data (ex_contract example_exports)) ''d'' = Some exposure"
    "has_type (ex_types example_exports) (JBool True) (exposed_type exposure)" by blast
  then have "has_type [] (JBool True) Boolean" by (auto simp: example_exports_def)
  with 1 2 show ?thesis by blast
qed

text \<open>
  C35. The projection of a flow to an entry keeps exactly the nodes reachable from the start
  node, in their order, once the start node is wired to the entry alone, and the edges between
  them; every node kept is reachable along edges kept, no other edge leaves the start node, and
  the projection declares no exports any more.
\<close>

theorem at_entry_projection:
  assumes "at_entry exports_of doc entry = Inr p"
  shows "\<exists>ex binding start E R. validate_contract exports_of doc = Inr (Some ex) \<and> map_of (ex_entries ex) entry = Some binding
    \<and> find_start doc = Some start \<and> E = entry_edges doc entry start binding \<and> R = (graph_of E)\<^sup>* `` {node_id start}
    \<and> doc_nodes p = map drop_exports (filter (\<lambda>n. node_id n \<in> R) (doc_nodes doc))
    \<and> doc_edges p = filter (\<lambda>e. edge_source e \<in> R) E
    \<and> list_all (\<lambda>n. (node_id start, node_id n) \<in> (graph_of (doc_edges p))\<^sup>*) (doc_nodes p)
    \<and> (if eb_node binding = node_id start then E = doc_edges doc
       else map edge_target (filter (\<lambda>e. edge_source e = node_id start) (doc_edges p)) = [eb_node binding])
    \<and> read_exports exports_of p = Inr None"
proof -
  from assms obtain ex binding start where
    v: "validate_contract exports_of doc = Inr (Some ex)" "map_of (ex_entries ex) entry = Some binding" "find_start doc = Some start"
    and p: "p = (let edges = entry_edges doc entry start binding; reachable = reach_loop edges [node_id start]
       in doc\<lparr>doc_nodes := map drop_exports (filter (\<lambda>n. node_id n \<in> set reachable) (doc_nodes doc)),
              doc_edges := filter (\<lambda>e. edge_source e \<in> set reachable \<and> edge_target e \<in> set reachable) edges\<rparr>)"
    by (auto simp: at_entry_def and_then_Inr Let_def)
  let ?E = "entry_edges doc entry start binding" and ?s = "node_id start"
  have R: "i \<in> set (reach_loop ?E [?s]) \<longleftrightarrow> (?s, i) \<in> (graph_of ?E)\<^sup>*" for i by (simp add: reach_loop_set)
  have nodes: "doc_nodes p = map drop_exports (filter (\<lambda>n. (?s, node_id n) \<in> (graph_of ?E)\<^sup>*) (doc_nodes doc))"
    by (simp add: p Let_def R)
  have step: "(?s, edge_target e) \<in> (graph_of ?E)\<^sup>*" if "e \<in> set ?E" "(?s, edge_source e) \<in> (graph_of ?E)\<^sup>*" for e
    using that by (intro rtrancl_into_rtrancl [OF that(2)]) (auto simp: graph_of_def)
  have edges: "doc_edges p = filter (\<lambda>e. (?s, edge_source e) \<in> (graph_of ?E)\<^sup>*) ?E"
    using step by (auto simp: p Let_def R intro!: filter_cong)
  have "list_all (\<lambda>n. (?s, node_id n) \<in> (graph_of (doc_edges p))\<^sup>*) (doc_nodes p)"
    unfolding edges nodes using reachable_within by (auto simp: list_all_iff)
  moreover have "if eb_node binding = ?s then ?E = doc_edges doc
      else map edge_target (filter (\<lambda>e. edge_source e = ?s) (doc_edges p)) = [eb_node binding]"
    unfolding edges by (auto simp: entry_edges_def filter_empty_conv)
  moreover have "find_start p = Some (drop_exports start)"
    using find_map_filter [OF v(3) [unfolded find_start_def], of "\<lambda>n. (?s, node_id n) \<in> (graph_of ?E)\<^sup>*" drop_exports]
    by (simp add: find_start_def nodes)
  moreover have "kind_of_node start = ''start''" using v(3) unfolding find_start_def find_Some_iff by blast
  moreover have "read_exports exports_of p = Inr None" if "find_start p = Some (drop_exports start)" "kind_of_node start = ''start''"
    using that drop_exports_none [of start] by (simp add: read_exports_def require_def)
  ultimately show ?thesis
    using v nodes edges by (intro exI [of _ ex] exI [of _ binding] exI [of _ start] exI [of _ ?E]) auto
qed

definition example_projection :: flow_document where
  "example_projection = example_doc\<lparr>
     doc_nodes := [example_node ''s'' ''start'' (JObject []),
        example_node ''r'' ''route'' (JObject [(''branch'', JString ''b''), (''fallback'', JBool True)]), example_node ''e'' ''end'' JNull],
     doc_edges := [example_edge ''r'' ''e'', (example_edge ''s'' ''r'')\<lparr>edge_id := ''__entry_main''\<rparr>]\<rparr>"

theorem at_entry_projection_witness:
  "\<exists>ex binding start E R. validate_contract (\<lambda>_. Some example_exports) example_doc = Inr (Some ex) \<and> map_of (ex_entries ex) ''main'' = Some binding
    \<and> find_start example_doc = Some start \<and> E = entry_edges example_doc ''main'' start binding \<and> R = (graph_of E)\<^sup>* `` {node_id start}
    \<and> doc_nodes example_projection = map drop_exports (filter (\<lambda>n. node_id n \<in> R) (doc_nodes example_doc))
    \<and> doc_edges example_projection = filter (\<lambda>e. edge_source e \<in> R) E
    \<and> list_all (\<lambda>n. (node_id start, node_id n) \<in> (graph_of (doc_edges example_projection))\<^sup>*) (doc_nodes example_projection)
    \<and> (if eb_node binding = node_id start then E = doc_edges example_doc
       else map edge_target (filter (\<lambda>e. edge_source e = node_id start) (doc_edges example_projection)) = [eb_node binding])
    \<and> read_exports (\<lambda>_. Some example_exports) example_projection = Inr None"
proof (rule at_entry_projection)
  show "at_entry (\<lambda>_. Some example_exports) example_doc ''main'' = Inr example_projection" by code_simp
qed

subsection \<open>Requesters\<close>

lemma find_nodes_by_id:
  assumes "distinct (map node_id (doc_nodes doc))"
  shows "find (\<lambda>n. node_id n = i) (doc_nodes doc) = nodes_by_id doc i"
proof -
  have dist: "distinct (map fst (map (\<lambda>n. (node_id n, n)) (doc_nodes doc)))" using assms by (simp add: comp_def)
  have "find (\<lambda>n. node_id n = i) ns = map_of (map (\<lambda>n. (node_id n, n)) ns) i" for ns by (induction ns) auto
  moreover have "map_of (rev xs) = map_of xs" if "distinct (map fst xs)" for xs :: "(string \<times> flow_node) list"
    using that map_of_inject_set [of "rev xs" xs] by (simp add: rev_map [symmetric])
  ultimately show ?thesis using dist by (simp add: nodes_by_id_def)
qed

lemma check_requester_ok:
  assumes "check_requester doc name n = Inr ()" and "distinct (map node_id (doc_nodes doc))"
  shows "\<exists>k. requester_accepts doc n k"
proof -
  from assms obtain item where "find (\<lambda>n'. node_id n' = n) (doc_nodes doc) = Some item"
    "kind_of_node item = ''route'' \<or> kind_of_node item = ''context'' \<or> kind_of_node item = ''model''"
    by (auto simp: check_requester_def and_then_Inr find_nodes_by_id)
  then have "requester_accepts doc n Node \<or> requester_accepts doc n Context \<or> requester_accepts doc n Tool"
    by (auto simp: requester_accepts_def)
  then show ?thesis by blast
qed

lemma validate_branch_owner:
  assumes "validate_branch doc ex (name, i) = Inr ()" and "map_of (flow_branches (ex_contract ex)) name = Some point"
    and "branch_requesters point = []" and "distinct (map node_id (doc_nodes doc))" and "k \<in> set (branch_invocations point)"
  shows "requester_accepts doc i k"
  using assms by (cases k) (auto simp: validate_branch_def and_then_Inr Let_def requester_accepts_def find_nodes_by_id)

text \<open>
  C36. In a validated flow with distinct node identifiers the requesters of a branch are exactly
  the nodes that may request it, and each of them is a node of the graph of a suitable kind: it
  accepts every kind of invocation the branch declares, and at least one kind where the branch
  declares none.
\<close>

theorem requesters_suitable:
  assumes ok: "validate_contract exports_of doc = Inr (Some ex)" and ids: "distinct (map node_id (doc_nodes doc))"
  shows "(can_request ex branch n \<longleftrightarrow> n \<in> set (requesters ex branch))
    \<and> (can_request ex branch n \<longrightarrow>
         (\<exists>point. map_of (flow_branches (ex_contract ex)) branch = Some point
            \<and> (\<forall>k \<in> set (branch_invocations point). requester_accepts doc n k) \<and> (\<exists>k. requester_accepts doc n k)))"
proof (intro conjI impI)
  show "can_request ex branch n \<longleftrightarrow> n \<in> set (requesters ex branch)"
    by (auto simp: can_request_def requesters_def split: option.splits)
  assume can: "can_request ex branch n"
  then obtain point where point: "map_of (flow_branches (ex_contract ex)) branch = Some point"
    by (auto simp: can_request_def split: option.splits)
  from ok have keys: "keys (ex_branches ex) = keys (flow_branches (ex_contract ex))"
    by (auto simp: validate_contract_ok validate_exports_def and_then_Inr Let_def)
  then obtain i where i: "map_of (ex_branches ex) branch = Some i" using point keys_iff by metis
  have valid: "validate_branch doc ex (branch, i) = Inr ()"
    using ok map_of_SomeD [OF i] validate_exports_ok validate_contract_ok by blast
  have "(\<forall>k \<in> set (branch_invocations point). requester_accepts doc n k) \<and> (\<exists>k. requester_accepts doc n k)"
  proof (cases "branch_requesters point = []")
    case True
    then have "n = i" using can point i by (simp add: can_request_def)
    then have all: "\<forall>k \<in> set (branch_invocations point). requester_accepts doc n k"
      using validate_branch_owner [OF valid point True ids] by blast
    have "branch_invocations point \<noteq> []" using valid point True by (auto simp: validate_branch_def and_then_Inr Let_def)
    then have "\<exists>k. k \<in> set (branch_invocations point)" by (cases "branch_invocations point") auto
    with all show ?thesis by blast
  next
    case False
    then have n: "n \<in> set (branch_requesters point)" using can point by (simp add: can_request_def)
    obtain node where "validate_plug doc branch node point = Inr ()"
      using valid point False by (auto simp: validate_branch_def and_then_Inr Let_def)
    then have "branch_invocations point = []" "check_requester doc branch n = Inr ()"
      using n by (auto simp: validate_plug_def and_then_Inr for_each_ok_iff split: sum.splits dest: for_each_ok)
    with check_requester_ok [OF _ ids] show ?thesis by auto
  qed
  with point show "\<exists>point. map_of (flow_branches (ex_contract ex)) branch = Some point
      \<and> (\<forall>k \<in> set (branch_invocations point). requester_accepts doc n k) \<and> (\<exists>k. requester_accepts doc n k)" by blast
qed

theorem requesters_suitable_witness:
  "can_request example_exports ''b'' ''r''
   \<and> (\<exists>point. map_of (flow_branches (ex_contract example_exports)) ''b'' = Some point
        \<and> (\<forall>k \<in> set (branch_invocations point). requester_accepts example_doc ''r'' k) \<and> (\<exists>k. requester_accepts example_doc ''r'' k))"
proof -
  have "distinct (map node_id (doc_nodes example_doc))" by (simp add: example_doc_def example_node_def)
  moreover have "can_request example_exports ''b'' ''r''" by (simp add: can_request_def example_exports_def)
  ultimately show ?thesis using requesters_suitable [OF example_contract, of "''b''" "''r''"] by blast
qed

end
