(* ===== verification/Zf_Node_Contracts_Props.thy ===== *)
theory Zf_Node_Contracts_Props
  imports Zf_Node_Contracts Zf_Flow_Contract_Props
begin

text \<open>
  What the analysis of a flow graph computes (\<open>zf-flows/src/node_contracts.rs\<close>): the bounded
  iteration reaches the least fixed point, which is reachability of a producer, and a graph
  without diagnostics joins ports of the same kind.
\<close>

subsection \<open>Paths of bounded length\<close>

text \<open>A path between nodes of a finite set can be shortened until it visits no node twice.\<close>

lemma shorter_path:
  fixes R :: "('a \<times> 'a) set"
  assumes path: "(s, t) \<in> R ^^ m" and m: "card V < m" and V: "finite V" "Range R \<subseteq> V"
  shows "\<exists>k. 0 < k \<and> k < m \<and> (s, t) \<in> R ^^ k"
proof -
  from path obtain f where f: "f 0 = s" "f m = t" "\<And>i. i < m \<Longrightarrow> (f i, f (Suc i)) \<in> R"
    unfolding relpow_fun_conv by blast
  have "f i \<in> V" if "i \<in> {1..m}" for i
  proof -
    from that have "(f (i - 1), f (Suc (i - 1))) \<in> R" by (intro f(3)) auto
    with that V(2) show ?thesis by auto
  qed
  then have "card (f ` {1..m}) \<le> card V" using V(1) by (intro card_mono) auto
  with m have "\<not> inj_on f {1..m}" by (metis card_atLeastAtMost card_image diff_Suc_1 not_le)
  then obtain a b where ab: "a \<in> {1..m}" "b \<in> {1..m}" "a \<noteq> b" "f a = f b" unfolding inj_on_def by blast
  obtain i j where ij: "1 \<le> i" "i < j" "j \<le> m" "f i = f j"
    using ab by (cases "a < b") (auto intro: that [of a b] that [of b a])
  have part: "(f l, f (l + n)) \<in> R ^^ n" if "l + n \<le> m" for l n
    using that
  proof (induction n)
    case (Suc n)
    then have "(f l, f (l + n)) \<in> R ^^ n" "(f (l + n), f (Suc (l + n))) \<in> R" using f(3) by simp_all
    then show ?case by (auto intro: relcompI)
  qed simp
  have "(s, f i) \<in> R ^^ i" using part [of 0 i] ij f(1) by simp
  moreover have "(f j, t) \<in> R ^^ (m - j)" using part [of j "m - j"] ij f(2) by simp
  ultimately have "(s, t) \<in> R ^^ (i + (m - j))" using ij(4) by (auto simp: relpow_add)
  moreover have "0 < i + (m - j)" "i + (m - j) < m" using ij by auto
  ultimately show ?thesis by blast
qed

lemma bounded_path:
  fixes R :: "('a \<times> 'a) set"
  assumes V: "finite V" "Range R \<subseteq> V"
  shows "0 < m \<Longrightarrow> (s, t) \<in> R ^^ m \<Longrightarrow> \<exists>k. 0 < k \<and> k \<le> card V \<and> (s, t) \<in> R ^^ k"
proof (induction m rule: less_induct)
  case (less m)
  show ?case
  proof (cases "m \<le> card V")
    case True
    with less.prems show ?thesis by blast
  next
    case False
    then obtain k where "0 < k" "k < m" "(s, t) \<in> R ^^ k" using shorter_path [OF less.prems(2) _ V] by auto
    with less.IH show ?thesis by blast
  qed
qed

subsection \<open>Levels of the iteration\<close>

definition arrives :: "(string \<times> string) set \<Rightarrow> string set \<Rightarrow> (string \<Rightarrow> string set) \<Rightarrow> nat \<Rightarrow> string \<Rightarrow> string set" where
  "arrives E init out k t = init \<union> {c. \<exists>s m. 0 < m \<and> m \<le> k \<and> (s, t) \<in> E ^^ m \<and> c \<in> out s}"

lemma arrives_0 [simp]: "arrives E init out 0 t = init"
  by (simp add: arrives_def)

lemma arrives_Suc:
  "arrives E init out (Suc k) t = arrives E init out k t \<union> (\<Union>s \<in> {s. (s, t) \<in> E}. arrives E init out k s \<union> out s)"
    (is "?L = ?R")
proof
  show "?L \<subseteq> ?R"
  proof
    fix c assume "c \<in> ?L"
    then consider "c \<in> init" | s m where "0 < m" "m \<le> Suc k" "(s, t) \<in> E ^^ m" "c \<in> out s" by (auto simp: arrives_def)
    then show "c \<in> ?R"
    proof cases
      case 1
      then show ?thesis by (simp add: arrives_def)
    next
      case 2
      then obtain m' u where m: "m = Suc m'" "(s, u) \<in> E ^^ m'" "(u, t) \<in> E" by (cases m) auto
      show ?thesis
      proof (cases "m' = 0")
        case True
        with m 2(4) show ?thesis by auto
      next
        case False
        then have "c \<in> arrives E init out k u" using m 2 by (auto simp: arrives_def)
        with m(3) show ?thesis by blast
      qed
    qed
  qed
  show "?R \<subseteq> ?L"
  proof
    fix c assume "c \<in> ?R"
    then consider "c \<in> arrives E init out k t" | s where "(s, t) \<in> E" "c \<in> arrives E init out k s" | s where "(s, t) \<in> E" "c \<in> out s"
      by blast
    then show "c \<in> ?L"
    proof cases
      case 1
      then show ?thesis by (auto simp: arrives_def intro: le_SucI)
    next
      case 2
      then consider "c \<in> init" | u m where "0 < m" "m \<le> k" "(u, s) \<in> E ^^ m" "c \<in> out u" by (auto simp: arrives_def)
      then show ?thesis
      proof cases
        case (2 u m)
        then have "(u, t) \<in> E ^^ Suc m" using \<open>(s, t) \<in> E\<close> by auto
        with 2 show ?thesis unfolding arrives_def by blast
      qed (simp add: arrives_def)
    next
      case 3
      then have "(s, t) \<in> E ^^ 1" by simp
      with 3 show ?thesis unfolding arrives_def by fastforce
    qed
  qed
qed

definition arrives_ever :: "(string \<times> string) set \<Rightarrow> string set \<Rightarrow> (string \<Rightarrow> string set) \<Rightarrow> string \<Rightarrow> string set" where
  "arrives_ever E init out t = init \<union> {c. \<exists>s. (s, t) \<in> E\<^sup>+ \<and> c \<in> out s}"

lemma arrives_ever_iff: "c \<in> arrives_ever E init out t \<longleftrightarrow> (\<exists>k. c \<in> arrives E init out k t)"
  unfolding arrives_ever_def arrives_def trancl_power by blast

lemma arrives_mono: "k \<le> l \<Longrightarrow> arrives E init out k t \<subseteq> arrives E init out l t"
  unfolding arrives_def using order_trans by blast

lemma arrives_bound:
  assumes "finite V" "Range E \<subseteq> V" "card V \<le> k"
  shows "arrives E init out k t = arrives_ever E init out t"
proof
  show "arrives E init out k t \<subseteq> arrives_ever E init out t" using arrives_ever_iff by blast
  show "arrives_ever E init out t \<subseteq> arrives E init out k t"
  proof
    fix c assume "c \<in> arrives_ever E init out t"
    then consider "c \<in> init" | s where "(s, t) \<in> E\<^sup>+" "c \<in> out s" by (auto simp: arrives_ever_def)
    then show "c \<in> arrives E init out k t"
    proof cases
      case 2
      then obtain m where "0 < m" "(s, t) \<in> E ^^ m" unfolding trancl_power by blast
      from bounded_path [OF assms(1,2) this] obtain l where "0 < l" "l \<le> card V" "(s, t) \<in> E ^^ l" by blast
      with 2(2) assms(3) show ?thesis unfolding arrives_def using order_trans by blast
    qed (simp add: arrives_def)
  qed
qed

lemma arrives_stable:
  assumes "\<And>t. t \<in> V \<Longrightarrow> arrives E init out (Suc k) t = arrives E init out k t" and "E \<subseteq> V \<times> V" and "t \<in> V"
  shows "arrives E init out k t = arrives_ever E init out t"
proof -
  have "arrives E init out (k + l) t = arrives E init out k t" if "t \<in> V" for l t
    using that
  proof (induction l arbitrary: t)
    case (Suc l)
    have "arrives E init out (k + Suc l) t =
        arrives E init out (k + l) t \<union> (\<Union>s \<in> {s. (s, t) \<in> E}. arrives E init out (k + l) s \<union> out s)"
      by (simp add: arrives_Suc)
    also have "\<dots> = arrives E init out k t \<union> (\<Union>s \<in> {s. (s, t) \<in> E}. arrives E init out k s \<union> out s)"
      using Suc assms(2) by auto
    also have "\<dots> = arrives E init out k t" using assms(1) [OF Suc.prems] by (simp add: arrives_Suc)
    finally show ?case .
  qed simp
  then have "arrives E init out l t \<subseteq> arrives E init out k t" for l
    using arrives_mono [of l "k + l" E init out t] assms(3) by (metis le_add2 subset_trans order_refl)
  then show ?thesis using arrives_ever_iff by blast
qed

subsection \<open>The iteration\<close>

definition lookup_set :: "(string, string list) btree \<Rightarrow> string \<Rightarrow> string set" where
  "lookup_set m k = (case map_of m k of None \<Rightarrow> {} | Some vs \<Rightarrow> set vs)"

definition produced :: "node_contract list \<Rightarrow> string \<Rightarrow> string set" where
  "produced nodes s = (case by_id nodes s of None \<Rightarrow> {} | Some c \<Rightarrow> set (nc_produces c))"

definition node_ids :: "node_contract list \<Rightarrow> string set" where
  "node_ids nodes = nc_node ` set nodes"

definition inner_edges :: "flow_edge list \<Rightarrow> node_contract list \<Rightarrow> (string \<times> string) set" where
  "inner_edges edges nodes = graph_of edges \<inter> node_ids nodes \<times> node_ids nodes"

lemma extend_set [simp]: "set (extend vs new) = set vs \<union> set new"
  unfolding extend_def fold_bs_insert_set by blast

lemma arrive_set: "set (arrive nodes previous e vs) = set vs \<union> lookup_set previous (edge_source e) \<union> produced nodes (edge_source e)"
  by (auto simp: arrive_def lookup_set_def produced_def Let_def split: option.splits)

lemma arrive_fold_set:
  "set (fold (arrive nodes previous) es vs) =
     set vs \<union> (\<Union>e \<in> set es. lookup_set previous (edge_source e) \<union> produced nodes (edge_source e))"
  by (induction es arbitrary: vs) (auto simp: arrive_set)

lemma round_fold:
  fixes nodes :: "node_contract list" and previous :: "(string, string list) btree" and edges :: "flow_edge list"
  assumes "nc_node ` set ns \<subseteq> dom (map_of cur)"
  defines "cur' \<equiv> fold (\<lambda>n possible. (case map_of possible (nc_node n) of None \<Rightarrow> possible
      | Some values \<Rightarrow> bt_insert (nc_node n) (fold (arrive nodes previous) (filter (\<lambda>e. edge_target e = nc_node n) edges) values) possible)) ns cur"
  shows "dom (map_of cur') = dom (map_of cur)
    \<and> lookup_set cur' t = lookup_set cur t \<union>
        (if t \<in> nc_node ` set ns then \<Union>e \<in> {e \<in> set edges. edge_target e = t}. lookup_set previous (edge_source e) \<union> produced nodes (edge_source e) else {})"
  using assms(1) unfolding cur'_def
proof (induction ns arbitrary: cur)
  case (Cons n ns)
  then obtain vs where vs: "map_of cur (nc_node n) = Some vs" by auto
  let ?new = "fold (arrive nodes previous) (filter (\<lambda>e. edge_target e = nc_node n) edges) vs"
  let ?cur = "bt_insert (nc_node n) ?new cur"
  have dom: "dom (map_of ?cur) = dom (map_of cur)" using vs by (auto split: if_splits)
  have look: "lookup_set ?cur u = lookup_set cur u \<union> (if u = nc_node n then
      \<Union>e \<in> {e \<in> set edges. edge_target e = u}. lookup_set previous (edge_source e) \<union> produced nodes (edge_source e) else {})" for u
    using vs by (auto simp: lookup_set_def [of ?cur] lookup_set_def [of cur] arrive_fold_set)
  have "nc_node ` set ns \<subseteq> dom (map_of ?cur)" using Cons.prems unfolding dom by simp
  from Cons.IH [OF this] show ?case unfolding dom look using vs by auto
qed simp

lemma by_id_iff: "by_id nodes i \<noteq> None \<longleftrightarrow> i \<in> node_ids nodes"
proof -
  have "by_id nodes i = None \<longleftrightarrow> i \<notin> fst ` set (rev (map (\<lambda>n. (nc_node n, n)) nodes))"
    unfolding by_id_def by (rule map_of_eq_None_iff)
  then show ?thesis by (simp add: node_ids_def image_image)
qed

definition level :: "flow_document \<Rightarrow> node_contract list \<Rightarrow> nat \<Rightarrow> string \<Rightarrow> string set" where
  "level doc nodes = arrives (inner_edges (doc_edges doc) nodes) (set (initial_channels doc)) (produced nodes)"

definition at_level :: "flow_document \<Rightarrow> node_contract list \<Rightarrow> nat \<Rightarrow> (string, string list) btree \<Rightarrow> bool" where
  "at_level doc nodes k m \<longleftrightarrow> dom (map_of m) = node_ids nodes \<and> (\<forall>t \<in> node_ids nodes. lookup_set m t = level doc nodes k t)"

lemma initial_level: "at_level doc nodes 0 (initial_possible doc nodes)"
proof -
  have "map_of (fold (\<lambda>n. bt_insert (nc_node n) v) ns m) t = (if t \<in> nc_node ` set ns then Some v else map_of m t)"
    for ns :: "node_contract list" and v :: "string list" and m t
    by (induction ns arbitrary: m) auto
  then show ?thesis
    by (auto simp: at_level_def initial_possible_def node_ids_def level_def lookup_set_def split: if_splits)
qed

lemma round_level:
  assumes "at_level doc nodes k m"
  shows "at_level doc nodes (Suc k) (possible_round (doc_edges doc) nodes m)"
proof -
  have dom: "dom (map_of m) = node_ids nodes" and look: "\<And>t. t \<in> node_ids nodes \<Longrightarrow> lookup_set m t = level doc nodes k t"
    using assms by (simp_all add: at_level_def)
  have sub: "nc_node ` set nodes \<subseteq> dom (map_of m)" by (simp add: dom node_ids_def)
  note round = round_fold [OF sub, where nodes = nodes and previous = m and edges = "doc_edges doc", folded possible_round_def]
  have outside: "lookup_set m s = {}" "produced nodes s = {}" if "s \<notin> node_ids nodes" for s
  proof -
    have "map_of m s = None" using that dom by blast
    then show "lookup_set m s = {}" by (simp add: lookup_set_def)
    have "by_id nodes s = None" using that by_id_iff [of nodes s] by simp
    then show "produced nodes s = {}" by (simp add: produced_def)
  qed
  have "lookup_set (possible_round (doc_edges doc) nodes m) t = level doc nodes (Suc k) t" if t: "t \<in> node_ids nodes" for t
  proof -
    have "(\<Union>e \<in> {e \<in> set (doc_edges doc). edge_target e = t}. lookup_set m (edge_source e) \<union> produced nodes (edge_source e)) =
        (\<Union>s \<in> {s. (s, t) \<in> inner_edges (doc_edges doc) nodes}. lookup_set m s \<union> produced nodes s)"
      using outside t by (fastforce simp: inner_edges_def graph_of_def)
    also have "\<dots> = (\<Union>s \<in> {s. (s, t) \<in> inner_edges (doc_edges doc) nodes}. level doc nodes k s \<union> produced nodes s)"
      using look by (auto simp: inner_edges_def)
    finally have step: "(\<Union>e \<in> {e \<in> set (doc_edges doc). edge_target e = t}. lookup_set m (edge_source e) \<union> produced nodes (edge_source e)) =
        (\<Union>s \<in> {s. (s, t) \<in> inner_edges (doc_edges doc) nodes}. level doc nodes k s \<union> produced nodes s)" .
    have "lookup_set (possible_round (doc_edges doc) nodes m) t = lookup_set m t
        \<union> (\<Union>e \<in> {e \<in> set (doc_edges doc). edge_target e = t}. lookup_set m (edge_source e) \<union> produced nodes (edge_source e))"
      using round [of t] t by (simp add: node_ids_def)
    also have "\<dots> = level doc nodes (Suc k) t" unfolding step look [OF t] by (simp add: level_def arrives_Suc)
    finally show ?thesis .
  qed
  with round dom show ?thesis by (simp add: at_level_def)
qed

lemma loop_level:
  assumes "at_level doc nodes k m"
  shows "\<exists>k'. at_level doc nodes k' (possible_loop j (doc_edges doc) nodes m)
    \<and> (k' = k + j \<or> (\<forall>t \<in> node_ids nodes. level doc nodes (Suc k') t = level doc nodes k' t))"
  using assms
proof (induction j arbitrary: k m)
  case (Suc j)
  let ?m = "possible_round (doc_edges doc) nodes m"
  have next_level: "at_level doc nodes (Suc k) ?m" by (rule round_level [OF Suc.prems])
  show ?case
  proof (cases "m = ?m")
    case True
    then have "at_level doc nodes (Suc k) m" using next_level by simp
    with Suc.prems have "\<forall>t \<in> node_ids nodes. level doc nodes (Suc k) t = level doc nodes k t" by (auto simp: at_level_def)
    with Suc.prems True show ?thesis by (auto simp: Let_def)
  next
    case False
    with Suc.IH [OF next_level] show ?thesis by (auto simp: Let_def)
  qed
qed auto

lemma possible_channels_least:
  assumes "t \<in> node_ids nodes"
  shows "lookup_set (possible_channels doc nodes) t =
    arrives_ever (inner_edges (doc_edges doc) nodes) (set (initial_channels doc)) (produced nodes) t"
proof -
  obtain k where k: "at_level doc nodes k (possible_channels doc nodes)"
    "k = length nodes + 1 \<or> (\<forall>t \<in> node_ids nodes. level doc nodes (Suc k) t = level doc nodes k t)"
    using loop_level [OF initial_level, of doc nodes "length nodes + 1"] by (auto simp: possible_channels_def)
  have "card (node_ids nodes) \<le> length nodes" unfolding node_ids_def by (metis card_image_le card_length finite_set le_trans)
  moreover have "finite (node_ids nodes)" "Range (inner_edges (doc_edges doc) nodes) \<subseteq> node_ids nodes"
    by (auto simp: node_ids_def inner_edges_def)
  ultimately have "level doc nodes (length nodes + 1) t =
      arrives_ever (inner_edges (doc_edges doc) nodes) (set (initial_channels doc)) (produced nodes) t"
    unfolding level_def by (intro arrives_bound) auto
  moreover have "level doc nodes k t = arrives_ever (inner_edges (doc_edges doc) nodes) (set (initial_channels doc)) (produced nodes) t"
    if "\<forall>t \<in> node_ids nodes. level doc nodes (Suc k) t = level doc nodes k t"
    unfolding level_def by (rule arrives_stable [where V = "node_ids nodes"]) (use that assms in \<open>auto simp: level_def inner_edges_def\<close>)
  ultimately show ?thesis using k assms by (auto simp: at_level_def)
qed

subsection \<open>Edges\<close>

definition known_edges :: "flow_document \<Rightarrow> node_contract list \<Rightarrow> flow_edge list" where
  "known_edges doc nodes = filter (\<lambda>e. edge_source e \<in> node_ids nodes \<and> edge_target e \<in> node_ids nodes) (doc_edges doc)"

lemma analyze_edges_eq:
  "analyze_edges doc nodes possible es acc =
     (let known = filter (\<lambda>e. edge_source e \<in> node_ids nodes \<and> edge_target e \<in> node_ids nodes) es in
      (fst acc @ map (\<lambda>e. analyze_edge doc possible e (the (by_id nodes (edge_source e))) (the (by_id nodes (edge_target e)))) known,
       snd acc @ concat (map (\<lambda>e. port_diagnostics e (the (by_id nodes (edge_source e))) (the (by_id nodes (edge_target e)))) known)))"
proof (induction es arbitrary: acc)
  case (Cons e es)
  show ?case
  proof (cases "edge_source e \<in> node_ids nodes \<and> edge_target e \<in> node_ids nodes")
    case True
    then obtain s t where "by_id nodes (edge_source e) = Some s" "by_id nodes (edge_target e) = Some t"
      using by_id_iff [of nodes] by blast
    with True Cons.IH show ?thesis by (simp add: Let_def)
  next
    case False
    then have "by_id nodes (edge_source e) = None \<or> by_id nodes (edge_target e) = None" using by_id_iff [of nodes] by blast
    with False Cons.IH show ?thesis by (auto simp: Let_def split: option.splits)
  qed
qed simp

lemma guaranteed_available:
  assumes e: "e \<in> set (known_edges doc nodes)" and s: "by_id nodes (edge_source e) = Some source"
  shows "set (guaranteed_channels doc e source) \<subseteq>
    arrives_ever (inner_edges (doc_edges doc) nodes) (set (initial_channels doc)) (produced nodes) (edge_target e)"
proof -
  have "(edge_source e, edge_target e) \<in> inner_edges (doc_edges doc) nodes"
    using e by (auto simp: known_edges_def inner_edges_def graph_of_def)
  then have "produced nodes (edge_source e) \<subseteq>
      arrives_ever (inner_edges (doc_edges doc) nodes) (set (initial_channels doc)) (produced nodes) (edge_target e)"
    unfolding arrives_ever_def by blast
  moreover have "produced nodes (edge_source e) = set (nc_produces source)" using s by (simp add: produced_def)
  ultimately show ?thesis by (auto simp: guaranteed_channels_def arrives_ever_def)
qed

subsection \<open>Properties\<close>

text \<open>
  C37. The availability analysis is exact although its rounds are bounded by the number of nodes:
  for every edge between known nodes, in order, the guaranteed and the conditional channels are
  disjoint and together are the channels with a default and those produced by some node from
  which the target of the edge can be reached.
\<close>

theorem analyze_exact:
  fixes doc :: flow_document and from_value :: "json \<Rightarrow> (string, predicate) result"
  defines "nodes \<equiv> map (contract_of from_value) (doc_nodes doc)"
  shows "list_all2 (\<lambda>ea e. ea_edge ea = edge_id e
      \<and> set (ea_guaranteed ea) \<inter> set (ea_conditional ea) = {}
      \<and> set (ea_guaranteed ea) \<union> set (ea_conditional ea) =
          set (initial_channels doc) \<union> {c. \<exists>s. (s, edge_target e) \<in> (inner_edges (doc_edges doc) nodes)\<^sup>+ \<and> c \<in> produced nodes s})
    (ga_edges (analyze from_value doc)) (known_edges doc nodes)"
proof -
  let ?P = "possible_channels doc nodes"
  have "ga_edges (analyze from_value doc) =
      map (\<lambda>e. analyze_edge doc ?P e (the (by_id nodes (edge_source e))) (the (by_id nodes (edge_target e)))) (known_edges doc nodes)"
    by (simp add: analyze_def analyze_edges_eq nodes_def known_edges_def Let_def)
  moreover have "set (ea_guaranteed ea) \<inter> set (ea_conditional ea) = {}
      \<and> set (ea_guaranteed ea) \<union> set (ea_conditional ea) =
          arrives_ever (inner_edges (doc_edges doc) nodes) (set (initial_channels doc)) (produced nodes) (edge_target e)"
    if e: "e \<in> set (known_edges doc nodes)"
      and ea: "ea = analyze_edge doc ?P e (the (by_id nodes (edge_source e))) (the (by_id nodes (edge_target e)))" for e ea
  proof -
    have ids: "edge_source e \<in> node_ids nodes" "edge_target e \<in> node_ids nodes" using e by (simp_all add: known_edges_def)
    then obtain source where s: "by_id nodes (edge_source e) = Some source" using by_id_iff [of nodes "edge_source e"] by blast
    have "(case map_of ?P (edge_target e) of None \<Rightarrow> {} | Some vs \<Rightarrow> set vs) =
        arrives_ever (inner_edges (doc_edges doc) nodes) (set (initial_channels doc)) (produced nodes) (edge_target e)"
      using possible_channels_least [OF ids(2)] by (simp add: lookup_set_def)
    with guaranteed_available [OF e s] show ?thesis
      unfolding ea by (auto simp: analyze_edge_def Let_def s split: option.splits)
  qed
  ultimately show ?thesis
    by (simp add: list_all2_map1 list.rel_refl_strong arrives_ever_def) (auto simp: list_all2_same analyze_edge_def Let_def arrives_ever_def)
qed

lemma by_id_contract:
  "by_id (map (contract_of from_value) (doc_nodes doc)) i = map_option (contract_of from_value) (nodes_by_id doc i)"
proof -
  have "map_of (map (\<lambda>n. (node_id n, contract_of from_value n)) ns) i =
      map_option (contract_of from_value) (map_of (map (\<lambda>n. (node_id n, n)) ns) i)" for ns
    by (induction ns) auto
  then show ?thesis
    by (simp add: by_id_def nodes_by_id_def rev_map contract_of_def Let_def comp_def)
qed

lemma port_diagnostics_Nil:
  "port_diagnostics e s t = [] \<longleftrightarrow>
     (\<exists>p q. pick_port (edge_source_handle e) (nc_outputs s) = Some p \<and> pick_port (edge_target_handle e) (nc_inputs t) = Some q
        \<and> pt_type p = pt_type q)"
  by (auto simp: port_diagnostics_def split: option.splits)

lemma pick_port_in: "pick_port h ps = Some p \<Longrightarrow> p \<in> set ps"
  by (cases h; cases ps) (auto simp: pick_port_def simp del: find.simps dest: find_SomeD)

text \<open>
  Without diagnostics the boundaries of every edge agree: exactly the edges that leave a
  context node enter a model node, no edge enters the start node and none leaves an end node.
\<close>

lemma ports_agree:
  assumes ok: "ga_diagnostics (analyze from_value doc) = []" and e: "e \<in> set (doc_edges doc)"
    and s: "nodes_by_id doc (edge_source e) = Some n" and t: "nodes_by_id doc (edge_target e) = Some m"
  shows "(kind_of_node n = ''context'' \<longleftrightarrow> kind_of_node m = ''model'')
    \<and> kind_of_node m \<noteq> ''start'' \<and> kind_of_node n \<noteq> ''end''"
proof -
  let ?nodes = "map (contract_of from_value) (doc_nodes doc)"
  have found: "by_id ?nodes (edge_source e) = Some (contract_of from_value n)" "by_id ?nodes (edge_target e) = Some (contract_of from_value m)"
    using s t by (simp_all add: by_id_contract)
  then have "edge_source e \<in> node_ids ?nodes" "edge_target e \<in> node_ids ?nodes" using by_id_iff [of ?nodes] by auto
  with ok e found have "port_diagnostics e (contract_of from_value n) (contract_of from_value m) = []"
    by (force simp: analyze_def analyze_edges_eq Let_def)
  then obtain p q where "p \<in> set (node_outputs (kind_of_node n))" "q \<in> set (node_inputs (kind_of_node m))" "pt_type p = pt_type q"
    unfolding port_diagnostics_Nil by (auto simp: contract_of_def Let_def dest: pick_port_in)
  then show ?thesis
    by (auto simp: node_outputs_def node_inputs_def context_port_def mk_port_def split: if_splits)
qed

end
