(* ===== verification/Zf_Graph_Props.thy ===== *)
theory Zf_Graph_Props
  imports Zf_Graph Zf_Node_Contracts_Props
begin

text \<open>
  The shape of validated graphs (\<open>zf-compiler/src/graph_compiler.rs\<close>) at every level of nesting: one
  start from which all nodes are reached, exits of every node but the ends, and context nodes
  joined one to one with model nodes.
\<close>

subsection \<open>Nesting\<close>

inductive nested :: "graph_env \<Rightarrow> flow_document \<Rightarrow> nat \<Rightarrow> flow_document \<Rightarrow> bool" for env doc where
  nested_self: "nested env doc 0 doc"
| nested_child: "nested env doc k d \<Longrightarrow> n \<in> set (doc_nodes d) \<Longrightarrow> kind_of_node n = ''subgraph'' \<Longrightarrow>
    subcomposition env n = Some c \<Longrightarrow> nested env doc (Suc k) c"

lemma validate_depthD:
  assumes "validate_depth env doc depth = Inr ()"
  shows "depth \<le> 8" "validate_header doc depth = Inr ()" "validate_body (8 - depth) env doc = Inr ()"
    "\<And>n. n \<in> set (doc_nodes doc) \<Longrightarrow> node_head env doc n = Inr () \<and> node_exits doc n = Inr ()"
    "\<And>n. n \<in> set (doc_nodes doc) \<Longrightarrow> kind_of_node n = ''subgraph'' \<Longrightarrow>
       \<exists>child. subcomposition env n = Some child \<and> doc_format child = doc_format doc \<and> validate_depth env child (Suc depth) = Inr ()"
proof -
  let ?step = "\<lambda>node. and_then (node_head env doc node) (\<lambda>_.
        and_then (if kind_of_node node = ''subgraph''
            then and_then (require (subcomposition env node) (SubgraphRequired (nd_label (node_content node)))) (\<lambda>child.
                 and_then (ensure (doc_format child = doc_format doc) SubgraphFormat) (\<lambda>_.
                   validate_depth env child (depth + 1)))
            else Inr ()) (\<lambda>_.
          node_exits doc node))"
  have all: "depth \<le> 8" "validate_header doc depth = Inr ()" "for_each ?step (doc_nodes doc) = Inr ()"
    "validate_body (8 - depth) env doc = Inr ()"
    using assms unfolding validate_depth.simps [of env doc depth] and_then_Inr by auto
  then show "depth \<le> 8" "validate_header doc depth = Inr ()" "validate_body (8 - depth) env doc = Inr ()" by simp_all
  fix n assume n: "n \<in> set (doc_nodes doc)"
  have step: "?step n = Inr ()" by (rule for_each_ok [OF all(3) n])
  then show "node_head env doc n = Inr () \<and> node_exits doc n = Inr ()" by (auto simp: and_then_Inr)
  assume "kind_of_node n = ''subgraph''"
  with step show "\<exists>child. subcomposition env n = Some child \<and> doc_format child = doc_format doc
      \<and> validate_depth env child (Suc depth) = Inr ()"
    by (auto simp: and_then_Inr)
qed

lemma nested_validated:
  assumes "nested env doc k d" and "validate_depth env doc 0 = Inr ()"
  shows "validate_depth env d k = Inr () \<and> doc_format d = doc_format doc"
  using assms
proof (induction rule: nested.induct)
  case (nested_child k d n c)
  then have "validate_depth env d k = Inr ()" "doc_format d = doc_format doc" by simp_all
  with validate_depthD(5) [of env d k n] nested_child.hyps show ?case by auto
qed simp

subsection \<open>Shape\<close>

lemma validate_edges_ok:
  assumes "validate_edges doc es seen = Inr ()"
  shows "distinct (map edge_id es)" "set seen \<inter> edge_id ` set es = {}"
    "\<And>e. e \<in> set es \<Longrightarrow> edge_source e \<in> node_id ` set (doc_nodes doc) \<and> edge_target e \<in> node_id ` set (doc_nodes doc)"
    "\<And>e. e \<in> set es \<Longrightarrow> \<exists>n. find (\<lambda>n. node_id n = edge_target e) (doc_nodes doc) = Some n \<and> kind_of_node n \<noteq> ''start''"
proof -
  have "distinct (map edge_id es) \<and> set seen \<inter> edge_id ` set es = {}
    \<and> (\<forall>e \<in> set es. edge_source e \<in> node_id ` set (doc_nodes doc) \<and> edge_target e \<in> node_id ` set (doc_nodes doc)
        \<and> (\<exists>n. find (\<lambda>n. node_id n = edge_target e) (doc_nodes doc) = Some n \<and> kind_of_node n \<noteq> ''start''))"
    using assms
  proof (induction es arbitrary: seen)
    case (Cons e es)
    then have "validate_edges doc es (edge_id e # seen) = Inr ()" by (simp add: and_then_Inr)
    note rest = Cons.IH [OF this]
    have "edge_id e \<notin> set seen" "edge_source e \<in> node_id ` set (doc_nodes doc)" "edge_target e \<in> node_id ` set (doc_nodes doc)"
      "\<exists>n. find (\<lambda>n. node_id n = edge_target e) (doc_nodes doc) = Some n \<and> kind_of_node n \<noteq> ''start''"
      using Cons.prems by (auto simp: and_then_Inr split: option.splits)
    with rest show ?case by auto
  qed simp
  then show "distinct (map edge_id es)" "set seen \<inter> edge_id ` set es = {}"
    "\<And>e. e \<in> set es \<Longrightarrow> edge_source e \<in> node_id ` set (doc_nodes doc) \<and> edge_target e \<in> node_id ` set (doc_nodes doc)"
    "\<And>e. e \<in> set es \<Longrightarrow> \<exists>n. find (\<lambda>n. node_id n = edge_target e) (doc_nodes doc) = Some n \<and> kind_of_node n \<noteq> ''start''"
    by blast+
qed

lemma distinct_remdups: "length (remdups xs) = length xs \<longleftrightarrow> distinct xs"
  by (metis distinct_remdups length_remdups_card_conv card_distinct distinct_card)

lemma same_node:
  "distinct (map node_id ns) \<Longrightarrow> a \<in> set ns \<Longrightarrow> b \<in> set ns \<Longrightarrow> node_id a = node_id b \<Longrightarrow> a = b"
  by (auto simp: distinct_map dest: inj_onD)

text \<open>One start without predecessors from which every node is reached; only ends stop; conditions have
  one exit per outcome.\<close>

definition rooted :: "flow_document \<Rightarrow> bool" where
  "rooted d \<longleftrightarrow> distinct (map node_id (doc_nodes d)) \<and> distinct (map edge_id (doc_edges d))
     \<and> (\<exists>s \<in> set (doc_nodes d). kind_of_node s = ''start''
          \<and> (\<forall>n \<in> set (doc_nodes d). kind_of_node n = ''start'' \<longrightarrow> n = s)
          \<and> (\<forall>n \<in> set (doc_nodes d). (node_id s, node_id n) \<in> (graph_of (doc_edges d))\<^sup>*)
          \<and> node_id s \<notin> Range (graph_of (doc_edges d)))
     \<and> Field (graph_of (doc_edges d)) \<subseteq> node_id ` set (doc_nodes d)"

definition exits_ok :: "flow_document \<Rightarrow> bool" where
  "exits_ok d \<longleftrightarrow> (\<forall>n \<in> set (doc_nodes d).
     (kind_of_node n = ''end'' \<longleftrightarrow> node_id n \<notin> Domain (graph_of (doc_edges d)))
     \<and> (kind_of_node n = ''condition'' \<longrightarrow> (\<exists>e e'. filter (\<lambda>e. edge_source e = node_id n) (doc_edges d) \<in> {[e, e'], [e', e]}
          \<and> edge_source_handle e = Some ''true'' \<and> edge_source_handle e' = Some ''false'')))"

lemma single_start:
  assumes "length (filter P xs) = 1"
  shows "\<exists>s. find P xs = Some s \<and> s \<in> set xs \<and> P s \<and> (\<forall>n \<in> set xs. P n \<longrightarrow> n = s)"
proof -
  from assms obtain s where s: "filter P xs = [s]" by (cases "filter P xs") auto
  then have "{x \<in> set xs. P x} = {s}" by (metis set_filter list.simps(15) list.set(1))
  moreover have "find P xs = Some s" using s by (induction xs) (auto split: if_splits)
  ultimately show ?thesis by blast
qed

lemma validated_rooted:
  assumes ok: "validate_depth env d k = Inr ()"
  shows "rooted d"
proof -
  note header = validate_depthD(2) [OF ok] and body = validate_depthD(3) [OF ok]
  have ids: "distinct (map node_id (doc_nodes d))"
    using header distinct_remdups [of "map node_id (doc_nodes d)"] by (auto simp: validate_header_def and_then_Inr)
  have "length (filter (\<lambda>n. kind_of_node n = ''start'') (doc_nodes d)) = 1"
    using header by (simp add: validate_header_def and_then_Inr)
  then obtain s where s: "find_start d = Some s" "s \<in> set (doc_nodes d)" "kind_of_node s = ''start''"
    "\<forall>n \<in> set (doc_nodes d). kind_of_node n = ''start'' \<longrightarrow> n = s"
    unfolding find_start_def using single_start [of "\<lambda>n. kind_of_node n = ''start''"] by blast
  have edges: "validate_edges d (doc_edges d) [] = Inr ()" and reach: "validate_reachable d = Inr ()"
    using body by (auto simp: validate_body_def and_then_Inr)
  note e = validate_edges_ok [OF edges]
  have "(node_id s, node_id n) \<in> (graph_of (doc_edges d))\<^sup>*" if "n \<in> set (doc_nodes d)" for n
    using reach s(1) that by (auto simp: validate_reachable_def for_each_ok_iff reach_loop_set and_then_Inr)
  moreover have "node_id s \<notin> Range (graph_of (doc_edges d))"
  proof
    assume "node_id s \<in> Range (graph_of (doc_edges d))"
    then obtain e where "e \<in> set (doc_edges d)" "edge_target e = node_id s" by (auto simp: graph_of_def)
    with e(4) obtain n where n: "find (\<lambda>n. node_id n = node_id s) (doc_nodes d) = Some n" "kind_of_node n \<noteq> ''start''" by force
    from find_SomeD [OF n(1)] same_node [OF ids, of n s] s(2,3) n(2) show False by auto
  qed
  moreover have "Field (graph_of (doc_edges d)) \<subseteq> node_id ` set (doc_nodes d)"
    using e(3) unfolding Field_def graph_of_def by fastforce
  ultimately show ?thesis using ids e(1) s unfolding rooted_def by blast
qed

lemma two_handles:
  assumes "length es = 2" "list_ex (\<lambda>e. h e = Some a) es" "list_ex (\<lambda>e. h e = Some b) es" "a \<noteq> b"
  shows "\<exists>e e'. es \<in> {[e, e'], [e', e]} \<and> h e = Some a \<and> h e' = Some b"
proof -
  from assms(1) obtain x y where "es = [x, y]" by (cases es; cases "tl es") auto
  with assms(2-4) show ?thesis by (cases "h x = Some a") (auto intro: exI [of _ y] exI [of _ x])
qed

lemma validated_exits:
  assumes ok: "validate_depth env d k = Inr ()"
  shows "exits_ok d"
  unfolding exits_ok_def
proof (intro ballI conjI)
  fix n assume n: "n \<in> set (doc_nodes d)"
  let ?out = "filter (\<lambda>e. edge_source e = node_id n) (doc_edges d)"
  have exits: "node_exits d n = Inr ()" using validate_depthD(4) [OF ok n] by simp
  have "node_id n \<in> Domain (graph_of (doc_edges d)) \<longleftrightarrow> ?out \<noteq> []"
    by (force simp: graph_of_def filter_empty_conv)
  moreover have "kind_of_node n = ''end'' \<longleftrightarrow> ?out = []"
    using exits by (auto simp: node_exits_def and_then_Inr Let_def split: if_splits)
  ultimately show "kind_of_node n = ''end'' \<longleftrightarrow> node_id n \<notin> Domain (graph_of (doc_edges d))" by simp
  show "kind_of_node n = ''condition'' \<longrightarrow> (\<exists>e e'. ?out \<in> {[e, e'], [e', e]}
      \<and> edge_source_handle e = Some ''true'' \<and> edge_source_handle e' = Some ''false'')"
    using exits two_handles [of ?out edge_source_handle "''true''" "''false''"] by (auto simp: node_exits_def and_then_Inr Let_def)
qed

subsection \<open>Context and model nodes\<close>

text \<open>The context \<open>c\<close> leads to the model \<open>m\<close> only, which is entered from \<open>c\<close> only.\<close>

definition joined :: "flow_document \<Rightarrow> flow_node \<Rightarrow> flow_node \<Rightarrow> bool" where
  "joined d c m \<longleftrightarrow> kind_of_node c = ''context'' \<and> kind_of_node m = ''model''
     \<and> graph_of (doc_edges d) `` {node_id c} = {node_id m} \<and> (graph_of (doc_edges d))\<inverse> `` {node_id m} = {node_id c}"

definition paired :: "flow_document \<Rightarrow> bool" where
  "paired d \<longleftrightarrow>
     (\<forall>m \<in> set (doc_nodes d). kind_of_node m = ''model'' \<longrightarrow> (\<exists>c \<in> set (doc_nodes d). joined d c m))
     \<and> (3 \<le> doc_format d \<longrightarrow>
          (\<forall>c \<in> set (doc_nodes d). kind_of_node c = ''context'' \<longrightarrow> (\<exists>m \<in> set (doc_nodes d). joined d c m)))"

lemma single_case [simp]: "(case xs of [] \<Rightarrow> False | [x] \<Rightarrow> P x | x # y # ys \<Rightarrow> False) \<longleftrightarrow> (\<exists>x. xs = [x] \<and> P x)"
  by (cases xs; cases "tl xs") auto

lemma only_target:
  assumes "filter (\<lambda>e. edge_source e = i) es = [e]" and "edge_target e = j"
  shows "graph_of es `` {i} = {j}"
proof -
  have "graph_of es `` {i} = edge_target ` set (filter (\<lambda>e. edge_source e = i) es)" by (auto simp: graph_of_def)
  with assms show ?thesis by simp
qed

lemma only_source:
  assumes "filter (\<lambda>e. edge_target e = j) es = [e]" and "edge_source e = i"
  shows "(graph_of es)\<inverse> `` {j} = {i}"
proof -
  have "(graph_of es)\<inverse> `` {j} = edge_source ` set (filter (\<lambda>e. edge_target e = j) es)" by (auto simp: graph_of_def)
  with assms show ?thesis by simp
qed

lemma as_str_iff: "as_str v = Some s \<longleftrightarrow> v = JString s"
  by (cases v) auto

lemma config_field_of: "jidx cfg key = JString s \<Longrightarrow> config_field cfg key d = s"
  by (simp add: config_field_def)

lemma pair_model:
  assumes "validate_pair env d m = Inr ()" and "kind_of_node m = ''model''"
  obtains c where "find (\<lambda>n. node_id n = config_field (config_of_node m) ''contextNode'' []) (doc_nodes d) = Some c"
    "kind_of_node c = ''context''" "jidx (config_of_node c) ''modelNode'' = JString (node_id m)"
    "(graph_of (doc_edges d))\<inverse> `` {node_id m} = {node_id c}"
  using assms by (auto simp: validate_pair_def and_then_Inr Let_def only_source)

lemma pair_context:
  assumes "validate_pair env d c = Inr ()" and "kind_of_node c = ''context''" and "3 \<le> doc_format d"
  obtains m where "m \<in> set (doc_nodes d)" "kind_of_node m = ''model''" "jidx (config_of_node m) ''contextNode'' = JString (node_id c)"
    "node_id m = config_field (config_of_node c) ''modelNode'' []" "graph_of (doc_edges d) `` {node_id c} = {node_id m}"
  using assms by (auto simp: validate_pair_def and_then_Inr Let_def list_ex_iff only_target)

lemma validated_paired:
  assumes ok: "validate_depth env d k = Inr ()"
  shows "paired d"
proof -
  have ids: "distinct (map node_id (doc_nodes d))" using validated_rooted [OF ok] by (simp add: rooted_def)
  have pair: "validate_pair env d n = Inr ()" if "n \<in> set (doc_nodes d)" for n
    using validate_depthD(3) [OF ok] that by (auto simp: validate_body_def validate_context_model_pairs_def and_then_Inr for_each_ok_iff)
  have model: "\<exists>c \<in> set (doc_nodes d). joined d c m" if m: "m \<in> set (doc_nodes d)" "kind_of_node m = ''model''" for m
  proof -
    obtain c where c: "find (\<lambda>n. node_id n = config_field (config_of_node m) ''contextNode'' []) (doc_nodes d) = Some c"
      "kind_of_node c = ''context''" "jidx (config_of_node c) ''modelNode'' = JString (node_id m)"
      "(graph_of (doc_edges d))\<inverse> `` {node_id m} = {node_id c}" using pair_model [OF pair [OF m(1)] m(2)] .
    have "3 \<le> doc_format d"
      using validate_depthD(4) [OF ok m(1)] m(2) by (auto simp: node_head_def validate_node_def validate_kind_def and_then_Inr Let_def)
    moreover have inc: "c \<in> set (doc_nodes d)" using find_SomeD [OF c(1)] by simp
    ultimately have "graph_of (doc_edges d) `` {node_id c} = {node_id m}"
      using pair_context [OF pair [OF inc] c(2)] config_field_of [OF c(3)] by metis
    with c inc m(2) show ?thesis unfolding joined_def by blast
  qed
  have "\<exists>m \<in> set (doc_nodes d). joined d c m"
    if c: "c \<in> set (doc_nodes d)" "kind_of_node c = ''context''" "3 \<le> doc_format d" for c
  proof -
    obtain m where m: "m \<in> set (doc_nodes d)" "kind_of_node m = ''model''" "jidx (config_of_node m) ''contextNode'' = JString (node_id c)"
      "graph_of (doc_edges d) `` {node_id c} = {node_id m}" using pair_context [OF pair [OF c(1)] c(2,3)] by metis
    obtain c' where c': "find (\<lambda>n. node_id n = node_id c) (doc_nodes d) = Some c'"
      "(graph_of (doc_edges d))\<inverse> `` {node_id m} = {node_id c'}"
      using pair_model [OF pair [OF m(1)] m(2)] config_field_of [OF m(3), of "[]"] by metis
    have "c' = c" using find_SomeD [OF c'(1)] same_node [OF ids] c(1) by blast
    with m c(2) c'(2) show ?thesis unfolding joined_def by blast
  qed
  with model show ?thesis unfolding paired_def by blast
qed

subsection \<open>An example\<close>

definition example_inner :: flow_document where
  "example_inner = example_doc
     \<lparr>doc_nodes := [example_node ''s'' ''start'' JNull, example_node ''i'' ''input'' JNull, example_node ''e'' ''end'' JNull],
      doc_edges := [example_edge ''s'' ''i'', example_edge ''i'' ''e''], doc_channels := []\<rparr>"

definition example_outer :: flow_document where
  "example_outer = example_doc
     \<lparr>doc_nodes := [example_node ''s'' ''start'' JNull, example_node ''a'' ''set'' JNull,
        example_node ''c'' ''context'' (JObject [(''contextStrategy'', JString ''x''), (''modelNode'', JString ''m'')]),
        example_node ''m'' ''model'' (JObject [(''contextNode'', JString ''c'')]),
        example_node ''x'' ''subgraph'' (JObject [(''composition'', JString ''inner'')]), example_node ''e'' ''end'' JNull],
      doc_edges := [example_edge ''s'' ''a'', example_edge ''a'' ''e'', example_edge ''s'' ''c'', example_edge ''c'' ''m'',
        example_edge ''m'' ''x'', example_edge ''x'' ''e''], doc_channels := []\<rparr>"

definition example_env :: graph_env where
  "example_env =
     \<lparr>env_condition = \<lambda>_. Inl [], env_exports = \<lambda>_. None,
      env_composition = (\<lambda>v. if v = JString ''inner'' then Some example_inner else None),
      env_retry = \<lambda>_. None, env_frozen = \<lambda>_. Inr (), env_model = \<lambda>_. Inr (), env_tool = \<lambda>_. False\<rparr>"

lemma example_validates: "validate example_env example_outer = Inr ()"
  by code_simp

subsection \<open>Property\<close>

text \<open>
  C38. A validated graph is sound at every level: subgraphs are nested at most eight deep and have
  the format of the root; each graph has one start, which nothing enters and from which every node
  is reached; identifiers are unique and edges join nodes of the graph; exactly the ends have no
  exit and a condition has one exit per outcome; every model node is entered from its context node
  only, which leads nowhere else, and from format 3 on every context node has such a model.
\<close>

theorem graph_sound:
  assumes "validate env doc = Inr ()" and "nested env doc k d"
  shows "k \<le> 8 \<and> doc_format d = doc_format doc \<and> rooted d \<and> exits_ok d \<and> paired d"
proof -
  have "validate_depth env d k = Inr ()" "doc_format d = doc_format doc"
    using nested_validated [OF assms(2)] assms(1) by (simp_all add: validate_def)
  with validate_depthD(1) validated_rooted validated_exits validated_paired show ?thesis by blast
qed

lemma example_nested: "nested example_env example_outer 1 example_inner"
proof -
  let ?x = "example_node ''x'' ''subgraph'' (JObject [(''composition'', JString ''inner'')])"
  have "?x \<in> set (doc_nodes example_outer)" by (simp add: example_outer_def)
  moreover have "kind_of_node ?x = ''subgraph''" "subcomposition example_env ?x = Some example_inner"
    by (simp_all add: example_node_def subcomposition_def example_env_def jidx_def)
  ultimately show ?thesis using nested_child [OF nested_self] by simp
qed

theorem graph_sound_witness:
  "rooted example_inner \<and> paired example_outer \<and> kind_of_node (doc_nodes example_outer ! 3) = ''model''"
proof -
  have "kind_of_node (doc_nodes example_outer ! 3) = ''model''" by (simp add: example_outer_def example_node_def)
  with graph_sound [OF example_validates example_nested] graph_sound [OF example_validates nested_self] show ?thesis by blast
qed

end
