(* ===== verification/Zf_Graph_Waits.thy ===== *)
theory Zf_Graph_Waits
  imports Zf_Graph_Props
begin

text \<open>
  Waits of a validated graph (\<open>validate_parallel_waits\<close> of \<open>zf-compiler/src/graph_compiler.rs\<close> and
  \<open>runtime_channels\<close> of \<open>zf-flows/src/schema.rs\<close>): waits never run in parallel branches, and every wait
  owns one private channel.
\<close>

subsection \<open>Branches of a fork\<close>

text \<open>The walks from \<open>r\<close> that stop at the nodes \<open>B\<close>.\<close>

definition open_graph :: "flow_edge list \<Rightarrow> string set \<Rightarrow> (string \<times> string) set" where
  "open_graph edges B = {(u, v) \<in> graph_of edges. u \<notin> B}"

definition walk :: "flow_edge list \<Rightarrow> string set \<Rightarrow> string \<Rightarrow> string set" where
  "walk edges B r = (open_graph edges B)\<^sup>* `` {r}"

lemma outgoing_iff: "v \<in> set (outgoing edges u) \<longleftrightarrow> (u, v) \<in> graph_of edges"
  by (auto simp: outgoing_def graph_of_def)

lemma walk_self: "r \<in> walk edges B r"
  by (simp add: walk_def)

lemma walk_blocked: "r \<in> B \<Longrightarrow> walk edges B r = {r}"
  unfolding walk_def by (auto simp: open_graph_def elim: converse_rtranclE)

lemma walk_step: "r \<notin> B \<Longrightarrow> walk edges B r = insert r (\<Union>v \<in> set (outgoing edges r). walk edges B v)"
proof -
  assume "r \<notin> B"
  then have "(r, v) \<in> open_graph edges B \<longleftrightarrow> v \<in> set (outgoing edges r)" for v
    by (simp add: open_graph_def outgoing_iff)
  then show ?thesis unfolding walk_def by (auto intro: converse_rtrancl_into_rtrancl elim: converse_rtranclE)
qed

text \<open>What was visited is closed up to what is pending; a visit of the fork was noted.\<close>

definition closed_region :: "flow_edge list \<Rightarrow> string \<Rightarrow> string set \<Rightarrow> string list \<Rightarrow> string list \<Rightarrow> bool \<Rightarrow> bool" where
  "closed_region edges fork B pending region reentry \<longleftrightarrow> set region \<inter> B = {}
     \<and> (\<forall>u \<in> set region. \<forall>v \<in> set (outgoing edges u). v \<in> set region \<union> set pending \<or> v \<in> B \<and> (v = fork \<longrightarrow> reentry))"

lemma closed_walk:
  assumes "closed_region edges fork B pending region reentry" and "n \<in> set region" and "x \<in> walk edges B n"
  shows "x \<in> set region \<union> (\<Union>p \<in> set pending. walk edges B p) \<or> x \<in> B \<and> (x = fork \<longrightarrow> reentry)"
proof -
  from assms(3) have "(n, x) \<in> (open_graph edges B)\<^sup>*" by (simp add: walk_def)
  then show ?thesis
  proof (induction rule: rtrancl_induct)
    case (step u v)
    have uv: "u \<notin> B" "v \<in> set (outgoing edges u)" using step.hyps(2) by (auto simp: open_graph_def outgoing_iff)
    from step.IH uv(1) consider "u \<in> set region" | p where "p \<in> set pending" "u \<in> walk edges B p" by blast
    then show ?case
    proof cases
      case 1
      with assms(1) uv(2) have "v \<in> set region \<union> set pending \<or> v \<in> B \<and> (v = fork \<longrightarrow> reentry)"
        unfolding closed_region_def by blast
      then show ?thesis using walk_self by blast
    next
      case 2
      then have "v \<in> walk edges B p" using step.hyps(2) unfolding walk_def by auto
      with 2 show ?thesis by blast
    qed
  qed (simp add: assms(2))
qed

lemma region_loop_walk:
  assumes "closed_region edges fork (insert fork (set barriers)) pending region reentry"
  defines "reached \<equiv> \<Union>p \<in> set pending. walk edges (insert fork (set barriers)) p"
  shows "set (fst (region_loop edges fork barriers pending region reentry)) = set region \<union> (reached - insert fork (set barriers))
    \<and> (snd (region_loop edges fork barriers pending region reentry) \<longleftrightarrow> reentry \<or> fork \<in> reached)"
  using assms(1) unfolding reached_def
proof (induction edges fork barriers pending region reentry rule: region_loop.induct)
  case (2 edges fork barriers n pending region reentry)
  let ?B = "insert fork (set barriers)"
  note walk_self [of n edges ?B, simp]
  consider "n = fork" | "n \<noteq> fork" "n \<in> set barriers" | "n \<notin> ?B" "n \<in> set region" | "n \<notin> ?B" "n \<notin> set region" by blast
  then show ?case
  proof cases
    case 1
    moreover from this "2.prems" have "closed_region edges fork ?B pending region True" by (auto simp: closed_region_def)
    ultimately show ?thesis using "2.IH"(1) walk_blocked [of n ?B edges] by auto
  next
    case 2
    moreover from this "2.prems" have "closed_region edges fork ?B pending region reentry" by (auto simp: closed_region_def)
    ultimately show ?thesis using "2.IH"(2) walk_blocked [of n ?B edges] by auto
  next
    case 3
    from this "2.prems" have closed: "closed_region edges fork ?B pending region reentry" by (auto simp: closed_region_def)
    note walks = closed_walk [OF closed 3(2)]
    have "region_loop edges fork barriers (n # pending) region reentry = region_loop edges fork barriers pending region reentry"
      using 3 by auto
    moreover have "(\<Union>p \<in> set (n # pending). walk edges ?B p) - ?B \<subseteq> set region \<union> ((\<Union>p \<in> set pending. walk edges ?B p) - ?B)"
      using walks by auto
    moreover have "fork \<in> (\<Union>p \<in> set (n # pending). walk edges ?B p) \<Longrightarrow> reentry \<or> fork \<in> (\<Union>p \<in> set pending. walk edges ?B p)"
      using walks [of fork] closed by (auto simp: closed_region_def)
    ultimately show ?thesis using "2.IH"(2) [OF _ _ closed] 3 by auto
  next
    case 4
    let ?pending = "rev (outgoing edges n) @ pending"
    from 4 "2.prems" have closed: "closed_region edges fork ?B ?pending (n # region) reentry"
      unfolding closed_region_def by auto
    have "(\<Union>p \<in> set (n # pending). walk edges ?B p) = insert n (\<Union>p \<in> set ?pending. walk edges ?B p)"
      using walk_step [of n ?B edges] 4 by auto
    with "2.IH"(3) [OF _ _ closed] 4 show ?thesis by auto
  qed
qed simp

lemma branch_region_walk:
  "set (fst (branch_region edges fork barriers r)) = walk edges (insert fork (set barriers)) r - insert fork (set barriers)"
  "snd (branch_region edges fork barriers r) \<longleftrightarrow> fork \<in> walk edges (insert fork (set barriers)) r"
  using region_loop_walk [of edges fork barriers "[r]" "[]" False]
  by (simp_all add: branch_region_def closed_region_def)

subsection \<open>Joins\<close>

text \<open>The branches of the fork \<open>f\<close> from which \<open>s\<close> can be reached.\<close>

definition branches_of :: "flow_document \<Rightarrow> string \<Rightarrow> string \<Rightarrow> string set" where
  "branches_of d f s = {r. (f, r) \<in> graph_of (doc_edges d) \<and> s \<in> walk (doc_edges d) {f} r - {f}}"

text \<open>A node that waits for all its predecessors, among which every branch has one of its own.\<close>

definition sync_join :: "flow_document \<Rightarrow> string \<Rightarrow> string \<Rightarrow> bool" where
  "sync_join d f j \<longleftrightarrow> j \<in> node_id ` set (doc_nodes d) \<and> \<not> alternative_arrival d j
     \<and> (\<forall>r. (f, r) \<in> graph_of (doc_edges d) \<longrightarrow>
          (\<exists>e \<in> set (doc_edges d). edge_target e = j
             \<and> \<not> (\<exists>n \<in> set (doc_nodes d). node_id n = edge_source e \<and> kind_of_node n = ''condition'')
             \<and> (if edge_source e = f then j = r else branches_of d f (edge_source e) = {r})))"

lemma fork_roots_set: "set (fork_roots d f) = {r. (f, r) \<in> graph_of (doc_edges d)}"
  by (auto simp: fork_roots_def outgoing_iff)

lemma fork_roots_distinct: "distinct (fork_roots d f)"
  unfolding fork_roots_def using bs_of_list_sorted strict_sorted_iff by blast

lemma single_filter:
  assumes "distinct xs"
  shows "filter P xs = [x] \<longleftrightarrow> {x \<in> set xs. P x} = {x}"
proof
  assume "filter P xs = [x]"
  then have "set (filter P xs) = {x}" by simp
  then show "{x \<in> set xs. P x} = {x}" by simp
next
  assume "{x \<in> set xs. P x} = {x}"
  then have "set (filter P xs) = {x}" "distinct (filter P xs)" using assms by simp_all
  then show "filter P xs = [x]" by (cases "filter P xs"; cases "tl (filter P xs)") auto
qed

lemma mem_single: "i \<in> set (case xs of [] \<Rightarrow> [] | [x] \<Rightarrow> [x] | x # y # ys \<Rightarrow> []) \<longleftrightarrow> xs = [i]"
  by (cases xs; cases "tl xs") auto

lemma edge_branches_iff:
  assumes "distinct roots" and "length regions = length roots"
  shows "i \<in> set (edge_branches f roots regions e) \<longleftrightarrow>
    i < length roots \<and> (if edge_source e = f then roots ! i = edge_target e
      else {j. j < length roots \<and> edge_source e \<in> set (regions ! j)} = {i})"
proof (cases "edge_source e = f")
  case True
  show ?thesis
  proof (cases "find (\<lambda>i. roots ! i = edge_target e) [0..<length roots]")
    case None
    then have "\<not> (\<exists>x. x \<in> set [0..<length roots] \<and> roots ! x = edge_target e)" unfolding find_None_iff .
    with True None show ?thesis by (auto simp: edge_branches_def)
  next
    case (Some j)
    from find_SomeD [OF Some] have "j < length roots" "roots ! j = edge_target e" by simp_all
    moreover from this nth_eq_iff_index_eq [OF assms(1), of _ j] have "i = j" if "i < length roots" "roots ! i = edge_target e"
      using that by metis
    ultimately show ?thesis using True Some by (auto simp: edge_branches_def)
  qed
next
  case False
  let ?J = "{j \<in> set [0..<length roots]. edge_source e \<in> set (regions ! j)}"
  have J: "?J = {j. j < length roots \<and> edge_source e \<in> set (regions ! j)}" by simp
  have "i \<in> set (edge_branches f roots regions e) \<longleftrightarrow> ?J = {i}"
    using False by (simp only: edge_branches_def if_False mem_single assms(2) single_filter [OF distinct_upt])
  moreover have "i < length roots" if "?J = {i}" using that unfolding J by blast
  ultimately show ?thesis using False unfolding J by auto
qed

lemma branch_index:
  assumes "distinct roots" "set roots = {r. (f, r) \<in> graph_of (doc_edges d)}" "i < length roots"
    and regions: "\<And>j. j < length roots \<Longrightarrow> set (regions ! j) = walk (doc_edges d) {f} (roots ! j) - {f}"
  shows "{j. j < length roots \<and> s \<in> set (regions ! j)} = {i} \<longleftrightarrow> branches_of d f s = {roots ! i}"
proof -
  let ?J = "{j. j < length roots \<and> s \<in> set (regions ! j)}"
  have "branches_of d f s = {r \<in> set roots. s \<in> walk (doc_edges d) {f} r - {f}}"
    unfolding branches_of_def assms(2) by blast
  also have "\<dots> = (!) roots ` {j. j < length roots \<and> s \<in> walk (doc_edges d) {f} (roots ! j) - {f}}"
    by (auto simp: in_set_conv_nth)
  also have "{j. j < length roots \<and> s \<in> walk (doc_edges d) {f} (roots ! j) - {f}} = ?J" using regions by auto
  finally have "branches_of d f s = {roots ! i} \<longleftrightarrow> (!) roots ` ?J = (!) roots ` {i}" by simp
  also have "\<dots> \<longleftrightarrow> ?J = {i}"
    by (rule inj_on_image_eq_iff [where C = "{..<length roots}"]) (use assms(1,3) in \<open>auto simp: inj_on_nth\<close>)
  finally show ?thesis by simp
qed

lemma required_exact:
  assumes roots: "roots = fork_roots d f"
    and regions: "regions = map (\<lambda>r. fst (branch_region (doc_edges d) f [] r)) roots"
  shows "length (required_branches d f roots regions j) = length roots \<longleftrightarrow>
    (\<forall>r. (f, r) \<in> graph_of (doc_edges d) \<longrightarrow>
          (\<exists>e \<in> set (doc_edges d). edge_target e = j
             \<and> \<not> (\<exists>n \<in> set (doc_nodes d). node_id n = edge_source e \<and> kind_of_node n = ''condition'')
             \<and> (if edge_source e = f then j = r else branches_of d f (edge_source e) = {r})))"
proof -
  have R: "distinct roots" "set roots = {r. (f, r) \<in> graph_of (doc_edges d)}"
    unfolding roots by (rule fork_roots_distinct, rule fork_roots_set)
  have len: "length regions = length roots" by (simp add: regions)
  have reg: "set (regions ! j) = walk (doc_edges d) {f} (roots ! j) - {f}" if "j < length roots" for j
    using that by (simp add: regions branch_region_walk)
  define P where "P r \<longleftrightarrow> (\<exists>e \<in> set (doc_edges d). edge_target e = j
     \<and> \<not> (\<exists>n \<in> set (doc_nodes d). node_id n = edge_source e \<and> kind_of_node n = ''condition'')
     \<and> (if edge_source e = f then j = r else branches_of d f (edge_source e) = {r}))" for r
  have mem: "i \<in> set (required_branches d f roots regions j) \<longleftrightarrow> i < length roots \<and> P (roots ! i)" for i
  proof -
    have same: "i \<in> set (edge_branches f roots regions e) \<longleftrightarrow> i < length roots \<and>
        (if edge_source e = f then j = roots ! i else branches_of d f (edge_source e) = {roots ! i})" if "edge_target e = j" for e
      using that branch_index [OF R _ reg, of i "edge_source e"] unfolding edge_branches_iff [OF R(1) len] by (auto split: if_splits)
    have "i \<in> set (required_branches d f roots regions j) \<longleftrightarrow> (\<exists>e \<in> set (doc_edges d). edge_target e = j
        \<and> \<not> (\<exists>n \<in> set (doc_nodes d). node_id n = edge_source e \<and> kind_of_node n = ''condition'')
        \<and> i \<in> set (edge_branches f roots regions e))"
      unfolding required_branches_def by (auto simp: list_ex_iff)
    also have "\<dots> \<longleftrightarrow> (\<exists>e \<in> set (doc_edges d). edge_target e = j
        \<and> \<not> (\<exists>n \<in> set (doc_nodes d). node_id n = edge_source e \<and> kind_of_node n = ''condition'') \<and> (i < length roots \<and>
        (if edge_source e = f then j = roots ! i else branches_of d f (edge_source e) = {roots ! i})))"
      by (intro bex_cong refl conj_cong same)
    finally show ?thesis unfolding P_def by blast
  qed
  then have S: "set (required_branches d f roots regions j) = {i. i < length roots \<and> P (roots ! i)}" by blast
  have "length (required_branches d f roots regions j) = card {i. i < length roots \<and> P (roots ! i)}"
    unfolding S [symmetric] required_branches_def by (rule distinct_card [symmetric]) simp
  also have "\<dots> = length roots \<longleftrightarrow> {i. i < length roots \<and> P (roots ! i)} = {..<length roots}"
  proof
    assume "card {i. i < length roots \<and> P (roots ! i)} = length roots"
    then show "{i. i < length roots \<and> P (roots ! i)} = {..<length roots}" by (intro card_subset_eq) auto
  qed simp
  also have "\<dots> \<longleftrightarrow> (\<forall>i < length roots. P (roots ! i))" by blast
  also have "\<dots> \<longleftrightarrow> (\<forall>r \<in> set roots. P r)" by (simp only: all_set_conv_all_nth)
  also have "\<dots> \<longleftrightarrow> (\<forall>r. (f, r) \<in> graph_of (doc_edges d) \<longrightarrow> P r)" unfolding R(2) by blast
  finally show ?thesis unfolding P_def .
qed

lemma fork_barriers_set: "set (fork_barriers d f) = {j. sync_join d f j}"
  unfolding fork_barriers_def Let_def sync_join_def by (auto simp: required_exact [OF refl refl])

subsection \<open>Waits\<close>

inductive pausing :: "graph_env \<Rightarrow> flow_node \<Rightarrow> bool" for env where
  pausing_self: "pauses_itself n \<Longrightarrow> pausing env n"
| pausing_inner: "kind_of_node n = ''subgraph'' \<Longrightarrow> subcomposition env n = Some c \<Longrightarrow> m \<in> set (doc_nodes c) \<Longrightarrow>
    pausing env m \<Longrightarrow> pausing env n"

inductive_simps pausing_iff: "pausing env n"

lemma first_some_None: "first_some f xs = Inr None \<longleftrightarrow> (\<forall>x \<in> set xs. f x = Inr None)"
  by (induction xs) (auto simp: and_then_Inr split: option.splits)

lemma first_some_Some: "first_some f xs = Inr (Some y) \<Longrightarrow> \<exists>x \<in> set xs. f x = Inr (Some y)"
  by (induction xs) (auto simp: and_then_Inr split: option.splits)

lemma pause_path_iff: "pause_path k env n = Inr r \<Longrightarrow> r \<noteq> None \<longleftrightarrow> pausing env n"
proof (induction k arbitrary: n r)
  case 0
  then show ?case by (auto simp: pausing_iff [of env n] split: if_splits)
next
  case (Suc k)
  consider "pauses_itself n" | "\<not> pauses_itself n" "kind_of_node n \<noteq> ''subgraph''" | "\<not> pauses_itself n" "kind_of_node n = ''subgraph''" by blast
  then show ?case
  proof cases
    case 3
    with Suc.prems obtain c q where c: "subcomposition env n = Some c" "first_some (pause_path k env) (doc_nodes c) = Inr q"
      "r \<noteq> None \<longleftrightarrow> q \<noteq> None" by (auto simp: and_then_Inr)
    have "q \<noteq> None \<longleftrightarrow> (\<exists>m \<in> set (doc_nodes c). pausing env m)"
    proof (cases q)
      case None
      with c(2) have "\<forall>m \<in> set (doc_nodes c). pause_path k env m = Inr None" by (simp add: first_some_None)
      with None Suc.IH show ?thesis by blast
    next
      case (Some y)
      with c(2) obtain m where "m \<in> set (doc_nodes c)" "pause_path k env m = Inr (Some y)" by (auto dest: first_some_Some)
      with Some Suc.IH show ?thesis by blast
    qed
    with 3 c show ?thesis by (auto simp: pausing_iff [of env n])
  qed (use Suc.prems in \<open>auto simp: pausing_iff [of env n]\<close>)
qed

lemma pauses_of_ok:
  assumes "pauses_of k env ns acc = Inr pauses"
  shows "dom (map_of pauses) = dom (map_of acc) \<union> {node_id n | n. n \<in> set ns \<and> pausing env n}"
  using assms
proof (induction ns arbitrary: acc)
  case (Cons n ns)
  then obtain r where r: "pause_path k env n = Inr r"
    "pauses_of k env ns (case r of None \<Rightarrow> acc | Some path \<Rightarrow> (node_id n, path) # acc) = Inr pauses" by (auto simp: and_then_Inr)
  have "dom (map_of (case r of None \<Rightarrow> acc | Some path \<Rightarrow> (node_id n, path) # acc)) =
      dom (map_of acc) \<union> (if pausing env n then {node_id n} else {})"
    using pause_path_iff [OF r(1)] by (auto split: option.splits)
  then show ?case unfolding Cons.IH [OF r(2)] by auto
qed simp

lemma pauses_of_total:
  "(\<And>n. n \<in> set ns \<Longrightarrow> \<exists>r. pause_path k env n = Inr r) \<Longrightarrow> \<exists>pauses. pauses_of k env ns acc = Inr pauses"
proof (induction ns arbitrary: acc)
  case (Cons n ns)
  then obtain r where "pause_path k env n = Inr r" by auto
  with Cons show ?case by simp
qed simp

lemma first_wait_iff: "first_wait pauses region \<noteq> None \<longleftrightarrow> set region \<inter> dom (map_of pauses) \<noteq> {}"
proof -
  let ?ws = "List.map_filter (map_of pauses) region"
  have "first_wait pauses region \<noteq> None \<longleftrightarrow> sort ?ws \<noteq> []" by (simp add: first_wait_def split: list.splits)
  also have "\<dots> \<longleftrightarrow> set ?ws \<noteq> {}" by (metis set_empty set_sort)
  also have "\<dots> \<longleftrightarrow> set region \<inter> dom (map_of pauses) \<noteq> {}" unfolding List.map_filter_def set_map set_filter by blast
  finally show ?thesis .
qed

lemma length_map_filter: "length (List.map_filter f xs) = length (filter (\<lambda>x. f x \<noteq> None) xs)"
  by (simp add: List.map_filter_def)

lemma at_most_one: "distinct xs \<Longrightarrow> length (filter P xs) < 2 \<longleftrightarrow> (\<forall>x \<in> set xs. \<forall>y \<in> set xs. P x \<and> P y \<longrightarrow> x = y)"
proof (induction xs)
  case (Cons x xs)
  then show ?case by (cases "P x") (auto simp: less_Suc_eq_0_disj filter_empty_conv numeral_2_eq_2)
qed simp

text \<open>The nodes of the branch that starts at \<open>r\<close>, up to the joins that synchronise all branches of \<open>f\<close>.\<close>

definition stops :: "flow_document \<Rightarrow> string \<Rightarrow> string set" where
  "stops d f = insert f {j. sync_join d f j}"

definition branch_waits :: "graph_env \<Rightarrow> flow_document \<Rightarrow> string \<Rightarrow> string \<Rightarrow> bool" where
  "branch_waits env d f r \<longleftrightarrow>
     (\<exists>n \<in> set (doc_nodes d). pausing env n \<and> node_id n \<in> walk (doc_edges d) (stops d f) r - stops d f)"

definition reenters :: "flow_document \<Rightarrow> string \<Rightarrow> string \<Rightarrow> bool" where
  "reenters d f r \<longleftrightarrow> f \<in> walk (doc_edges d) (stops d f) r"

text \<open>Of two branches of a fork only one may wait, and then none of them leads back to the fork.\<close>

definition waits_separated :: "graph_env \<Rightarrow> flow_document \<Rightarrow> bool" where
  "waits_separated env d \<longleftrightarrow> (\<forall>f \<in> set (doc_nodes d). kind_of_node f \<noteq> ''condition'' \<longrightarrow>
     (\<forall>r r'. (node_id f, r) \<in> graph_of (doc_edges d) \<and> (node_id f, r') \<in> graph_of (doc_edges d) \<and> r \<noteq> r' \<longrightarrow>
        branch_waits env d (node_id f) r \<longrightarrow>
        \<not> branch_waits env d (node_id f) r' \<and> \<not> reenters d (node_id f) r \<and> \<not> reenters d (node_id f) r'))"

lemma stops_barriers: "insert f (set (fork_barriers d f)) = stops d f"
  by (simp add: stops_def fork_barriers_set)

lemma separated_iff:
  assumes "distinct roots"
  shows "length roots < 2 \<or> length (filter W roots) < 2 \<and> (\<not> (\<exists>r \<in> set roots. E r) \<or> filter W roots = []) \<longleftrightarrow>
    (\<forall>r \<in> set roots. \<forall>r' \<in> set roots. r \<noteq> r' \<longrightarrow> W r \<longrightarrow> \<not> W r' \<and> \<not> E r \<and> \<not> E r')"
proof (cases "length roots < 2")
  case True
  with at_most_one [OF assms, of "\<lambda>_. True"] show ?thesis by auto
next
  case False
  with at_most_one [OF assms, of "\<lambda>_. True"] obtain a b where ab: "a \<in> set roots" "b \<in> set roots" "a \<noteq> b" by auto
  have "(\<forall>x \<in> set roots. \<forall>y \<in> set roots. W x \<and> W y \<longrightarrow> x = y) \<and> ((\<forall>r \<in> set roots. \<not> E r) \<or> (\<forall>x \<in> set roots. \<not> W x)) \<longleftrightarrow>
      (\<forall>r \<in> set roots. \<forall>r' \<in> set roots. r \<noteq> r' \<longrightarrow> W r \<longrightarrow> \<not> W r' \<and> \<not> E r \<and> \<not> E r')" (is "?L \<longleftrightarrow> ?R")
  proof
    assume R: ?R
    have "False" if "e \<in> set roots" "E e" "w \<in> set roots" "W w" for e w
    proof -
      obtain c where "c \<in> set roots" "c \<noteq> w" using ab by metis
      then have "\<not> E w" using R that(3,4) by simp
      moreover have "\<not> E e" if "e \<noteq> w" using R \<open>e \<in> set roots\<close> \<open>w \<in> set roots\<close> \<open>W w\<close> that by simp
      ultimately show False using that(2) by (cases "e = w") simp_all
    qed
    then have "(\<forall>r \<in> set roots. \<not> E r) \<or> (\<forall>x \<in> set roots. \<not> W x)" by meson
    moreover have "\<forall>x \<in> set roots. \<forall>y \<in> set roots. W x \<and> W y \<longrightarrow> x = y" using R by meson
    ultimately show ?L by simp
  next
    assume ?L
    then show ?R by meson
  qed
  with False show ?thesis unfolding at_most_one [OF assms] filter_empty_conv by simp
qed

lemma validate_fork_iff:
  assumes dom: "dom (map_of pauses) = {node_id n | n. n \<in> set (doc_nodes d) \<and> pausing env n}"
  shows "validate_fork d pauses f = Inr () \<longleftrightarrow>
    (\<forall>r r'. (node_id f, r) \<in> graph_of (doc_edges d) \<and> (node_id f, r') \<in> graph_of (doc_edges d) \<and> r \<noteq> r' \<longrightarrow>
        branch_waits env d (node_id f) r \<longrightarrow>
        \<not> branch_waits env d (node_id f) r' \<and> \<not> reenters d (node_id f) r \<and> \<not> reenters d (node_id f) r')"
proof -
  let ?roots = "fork_roots d (node_id f)"
  let ?walk = "branch_region (doc_edges d) (node_id f) (fork_barriers d (node_id f))"
  have W: "first_wait pauses (fst (?walk r)) \<noteq> None \<longleftrightarrow> branch_waits env d (node_id f) r" for r
    unfolding first_wait_iff branch_region_walk stops_barriers dom branch_waits_def by blast
  have E: "snd (?walk r) \<longleftrightarrow> reenters d (node_id f) r" for r
    unfolding branch_region_walk stops_barriers reenters_def ..
  define waits where "waits = List.map_filter (first_wait pauses) (map fst (map ?walk ?roots))"
  have len: "length waits = length (filter (branch_waits env d (node_id f)) ?roots)"
    unfolding waits_def length_map_filter by (simp add: filter_map comp_def W del: not_None_eq)
  then have nil: "waits = [] \<longleftrightarrow> filter (branch_waits env d (node_id f)) ?roots = []" by (metis length_0_conv)
  have re: "list_ex snd (map ?walk ?roots) \<longleftrightarrow> (\<exists>r \<in> set ?roots. reenters d (node_id f) r)"
    by (auto simp: list_ex_iff E)
  have "validate_fork d pauses f = Inr () \<longleftrightarrow>
      length ?roots < 2 \<or> length waits < 2 \<and> (\<not> list_ex snd (map ?walk ?roots) \<or> waits = [])"
    unfolding validate_fork_def Let_def waits_def by simp
  also have "\<dots> \<longleftrightarrow> (\<forall>r \<in> set ?roots. \<forall>r' \<in> set ?roots. r \<noteq> r' \<longrightarrow> branch_waits env d (node_id f) r \<longrightarrow>
        \<not> branch_waits env d (node_id f) r' \<and> \<not> reenters d (node_id f) r \<and> \<not> reenters d (node_id f) r')"
    unfolding len nil re by (rule separated_iff [OF fork_roots_distinct])
  finally show ?thesis unfolding fork_roots_set by blast
qed

lemma validate_parallel_waits_iff:
  assumes pauses: "pauses_of k env (doc_nodes d) [] = Inr pauses"
  shows "validate_parallel_waits k env d = Inr () \<longleftrightarrow> waits_separated env d"
proof -
  have dom: "dom (map_of pauses) = {node_id n | n. n \<in> set (doc_nodes d) \<and> pausing env n}"
    using pauses_of_ok [OF pauses] by simp
  note forks = validate_fork_iff [OF dom]
  show ?thesis
  proof (cases "pauses = []")
    case True
    with dom have "\<not> pausing env n" if "n \<in> set (doc_nodes d)" for n using that by auto
    then have "waits_separated env d" by (auto simp: waits_separated_def branch_waits_def)
    with True pauses show ?thesis by (simp add: validate_parallel_waits_def)
  next
    case False
    with pauses have "validate_parallel_waits k env d = Inr () \<longleftrightarrow>
        (\<forall>f \<in> set (doc_nodes d). kind_of_node f \<noteq> ''condition'' \<longrightarrow> validate_fork d pauses f = Inr ())"
      by (auto simp: validate_parallel_waits_def for_each_ok_iff)
    then show ?thesis unfolding forks waits_separated_def .
  qed
qed

lemma pause_path_total:
  assumes "8 - depth \<le> k" and "kind_of_node n = ''subgraph'' \<Longrightarrow>
    \<exists>c. subcomposition env n = Some c \<and> validate_depth env c (Suc depth) = Inr ()"
  shows "\<exists>r. pause_path k env n = Inr r"
  using assms
proof (induction k arbitrary: n depth)
  case 0
  show ?case
  proof (cases "kind_of_node n = ''subgraph''")
    case True
    with 0 obtain c where "validate_depth env c (Suc depth) = Inr ()" by blast
    with validate_depthD(1) [OF this] 0(1) show ?thesis by simp
  qed simp
next
  case (Suc k)
  show ?case
  proof (cases "pauses_itself n \<or> kind_of_node n \<noteq> ''subgraph''")
    case False
    with Suc.prems(2) obtain c where c: "subcomposition env n = Some c" "validate_depth env c (Suc depth) = Inr ()" by blast
    have inner: "\<exists>r. pause_path k env m = Inr r" if "m \<in> set (doc_nodes c)" for m
      by (rule Suc.IH [of "Suc depth"]) (use Suc.prems(1) validate_depthD(5) [OF c(2) that] in auto)
    have "\<exists>r. first_some (pause_path k env) ms = Inr r" if "set ms \<subseteq> set (doc_nodes c)" for ms
      using that
    proof (induction ms)
      case (Cons m ms)
      then obtain r where "pause_path k env m = Inr r" using inner by auto
      with Cons show ?case by (cases r) auto
    qed simp
    then obtain q where "first_some (pause_path k env) (doc_nodes c) = Inr q" by blast
    with False c show ?thesis by (auto simp: require_def)
  qed (auto split: if_splits)
qed

subsection \<open>Errors of the waits\<close>

fun wait_error :: "graph_error \<Rightarrow> bool" where
  "wait_error OutOfLevels = True"
| "wait_error (ParallelWaits f ws) = True"
| "wait_error _ = False"

text \<open>A check that never fails because of a wait.\<close>

definition calm :: "(graph_error, 'a) result \<Rightarrow> bool" where
  "calm r \<longleftrightarrow> (\<forall>e. r = Inl e \<longrightarrow> \<not> wait_error e)"

lemma calm_Inr: "calm (Inr a)"
  by (simp add: calm_def)

lemma calm_ensure: "\<not> wait_error e \<Longrightarrow> calm (ensure b e)"
  by (simp add: calm_def ensure_def)

lemma calm_require: "\<not> wait_error e \<Longrightarrow> calm (require x e)"
  by (simp add: calm_def require_def split: option.splits)

lemma calm_map_err: "(\<And>e. \<not> wait_error (g e)) \<Longrightarrow> calm (map_err g r)"
  by (cases r) (simp_all add: calm_def)

lemma calm_and_then: "calm r \<Longrightarrow> (\<And>a. r = Inr a \<Longrightarrow> calm (f a)) \<Longrightarrow> calm (and_then r f)"
  by (cases r) (simp_all add: calm_def)

lemma calm_for_each: "(\<And>x. x \<in> set xs \<Longrightarrow> calm (f x)) \<Longrightarrow> calm (for_each f xs)"
  by (induction xs) (auto simp: calm_def split: sum.splits)

lemma calm_if: "(b \<Longrightarrow> calm r) \<Longrightarrow> (\<not> b \<Longrightarrow> calm s) \<Longrightarrow> calm (if b then r else s)"
  by simp

lemma calm_option: "calm r \<Longrightarrow> (\<And>x. calm (f x)) \<Longrightarrow> calm (case v of None \<Rightarrow> r | Some x \<Rightarrow> f x)"
  by (cases v) simp_all

lemmas calm_rules = calm_Inr calm_ensure calm_require calm_map_err calm_and_then calm_for_each calm_if calm_option

lemma calm_retry: "calm (validate_retry retry)"
  unfolding validate_retry_def by (intro calm_rules) simp_all

lemma calm_channels: "calm (validate_channels cs names)"
proof (induction cs arbitrary: names)
  case (Cons c cs)
  then show ?case unfolding validate_channels.simps by (intro calm_rules) simp_all
qed (simp add: calm_Inr)

lemma calm_settings: "calm (validate_settings d)"
  unfolding validate_settings_def validate_history_def Let_def by (intro calm_rules calm_retry calm_channels) simp_all

lemma calm_header: "calm (validate_header d k)"
  unfolding validate_header_def by (intro calm_rules calm_settings) simp_all

lemma calm_node: "calm (validate_node env v n)"
  unfolding validate_node_def validate_kind_def validate_tool_def validate_program_def validate_ui_def channel_field_def Let_def
  by (intro calm_rules calm_retry) simp_all

lemma calm_head: "calm (node_head env d n)"
  unfolding node_head_def by (intro calm_rules calm_node) simp_all

lemma calm_exits: "calm (node_exits d n)"
  unfolding node_exits_def Let_def by (intro calm_rules) simp_all

lemma calm_edges: "calm (validate_edges d es seen)"
proof (induction es arbitrary: seen)
  case (Cons e es)
  then show ?case unfolding validate_edges.simps by (intro calm_rules) simp_all
qed (simp add: calm_Inr)

lemma calm_pairs: "calm (validate_context_model_pairs env d)"
  unfolding validate_context_model_pairs_def validate_pair_def Let_def by (intro calm_rules) simp_all

lemma nested_under:
  assumes "nested env c k d" and "n \<in> set (doc_nodes doc)" "kind_of_node n = ''subgraph''" "subcomposition env n = Some c"
  shows "nested env doc (Suc k) d"
  using assms(1)
proof (induction rule: nested.induct)
  case nested_self
  show ?case by (rule nested_child [OF nested.nested_self assms(2-4)])
next
  case (nested_child k d m c')
  then show ?case by (auto intro: nested.nested_child)
qed

lemma body_wait_error:
  assumes "validate_body k env d = Inl e" "wait_error e"
    and children: "\<And>n. n \<in> set (doc_nodes d) \<Longrightarrow> \<exists>r. pause_path k env n = Inr r"
  shows "e \<noteq> OutOfLevels \<and> \<not> waits_separated env d"
proof -
  obtain pauses where pauses: "pauses_of k env (doc_nodes d) [] = Inr pauses" using pauses_of_total [OF children] by blast
  have "calm (validate_reachable d)" "calm (validate_ports env d)"
    unfolding validate_reachable_def validate_ports_def Let_def by (intro calm_rules; simp)+
  moreover have "calm (map_err ContractFailure (validate_contract (env_exports env) d))" by (rule calm_map_err) simp
  ultimately have err: "validate_parallel_waits k env d = Inl e"
    using assms(1,2) calm_edges [of d "doc_edges d" "[]"] calm_pairs [of env d]
    unfolding validate_body_def and_then_def calm_def by (auto split: sum.splits)
  then have "\<not> waits_separated env d" using validate_parallel_waits_iff [OF pauses] by simp
  moreover have "e \<noteq> OutOfLevels"
    using err pauses by (auto simp: validate_parallel_waits_def validate_fork_def ensure_def Let_def dest!: for_each_err split: if_splits)
  ultimately show ?thesis by simp
qed

lemma and_then_Inl: "and_then r f = Inl e \<longleftrightarrow> r = Inl e \<or> (\<exists>a. r = Inr a \<and> f a = Inl e)"
  by (cases r) simp_all

lemma ensure_Inl [simp]: "ensure b e' = Inl e \<longleftrightarrow> \<not> b \<and> e = e'"
  by (auto simp: ensure_def)

lemma require_Inl [simp]: "require x e' = Inl e \<longleftrightarrow> x = None \<and> e = e'"
  by (cases x) (auto simp: require_def)

lemma calm_sequence:
  fixes G :: "(graph_error, unit) result"
  assumes "and_then (ensure F FormatVersion) (\<lambda>_. and_then (ensure D NestingLimit) (\<lambda>_. and_then H (\<lambda>_. and_then G (\<lambda>_. B)))) = Inl e"
    and "calm H" "wait_error e"
  shows "D" and "G = Inl e \<or> G = Inr () \<and> B = Inl e"
  using assms by (auto simp: and_then_Inl calm_def)

lemma calm_around:
  assumes "and_then H (\<lambda>_. and_then G (\<lambda>_. B)) = Inl e" and "calm H" "calm B" "wait_error e"
  shows "G = Inl e"
  using assms by (auto simp: and_then_Inl calm_def)

lemma validate_wait_error:
  "validate_depth env doc depth = Inl e \<Longrightarrow> wait_error e \<Longrightarrow>
     e \<noteq> OutOfLevels \<and> (\<exists>k d. nested env doc k d \<and> \<not> waits_separated env d)"
proof (induction "9 - depth" arbitrary: doc depth rule: less_induct)
  case less
  let ?inner = "\<lambda>node. if kind_of_node node = ''subgraph''
            then and_then (require (subcomposition env node) (SubgraphRequired (nd_label (node_content node)))) (\<lambda>child.
                 and_then (ensure (doc_format child = doc_format doc) SubgraphFormat) (\<lambda>_.
                   validate_depth env child (depth + 1)))
            else Inr ()"
  let ?step = "\<lambda>node. and_then (node_head env doc node) (\<lambda>_. and_then (?inner node) (\<lambda>_. node_exits doc node))"
  note seq = calm_sequence [OF less.prems(1) [unfolded validate_depth.simps [of env doc depth]] calm_header less.prems(2)]
  have depth: "depth \<le> 8" by (rule seq(1))
  from seq(2) show ?case
  proof
    assume "for_each ?step (doc_nodes doc) = Inl e"
    from for_each_err [OF this] obtain n where n: "n \<in> set (doc_nodes doc)" "?step n = Inl e" by (rule bexE)
    have "?inner n = Inl e" by (rule calm_around [OF n(2) calm_head calm_exits less.prems(2)])
    then obtain c where c: "kind_of_node n = ''subgraph''" "subcomposition env n = Some c" "validate_depth env c (depth + 1) = Inl e"
      using less.prems(2) by (auto simp: and_then_Inl split: if_splits)
    have "9 - (depth + 1) < 9 - depth" using depth by simp
    from less.hyps [OF this c(3) less.prems(2)] show ?thesis using nested_under [OF _ n(1) c(1,2)] by blast
  next
    assume *: "for_each ?step (doc_nodes doc) = Inr () \<and> validate_body (8 - depth) env doc = Inl e"
    have "\<exists>r. pause_path (8 - depth) env n = Inr r" if n: "n \<in> set (doc_nodes doc)" for n
    proof (rule pause_path_total [where depth = depth])
      have "?step n = Inr ()" using for_each_ok [OF conjunct1 [OF *] n] .
      then show "\<exists>c. subcomposition env n = Some c \<and> validate_depth env c (Suc depth) = Inr ()" if "kind_of_node n = ''subgraph''"
        using that by (auto simp: and_then_Inr)
    qed simp
    from body_wait_error [OF conjunct2 [OF *] less.prems(2) this] show ?thesis using nested_self by blast
  qed
qed

subsection \<open>Answer channels\<close>









lemma private_name [simp]: "jidx (private_channel name) ''name'' = JString name"
  by (simp add: private_channel_def jidx_def)

lemma channel_name [simp]: "jidx (channel_value c) ''name'' = JString (ch_name c)"
  by (simp add: channel_value_def jidx_def split: option.splits)

definition is_answer :: "json \<Rightarrow> bool" where
  "is_answer c \<longleftrightarrow> (case as_str (jidx c ''name'') of None \<Rightarrow> False | Some name \<Rightarrow> prefix ''answer:'' name)"

lemma filter_answers [simp]:
  "filter is_answer (map (\<lambda>p. private_channel (''answer:'' @ p)) ps) = map (\<lambda>p. private_channel (''answer:'' @ p)) ps"
  by (induction ps) (simp_all add: is_answer_def)



subsection \<open>Properties\<close>

text \<open>
  C39. The refusal of parallel waits is exact and always decided. The search for waits ends within
  the levels of nesting that were validated. In a validated graph, at every level, only one of
  several branches leaving a node other than a condition may contain a wait (its own or one inside
  a subgraph) before a join that synchronises all of them, and then no branch leads back to the
  fork; and a graph is refused for its waits only if this fails at some level.
\<close>

theorem parallel_waits_exact:
  "validate env doc \<noteq> Inl OutOfLevels
   \<and> (validate env doc = Inr () \<longrightarrow> (\<forall>k d. nested env doc k d \<longrightarrow> waits_separated env d))
   \<and> (\<forall>f ws. validate env doc = Inl (ParallelWaits f ws) \<longrightarrow> (\<exists>k d. nested env doc k d \<and> \<not> waits_separated env d))"
proof (intro conjI impI allI)
  show "validate env doc \<noteq> Inl OutOfLevels" using validate_wait_error [of env doc 0 OutOfLevels] by (auto simp: validate_def)
  show "\<exists>k d. nested env doc k d \<and> \<not> waits_separated env d" if "validate env doc = Inl (ParallelWaits f ws)" for f ws
    using validate_wait_error [of env doc 0 "ParallelWaits f ws"] that by (simp add: validate_def)
  show "waits_separated env d" if "validate env doc = Inr ()" "nested env doc k d" for k d
  proof -
    have ok: "validate_depth env d k = Inr ()" using nested_validated [OF that(2)] that(1) by (simp add: validate_def)
    have "\<exists>r. pause_path (8 - k) env n = Inr r" if "n \<in> set (doc_nodes d)" for n
      by (rule pause_path_total [where depth = k]) (use validate_depthD(5) [OF ok that] in auto)
    then obtain pauses where "pauses_of (8 - k) env (doc_nodes d) [] = Inr pauses" using pauses_of_total by blast
    moreover have "validate_parallel_waits (8 - k) env d = Inr ()"
      using validate_depthD(3) [OF ok] by (auto simp: validate_body_def and_then_Inr)
    ultimately show ?thesis using validate_parallel_waits_iff by blast
  qed
qed

theorem parallel_waits_exact_witness:
  "waits_separated example_env example_outer \<and> waits_separated example_env example_inner"
  using parallel_waits_exact [of example_env example_outer] example_validates example_nested nested_self by blast



end
